(* ===== verification/Ch_Prelude.thy ===== *)
theory Ch_Prelude
  imports Main "HOL-Library.Word" "HOL-Library.AList"
begin

unbundle bit_operations_syntax

text \<open>
  Shared vocabulary of the development: the machine integers of the C++ code, the error
  sum that stands for "returns normally or throws", the loop combinator for a C++ loop whose
  body may throw, PHP's ordered hash tables as association lists, and the generic lemmas the
  components share.
\<close>

section \<open>Machine integers\<close>

type_synonym u8 = "8 word"
type_synonym u16 = "16 word"
type_synonym u32 = "32 word"
type_synonym u64 = "64 word"

text \<open>
  \<open>int8_t\<close> \<dots> \<open>int64_t\<close>, \<open>zend_long\<close> and \<open>time_t\<close> are the same words, read
  with \<open>sint\<close>. C++ division truncates towards zero: \<open>c_div\<close> and \<open>c_mod\<close> are
  \<open>/\<close> and \<open>%\<close> on signed integers.
\<close>

type_synonym s64 = "64 word"
type_synonym s32 = "32 word"

definition c_div :: "int \<Rightarrow> int \<Rightarrow> int" where
  "c_div a b = sgn a * sgn b * (\<bar>a\<bar> div \<bar>b\<bar>)"

definition c_mod :: "int \<Rightarrow> int \<Rightarrow> int" where
  "c_mod a b = a - b * c_div a b"

definition s64_range :: "int \<Rightarrow> bool" where
  "s64_range i \<longleftrightarrow> - (2 ^ 63) \<le> i \<and> i < 2 ^ 63"

lemma sint_word_of_int_s64: "s64_range i \<Longrightarrow> sint (word_of_int i :: s64) = i"
  by (simp add: s64_range_def sint_sbintrunc' signed_take_bit_int_eq_self)

lemma s64_range_sint [simp, intro]: "s64_range (sint (w :: s64))"
  using sint_range_size [of w] by (simp add: s64_range_def word_size)

lemma unat_of_nat_u64: "k < 2 ^ 64 \<Longrightarrow> unat (of_nat k :: u64) = k"
  by (simp add: unat_of_nat)

lemma unat_less_u64: "unat (w :: u64) < 2 ^ 64"
  using unsigned_less [of w] by simp

lemma c_div_pos: "0 < b \<Longrightarrow> c_div a b = (if a < 0 then - (- a div b) else a div b)"
  by (auto simp: c_div_def sgn_if)

lemma c_mod_pos: "0 < b \<Longrightarrow> c_mod a b = (if a < 0 then - (- a mod b) else a mod b)"
  by (auto simp: c_mod_def c_div_pos minus_div_mult_eq_mod [symmetric] algebra_simps)

section \<open>Results that may be an exception\<close>

text \<open>
  A C++ function that may throw is a function into \<open>'e + 'a\<close>: \<open>Inl\<close> the exception,
  \<open>Inr\<close> the value. \<open>fold_res\<close> is a range-based loop whose body may throw: the first
  exception leaves the loop.
\<close>

fun rbind :: "'e + 'a \<Rightarrow> ('a \<Rightarrow> 'e + 'b) \<Rightarrow> 'e + 'b" where
  "rbind (Inl e) f = Inl e"
| "rbind (Inr x) f = f x"

fun is_ok :: "'e + 'a \<Rightarrow> bool" where
  "is_ok (Inl e) = False"
| "is_ok (Inr x) = True"

fun fold_res :: "('a \<Rightarrow> 's \<Rightarrow> 'e + 's) \<Rightarrow> 'a list \<Rightarrow> 's \<Rightarrow> 'e + 's" where
  "fold_res f [] s = Inr s"
| "fold_res f (x # xs) s = rbind (f x s) (fold_res f xs)"

lemma rbind_Inr_iff [simp]:
  "rbind r f = Inr y \<longleftrightarrow> (\<exists>x. r = Inr x \<and> f x = Inr y)"
  by (cases r) auto

lemma rbind_Inl_iff:
  "rbind r f = Inl e \<longleftrightarrow> r = Inl e \<or> (\<exists>x. r = Inr x \<and> f x = Inl e)"
  by (cases r) auto

lemma rbind_cong [fundef_cong]:
  "r = r' \<Longrightarrow> (\<And>x. r' = Inr x \<Longrightarrow> f x = g x) \<Longrightarrow> rbind r f = rbind r' g"
  by (cases r') auto

lemma fold_res_cong [fundef_cong]:
  "s = s' \<Longrightarrow> xs = ys \<Longrightarrow> (\<And>x t. x \<in> set ys \<Longrightarrow> f x t = g x t) \<Longrightarrow>
    fold_res f xs s = fold_res g ys s'"
proof (induction ys arbitrary: xs s s')
  case (Cons y ys)
  have "fold_res f ys t = fold_res g ys t" for t
    by (rule Cons.IH) (auto intro: Cons.prems(3))
  moreover have "f y s' = g y s'"
    by (rule Cons.prems(3)) simp
  ultimately show ?case
    using Cons.prems(1,2) by (auto intro: rbind_cong)
qed simp

text \<open>A property every successful iteration keeps holds when the loop ends normally.\<close>

lemma fold_res_invariant:
  assumes "fold_res f xs s = Inr t" and "P s"
    and "\<And>x s s'. x \<in> set xs \<Longrightarrow> P s \<Longrightarrow> f x s = Inr s' \<Longrightarrow> P s'"
  shows "P t"
  using assms
proof (induction xs arbitrary: s)
  case (Cons x xs)
  from Cons.prems(1) obtain s' where "f x s = Inr s'" "fold_res f xs s' = Inr t"
    by auto
  with Cons.prems(2,3) show ?case
    by (intro Cons.IH [of s']) auto
qed simp

text \<open>The same with the number of iterations counted.\<close>

lemma fold_res_invariant_count:
  assumes "fold_res f xs s = Inr t" and "P m s"
    and "\<And>x m s s'. x \<in> set xs \<Longrightarrow> P m s \<Longrightarrow> f x s = Inr s' \<Longrightarrow> P (Suc m) s'"
  shows "P (m + length xs) t"
  using assms
proof (induction xs arbitrary: s m)
  case (Cons x xs)
  from Cons.prems(1) obtain s' where s': "f x s = Inr s'" "fold_res f xs s' = Inr t"
    by auto
  have "P (Suc m) s'"
    using Cons.prems(2,3) s'(1) by (metis list.set_intros(1))
  with s'(2) have "P (Suc m + length xs) t"
    by (rule Cons.IH) (use Cons.prems(3) in \<open>auto\<close>)
  then show ?case by simp
qed simp

lemma fold_res_map: "fold_res f (map g xs) s = fold_res (\<lambda>x. f (g x)) xs s"
  by (induction xs arbitrary: s) (auto intro!: rbind_cong)

text \<open>A loop that collects one value per element, or stops at the first exception.\<close>

fun map_res :: "('a \<Rightarrow> 'e + 'b) \<Rightarrow> 'a list \<Rightarrow> 'e + 'b list" where
  "map_res f [] = Inr []"
| "map_res f (x # xs) = rbind (f x) (\<lambda>y. rbind (map_res f xs) (\<lambda>ys. Inr (y # ys)))"

lemma map_res_cong [fundef_cong]:
  "xs = ys \<Longrightarrow> (\<And>x. x \<in> set ys \<Longrightarrow> f x = g x) \<Longrightarrow> map_res f xs = map_res g ys"
  by (induction ys arbitrary: xs) (auto intro!: rbind_cong)

lemma map_res_Inr_iff:
  "map_res f xs = Inr ys \<longleftrightarrow> list_all2 (\<lambda>x y. f x = Inr y) xs ys"
  by (induction xs arbitrary: ys) (auto simp: list_all2_Cons1)

lemma map_res_map: "map_res f (map g xs) = map_res (\<lambda>x. f (g x)) xs"
  by (induction xs) auto

lemma map_res_Inr: "(\<And>x. x \<in> set xs \<Longrightarrow> f x = Inr (g x)) \<Longrightarrow> map_res f xs = Inr (map g xs)"
  by (induction xs) auto

section \<open>Lists\<close>

lemma nth_snoc_less: "i < length xs \<Longrightarrow> (xs @ [x]) ! i = xs ! i"
  by (simp add: nth_append)

lemma nth_snoc_eq: "length xs = i \<Longrightarrow> (xs @ [x]) ! i = x"
  by (simp add: nth_append)

lemmas nth_snoc = nth_snoc_less nth_snoc_eq

text \<open>What a \<open>const char *\<close> reads of a string: the characters before the first NUL.\<close>

definition c_str :: "string \<Rightarrow> string" where
  "c_str s = takeWhile (\<lambda>c. c \<noteq> CHR 0x00) s"

lemma c_str_idem [simp]: "c_str (c_str s) = c_str s"
  by (simp add: c_str_def takeWhile_idem)

lemma c_str_id: "CHR 0x00 \<notin> set s \<Longrightarrow> c_str s = s"
  by (simp add: c_str_def takeWhile_eq_all_conv) blast

end
