(* ===== verification/Ch_Exceptions.thy ===== *)
theory Ch_Exceptions
  imports Ch_Prelude
begin

text \<open>
  The exception layer: \<open>ch_exceptions.cpp\<close>, \<open>ch_exceptions.h\<close>, the class hierarchy that
  \<open>PHP_MINIT_FUNCTION\<close> of \<open>clickhouse_async.cpp\<close> registers, and
  \<open>ch_exception_poisons_connection\<close> of \<open>ch_client.cpp\<close>.
\<close>

section \<open>C++ exceptions\<close>

text \<open>
  The classes the code asks for with \<open>dynamic_cast\<close>. They are siblings: five are classes of
  the clickhouse-cpp library (\<open>clickhouse/exceptions.h\<close>), one is the transport's own
  \<open>chasync::ConnectionError\<close>. \<open>CxxOther\<close> is every other \<open>std::exception\<close> (the comment in
  the source names \<open>UnimplementedError\<close> and \<open>OpenSSLError\<close>; \<open>std::runtime_error\<close> is one
  too). \<open>CxxUndefined\<close> is no exception of the program: it marks a point where the code would
  dereference a null \<open>As<T>()\<close> or use a template of another type, so that such a point is
  visible in the model; the column theory proves it is not reached.
\<close>

datatype cxx_class =
    CxxConnectionError
  | CxxServerException
  | CxxProtocolError
  | CxxCompressionError
  | CxxAssertionError
  | CxxValidationError
  | CxxOther
  | CxxUndefined

record cxx_exn =
  exn_class :: cxx_class
  exn_what :: string
  exn_code :: int

definition dynamic_cast :: "cxx_class \<Rightarrow> cxx_exn \<Rightarrow> bool" where
  "dynamic_cast c e \<longleftrightarrow> exn_class e = c"

definition cxx_error :: "cxx_class \<Rightarrow> string \<Rightarrow> cxx_exn" where
  "cxx_error c what = \<lparr>exn_class = c, exn_what = what, exn_code = 0\<rparr>"

abbreviation connection_error :: "string \<Rightarrow> cxx_exn" where
  "connection_error \<equiv> cxx_error CxxConnectionError"

abbreviation validation_error :: "string \<Rightarrow> cxx_exn" where
  "validation_error \<equiv> cxx_error CxxValidationError"

abbreviation undefined_behaviour :: cxx_exn where
  "undefined_behaviour \<equiv> cxx_error CxxUndefined []"

lemma exn_class_cxx_error [simp]: "exn_class (cxx_error c w) = c"
  by (simp add: cxx_error_def)

lemma exn_what_cxx_error [simp]: "exn_what (cxx_error c w) = w"
  by (simp add: cxx_error_def)

section \<open>PHP exceptions\<close>

datatype php_class =
    ClickHouseException
  | ConnectionException
  | ServerException
  | ProtocolException
  | RuntimeException
  | PhpException
  | ValueError
  | TypeError
  | PhpError
  | OtherThrowable string

text \<open>
  \<open>class_parent\<close>: the four classes of the extension as \<open>PHP_MINIT_FUNCTION\<close> registers them,
  each with the class entry it passes as parent, and the PHP classes they and
  \<open>\ValueError\<close> descend from.
\<close>

fun class_parent :: "php_class \<Rightarrow> php_class option" where
  "class_parent ClickHouseException = Some RuntimeException"
| "class_parent ConnectionException = Some ClickHouseException"
| "class_parent ServerException = Some ClickHouseException"
| "class_parent ProtocolException = Some ClickHouseException"
| "class_parent RuntimeException = Some PhpException"
| "class_parent ValueError = Some PhpError"
| "class_parent TypeError = Some PhpError"
| "class_parent PhpException = None"
| "class_parent PhpError = None"
| "class_parent (OtherThrowable n) = None"

fun class_depth :: "php_class \<Rightarrow> nat" where
  "class_depth PhpException = 0"
| "class_depth PhpError = 0"
| "class_depth (OtherThrowable n) = 0"
| "class_depth RuntimeException = 1"
| "class_depth ValueError = 1"
| "class_depth TypeError = 1"
| "class_depth ClickHouseException = 2"
| "class_depth c = 3"

lemma class_parent_depth: "class_parent c = Some p \<Longrightarrow> class_depth p < class_depth c"
  by (cases c) auto

function class_ancestors :: "php_class \<Rightarrow> php_class list" where
  "class_ancestors c =
     c # (case class_parent c of None \<Rightarrow> [] | Some p \<Rightarrow> class_ancestors p)"
  by pat_completeness auto
termination
  by (relation "measure class_depth") (auto dest: class_parent_depth)

declare class_ancestors.simps [simp del]

lemma class_ancestors_eqs [simp]:
  "class_ancestors PhpException = [PhpException]"
  "class_ancestors PhpError = [PhpError]"
  "class_ancestors (OtherThrowable n) = [OtherThrowable n]"
  "class_ancestors RuntimeException = [RuntimeException, PhpException]"
  "class_ancestors ValueError = [ValueError, PhpError]"
  "class_ancestors TypeError = [TypeError, PhpError]"
  "class_ancestors ClickHouseException = [ClickHouseException, RuntimeException, PhpException]"
  "class_ancestors ConnectionException =
     [ConnectionException, ClickHouseException, RuntimeException, PhpException]"
  "class_ancestors ServerException =
     [ServerException, ClickHouseException, RuntimeException, PhpException]"
  "class_ancestors ProtocolException =
     [ProtocolException, ClickHouseException, RuntimeException, PhpException]"
  by (simp_all add: class_ancestors.simps)

text \<open>Subclassing as an order: \<open>c \<le> d\<close> is \<open>c instanceof d\<close>.\<close>

instantiation php_class :: order
begin

definition less_eq_php_class :: "php_class \<Rightarrow> php_class \<Rightarrow> bool" where
  "c \<le> d \<longleftrightarrow> d \<in> set (class_ancestors c)"

definition less_php_class :: "php_class \<Rightarrow> php_class \<Rightarrow> bool" where
  "(c :: php_class) < d \<longleftrightarrow> c \<le> d \<and> \<not> d \<le> c"

instance
proof
  fix c d e :: php_class
  show "c < d \<longleftrightarrow> c \<le> d \<and> \<not> d \<le> c" by (rule less_php_class_def)
  show "c \<le> c" by (cases c) (auto simp: less_eq_php_class_def)
  show "c \<le> d \<Longrightarrow> d \<le> e \<Longrightarrow> c \<le> e"
    by (cases c) (auto simp: less_eq_php_class_def)
  show "c \<le> d \<Longrightarrow> d \<le> c \<Longrightarrow> c = d"
    by (cases c) (auto simp: less_eq_php_class_def)
qed

end

text \<open>
  A thrown PHP exception: class, message, code, and the exception that was pending when it was
  thrown, which the engine links as \<open>previous\<close>. \<open>EG(exception)\<close> is a \<open>php_exn option\<close>.
\<close>

datatype php_exn =
  PhpExn (php_exn_class: php_class) (php_exn_message: string) (php_exn_code: int)
    (php_exn_previous: "php_exn option")

definition zend_throw_exception ::
    "php_class \<Rightarrow> string \<Rightarrow> int \<Rightarrow> php_exn option \<Rightarrow> php_exn option" where
  "zend_throw_exception c msg code eg = Some (PhpExn c msg code eg)"

section \<open>The translator\<close>

text \<open>\<open>ch_translate_and_throw\<close>: from the C++ exception and \<open>EG(exception)\<close> to the new
  \<open>EG(exception)\<close>.\<close>

definition ch_translate_and_throw :: "cxx_exn \<Rightarrow> php_exn option \<Rightarrow> php_exn option" where
  "ch_translate_and_throw e eg =
     (if eg \<noteq> None then eg
      else if dynamic_cast CxxServerException e
        then zend_throw_exception ServerException (exn_what e) (exn_code e) eg
      else if dynamic_cast CxxProtocolError e \<or> dynamic_cast CxxCompressionError e
          \<or> dynamic_cast CxxAssertionError e
        then zend_throw_exception ProtocolException (exn_what e) 0 eg
      else if dynamic_cast CxxConnectionError e
        then zend_throw_exception ConnectionException (exn_what e) 0 eg
      else if dynamic_cast CxxValidationError e
        then zend_throw_exception ValueError (exn_what e) 0 eg
      else zend_throw_exception ClickHouseException (exn_what e) 0 eg)"

text \<open>\<open>ch_exception_poisons_connection\<close>: the failures after which a connection is dropped.\<close>

definition ch_exception_poisons_connection :: "cxx_exn \<Rightarrow> bool" where
  "ch_exception_poisons_connection e \<longleftrightarrow>
     dynamic_cast CxxConnectionError e \<or> dynamic_cast CxxProtocolError e
     \<or> dynamic_cast CxxCompressionError e \<or> dynamic_cast CxxAssertionError e"

lemmas exception_defs =
  ch_translate_and_throw_def ch_exception_poisons_connection_def dynamic_cast_def
  zend_throw_exception_def

lemma poisons_connection_error [simp]: "ch_exception_poisons_connection (connection_error w)"
  by (simp add: exception_defs)

lemma poisons_validation_error [simp]:
  "\<not> ch_exception_poisons_connection (validation_error w)"
  by (simp add: exception_defs)

lemma translate_pending [simp]:
  "ch_translate_and_throw e (Some x) = Some x"
  by (simp add: ch_translate_and_throw_def)

lemma translate_not_None [simp]: "ch_translate_and_throw e eg \<noteq> None"
  by (simp add: exception_defs)

end
