(* ===== verification/Php_Values.thy ===== *)
theory Php_Values
  imports Ch_Exceptions
begin

text \<open>
  PHP values (\<open>zval\<close>) and the engine's API as the extension uses it. The conversions of the
  engine (\<open>zval_get_long\<close>, \<open>zval_get_string\<close>, \<dots>) and the floating-point unit are not
  code of this repository: they are the fields of the parameter record \<open>php_api\<close>, and
  \<open>php_api_ok\<close> states the documented behaviour the code relies on. Hash-table insertion is
  written out on association lists in insertion order.
\<close>

section \<open>Values\<close>

text \<open>
  A double and a float are carried as their IEEE-754 bit patterns. A \<open>DateTimeInterface\<close>
  object is what its \<open>getTimestamp()\<close> returns and its microseconds; an enum case is its class
  and its backing string; of any other object the code only asks the class.
\<close>

datatype double = Double (double_bits: u64)
datatype float = Float (float_bits: u32)

datatype zkey = KLong s64 | KStr string

datatype zval =
    ZNull
  | ZBool bool
  | ZLong s64
  | ZDouble double
  | ZString string
  | ZArray "(zkey \<times> zval) list"
  | ZDateTime s64 s64
  | ZEnum string string
  | ZObject string

type_synonym hash_table = "(zkey \<times> zval) list"

fun is_zarray :: "zval \<Rightarrow> bool" where
  "is_zarray (ZArray kvs) = True"
| "is_zarray _ = False"

section \<open>The engine's conversions\<close>

record php_api =
  zval_get_long :: "zval \<Rightarrow> s64"
  zval_get_double :: "zval \<Rightarrow> double"
  zval_get_string :: "zval \<Rightarrow> string"
  zend_is_true :: "zval \<Rightarrow> bool"
  symtable_key :: "string \<Rightarrow> zkey"
  fp_narrow :: "double \<Rightarrow> float"
  fp_widen :: "float \<Rightarrow> double"
  fp_llround_scaled :: "double \<Rightarrow> s64 \<Rightarrow> s64"

text \<open>
  \<open>symtable_key\<close> is the key under which \<open>add_assoc_*\<close> stores a string key (a decimal
  integer string becomes an integer key). \<open>fp_narrow\<close> and \<open>fp_widen\<close> are the casts
  between \<open>double\<close> and \<open>float\<close>, \<open>fp_llround_scaled d s\<close> is
  \<open>llround(d * (double) s)\<close>.
\<close>

definition php_api_ok :: "('a) php_api_scheme \<Rightarrow> bool" where
  "php_api_ok P \<longleftrightarrow>
     (\<forall>n. zval_get_long P (ZLong n) = n) \<and>
     (\<forall>d. zval_get_double P (ZDouble d) = d) \<and>
     (\<forall>s. zval_get_string P (ZString s) = s) \<and>
     (\<forall>b. zend_is_true P (ZBool b) = b) \<and>
     (\<forall>f. fp_narrow P (fp_widen P f) = f)"

lemma php_api_okD:
  assumes "php_api_ok P"
  shows "zval_get_long P (ZLong n) = n" and "zval_get_double P (ZDouble d) = d"
    and "zval_get_string P (ZString s) = s" and "zend_is_true P (ZBool b) = b"
    and "fp_narrow P (fp_widen P f) = f"
  using assms by (auto simp: php_api_ok_def)

section \<open>Hash tables\<close>

text \<open>
  \<open>zend_hash_update\<close> overwrites an entry in place or appends a new one;
  \<open>zend_hash_next_index_insert\<close> on a list built with it alone uses the next index;
  \<open>ZEND_HASH_FOREACH_VAL\<close> visits the values in order.
\<close>

definition zend_hash_update :: "hash_table \<Rightarrow> zkey \<Rightarrow> zval \<Rightarrow> hash_table" where
  "zend_hash_update ht k v = AList.update k v ht"

definition zend_hash_find :: "hash_table \<Rightarrow> zkey \<Rightarrow> zval option" where
  "zend_hash_find ht k = map_of ht k"

definition hash_values :: "hash_table \<Rightarrow> zval list" where
  "hash_values ht = map snd ht"

definition add_next_index :: "hash_table \<Rightarrow> zval \<Rightarrow> hash_table" where
  "add_next_index ht v = ht @ [(KLong (of_nat (length ht)), v)]"

definition php_list :: "zval list \<Rightarrow> zval" where
  "php_list vs = ZArray (foldl add_next_index [] vs)"

lemma length_add_next_index [simp]: "length (add_next_index ht v) = Suc (length ht)"
  by (simp add: add_next_index_def)

lemma foldl_add_next_index:
  "foldl add_next_index ht vs =
     ht @ map (\<lambda>(i, v). (KLong (of_nat i), v)) (zip [length ht..<length ht + length vs] vs)"
proof (induction vs arbitrary: ht)
  case (Cons v vs)
  have "[length ht..<length ht + length (v # vs)]
      = length ht # [Suc (length ht)..<Suc (length ht) + length vs]"
    by (simp add: upt_conv_Cons del: upt_Suc)
  then show ?case
    by (simp add: Cons.IH del: upt_Suc) (simp add: add_next_index_def)
qed simp

lemma hash_values_foldl_add_next_index [simp]:
  "hash_values (foldl add_next_index ht vs) = hash_values ht @ vs"
  by (simp add: foldl_add_next_index hash_values_def comp_def case_prod_beta)

lemma length_hash_values [simp]: "length (hash_values ht) = length ht"
  by (simp add: hash_values_def)

lemma map_of_zend_hash_update [simp]:
  "map_of (zend_hash_update ht k v) = (map_of ht)(k \<mapsto> v)"
  by (simp add: zend_hash_update_def update_conv')

lemma zend_hash_update_new:
  "k \<notin> fst ` set ht \<Longrightarrow> zend_hash_update ht k v = ht @ [(k, v)]"
  by (induction ht) (auto simp: zend_hash_update_def)

lemma foldl_zend_hash_update_distinct:
  assumes "distinct (map fst kvs)" and "set (map fst kvs) \<inter> fst ` set ht = {}"
  shows "foldl (\<lambda>h (k, v). zend_hash_update h k v) ht kvs = ht @ kvs"
  using assms
proof (induction kvs arbitrary: ht)
  case (Cons kv kvs)
  obtain k v where kv: "kv = (k, v)" by (cases kv)
  from Cons.prems kv have "k \<notin> fst ` set ht" by auto
  then have "zend_hash_update ht k v = ht @ [(k, v)]"
    by (rule zend_hash_update_new)
  moreover have "foldl (\<lambda>h (k, v). zend_hash_update h k v) (ht @ [(k, v)]) kvs = (ht @ [(k, v)]) @ kvs"
    using Cons.prems kv by (intro Cons.IH) auto
  ultimately show ?case
    by (simp add: kv)
qed simp

section \<open>Unsigned 64-bit to double\<close>

text \<open>
  \<open>(double) v\<close> for \<open>v\<close> of at least \<open>2 ^ 63\<close>, as IEEE-754 round-to-nearest-even gives it:
  the 53-bit significand is \<open>v / 2048\<close> rounded to nearest, ties to even, the biased exponent
  is 1086; a carry out of the significand moves to the exponent.
\<close>

definition round_significand :: "nat \<Rightarrow> nat" where
  "round_significand n =
     (let q = n div 2048; r = n mod 2048
      in if r < 1024 \<or> (r = 1024 \<and> even q) then q else q + 1)"

definition double_of_big_u64 :: "u64 \<Rightarrow> double" where
  "double_of_big_u64 v =
     Double (of_nat (1086 * 2 ^ 52 + (round_significand (unat v) - 2 ^ 52)))"

text \<open>The number a bit pattern with that exponent or the next one stands for.\<close>

definition double_nat_value :: "double \<Rightarrow> nat" where
  "double_nat_value d =
     (let b = unat (double_bits d); e = b div 2 ^ 52; m = b mod 2 ^ 52
      in (2 ^ 52 + m) * 2 ^ (e - 1075))"

lemma round_significand_bounds:
  assumes "2 ^ 63 \<le> n" and "n < 2 ^ 64"
  shows "2 ^ 52 \<le> round_significand n" and "round_significand n \<le> 2 ^ 53"
    and "\<bar>int (round_significand n) * 2048 - int n\<bar> \<le> 1024"
proof -
  have q: "2 ^ 52 \<le> n div 2048" "n div 2048 < 2 ^ 53"
    using assms by (simp_all add: less_mult_imp_div_less)
  then show "2 ^ 52 \<le> round_significand n" "round_significand n \<le> 2 ^ 53"
    by (auto simp: round_significand_def Let_def)
  define r where "r = n mod 2048"
  have "n = n div 2048 * 2048 + r" and r: "r < 2048"
    unfolding r_def by simp_all
  then have n: "int n = int (n div 2048) * 2048 + int r"
    by linarith
  show "\<bar>int (round_significand n) * 2048 - int n\<bar> \<le> 1024"
  proof (cases "r < 1024 \<or> (r = 1024 \<and> even (n div 2048))")
    case True
    then have "round_significand n = n div 2048" and "r \<le> 1024"
      by (auto simp: round_significand_def Let_def r_def)
    with n show ?thesis by simp
  next
    case False
    then have "round_significand n = n div 2048 + 1" and "1024 \<le> r"
      by (auto simp: round_significand_def Let_def r_def)
    with n r show ?thesis by (simp add: algebra_simps)
  qed
qed

lemma double_of_big_u64_value:
  assumes "2 ^ 63 \<le> unat v"
  shows "double_nat_value (double_of_big_u64 v) = round_significand (unat v) * 2048"
proof -
  define s where "s = round_significand (unat v)"
  have v: "unat v < 2 ^ 64"
    using unsigned_less [of v] by simp
  note b = round_significand_bounds(1,2) [OF assms v, folded s_def]
  have bits: "unat (double_bits (double_of_big_u64 v)) = 1086 * 2 ^ 52 + (s - 2 ^ 52)"
    unfolding double_of_big_u64_def s_def [symmetric] double.sel
    by (rule unat_of_nat_u64) (use b in simp)
  show ?thesis
  proof (cases "s = 2 ^ 53")
    case True
    then show ?thesis
      by (simp add: double_nat_value_def bits s_def [symmetric])
  next
    case False
    define m where "m = s - 2 ^ 52"
    from False b have "m < 2 ^ 52" by (simp add: m_def)
    then have "(1086 * 2 ^ 52 + m) div 2 ^ 52 = 1086" and "(1086 * 2 ^ 52 + m) mod 2 ^ 52 = m"
      using mod_mult_self3 [of 1086 "2 ^ 52" m] by simp_all
    with b show ?thesis
      by (simp add: double_nat_value_def bits [folded m_def] s_def [symmetric] Let_def m_def)
  qed
qed

end
