(* ===== verification/Ch_Text.thy ===== *)
theory Ch_Text
  imports Php_Values
begin

text \<open>
  The textual conversions of \<open>ch_client.cpp\<close>: UUIDs (\<open>ch_parse_uuid\<close>,
  \<open>ch_uuid_to_string\<close>), decimals and 128-bit integers (\<open>ch_decimal_to_string\<close>, the
  \<open>ostringstream\<close> uses), and the INSERT statement (\<open>ch_build_insert_statement\<close>).
\<close>

section \<open>Hexadecimal digits\<close>

text \<open>The digit test of \<open>ch_parse_uuid\<close>, in the order of its branches.\<close>

definition hex_nib :: "char \<Rightarrow> nat option" where
  "hex_nib c =
     (let n = of_char c :: nat
      in if 48 \<le> n \<and> n \<le> 57 then Some (n - 48)
         else if 97 \<le> n \<and> n \<le> 102 then Some (n - 97 + 10)
         else if 65 \<le> n \<and> n \<le> 70 then Some (n - 65 + 10)
         else None)"

text \<open>\<open>printf\<close> of an unsigned number as \<open>%0wx\<close>: at least \<open>w\<close> lower-case digits.\<close>

definition hex_char :: "nat \<Rightarrow> char" where
  "hex_char n = (if n < 10 then char_of (48 + n) else char_of (87 + n))"

fun hex_digits :: "nat \<Rightarrow> string" where
  "hex_digits n =
     (if n < 16 then [hex_char n] else hex_digits (n div 16) @ [hex_char (n mod 16)])"

declare hex_digits.simps [simp del]

definition printf_0x :: "nat \<Rightarrow> nat \<Rightarrow> string" where
  "printf_0x w n = replicate (w - length (hex_digits n)) (CHR ''0'') @ hex_digits n"

lemma hex_char_0 [simp]: "hex_char 0 = CHR ''0''"
  by (simp add: hex_char_def char_of_eq_iff)

lemma hex_nib_hex_char [simp]: "n < 16 \<Longrightarrow> hex_nib (hex_char n) = Some n"
  by (auto simp: hex_nib_def hex_char_def Let_def)

lemma hex_nib_less: "hex_nib c = Some n \<Longrightarrow> n < 16"
  by (auto simp: hex_nib_def Let_def split: if_splits)

lemma hex_nib_dash [simp]: "hex_nib (CHR ''-'') = None"
  by (simp add: hex_nib_def)

text \<open>The \<open>w\<close> nibbles of a number, most significant first.\<close>

fun nibbles :: "nat \<Rightarrow> nat \<Rightarrow> nat list" where
  "nibbles 0 n = []"
| "nibbles (Suc w) n = nibbles w (n div 16) @ [n mod 16]"

lemma length_nibbles [simp]: "length (nibbles w n) = w"
  by (induction w arbitrary: n) auto

lemma nibbles_less: "d \<in> set (nibbles w n) \<Longrightarrow> d < 16"
  by (induction w arbitrary: n) auto

lemma nibbles_0 [simp]: "nibbles w 0 = replicate w 0"
  by (induction w) (auto simp: replicate_append_same)

lemma nibbles_mod: "nibbles w (n mod 16 ^ w) = nibbles w n"
proof (induction w arbitrary: n)
  case (Suc w)
  have "n mod 16 ^ Suc w div 16 = n div 16 mod 16 ^ w"
    by (simp add: mod_mult2_eq)
  moreover have "n mod 16 ^ Suc w mod 16 = n mod 16"
    by (simp add: mod_mult2_eq)
  ultimately show ?case
    using Suc.IH [of "n div 16"] by simp
qed simp

lemma nibbles_add: "nibbles (a + b) n = nibbles a (n div 16 ^ b) @ nibbles b n"
  by (induction b arbitrary: n) (auto simp: div_mult2_eq)

lemma printf_0x_nibbles:
  assumes "n < 16 ^ w" and "0 < w"
  shows "printf_0x w n = map hex_char (nibbles w n)"
  using assms
proof (induction w arbitrary: n)
  case (Suc w)
  show ?case
  proof (cases "n < 16")
    case True
    then show ?thesis
      by (simp add: printf_0x_def hex_digits.simps [of n])
  next
    case False
    with Suc.prems have "n div 16 < 16 ^ w" and "0 < w"
      by (auto simp: less_mult_imp_div_less mult.commute intro: gr0I)
    then have "printf_0x w (n div 16) = map hex_char (nibbles w (n div 16))"
      by (rule Suc.IH)
    with False show ?thesis
      by (simp add: printf_0x_def hex_digits.simps [of n])
  qed
qed simp

text \<open>A nibble shifted into an accumulator, as \<open>(acc << 4) | nib\<close>.\<close>

definition push_nib :: "u64 \<Rightarrow> nat \<Rightarrow> u64" where
  "push_nib acc nib = (push_bit 4 acc OR of_nat nib)"

lemma push_nib_eq:
  assumes "d < 16"
  shows "push_nib a d = 16 * a + of_nat d"
proof -
  have "of_nat d = take_bit 4 (of_nat d :: u64)"
    using assms by (simp add: take_bit_of_nat take_bit_nat_eq_self)
  then have "push_bit 4 a AND of_nat d = 0"
    by (metis (no_types, opaque_lifting) bit.conj_zero_right take_bit_and take_bit_push_bit
        diff_self_eq_0 push_bit_of_0 take_bit_0 and.commute take_bit_eq_mask and.left_commute
        cancel_comm_monoid_add_class.diff_cancel)
  then show ?thesis
    by (simp add: push_nib_def disjunctive_add_eq_or [symmetric] push_bit_eq_mult mult.commute)
qed

section \<open>UUIDs\<close>

text \<open>
  The loop of \<open>ch_parse_uuid\<close> over the characters, with its three locals. The result is the
  \<open>clickhouse::UUID\<close> pair of words.
\<close>

type_synonym uuid = "u64 \<times> u64"

fun parse_uuid_loop :: "string \<Rightarrow> nat \<Rightarrow> u64 \<Rightarrow> u64 \<Rightarrow> uuid" where
  "parse_uuid_loop [] nibs hi lo = (hi, lo)"
| "parse_uuid_loop (c # cs) nibs hi lo =
     (if nibs < 32
      then (case hex_nib c of
              None \<Rightarrow> parse_uuid_loop cs nibs hi lo
            | Some nib \<Rightarrow>
                if nibs < 16 then parse_uuid_loop cs (nibs + 1) (push_nib hi nib) lo
                else parse_uuid_loop cs (nibs + 1) hi (push_nib lo nib))
      else (hi, lo))"

definition ch_parse_uuid :: "string \<Rightarrow> uuid" where
  "ch_parse_uuid str = parse_uuid_loop str 0 0 0"

definition ch_uuid_to_string :: "uuid \<Rightarrow> string" where
  "ch_uuid_to_string u =
     (let hi = fst u; lo = snd u
      in printf_0x 8 (unat (ucast (drop_bit 32 hi) :: u32)) @ ''-'' @
         printf_0x 4 (unat (ucast (drop_bit 16 hi AND 0xFFFF) :: u32)) @ ''-'' @
         printf_0x 4 (unat (ucast (hi AND 0xFFFF) :: u32)) @ ''-'' @
         printf_0x 4 (unat (ucast (drop_bit 48 lo) :: u32)) @ ''-'' @
         printf_0x 12 (unat (lo AND 0xFFFFFFFFFFFF)))"

text \<open>What the parser computes, without its loop: the first sixteen hex digits of the text are
  the high word, the next sixteen the low word; everything else is skipped.\<close>

definition hex_nibs :: "string \<Rightarrow> nat list" where
  "hex_nibs s = List.map_filter hex_nib s"

definition word_of_nibs :: "nat list \<Rightarrow> u64" where
  "word_of_nibs ds = foldl push_nib 0 ds"

lemma hex_nibs_simps [simp]:
  "hex_nibs [] = []"
  "hex_nibs (c # s) = (case hex_nib c of None \<Rightarrow> hex_nibs s | Some d \<Rightarrow> d # hex_nibs s)"
  "hex_nibs (s @ t) = hex_nibs s @ hex_nibs t"
  by (auto simp: hex_nibs_def map_filter_def split: option.split)

lemma hex_nibs_map_hex_char:
  "\<forall>d \<in> set ds. d < 16 \<Longrightarrow> hex_nibs (map hex_char ds) = ds"
  by (induction ds) auto

lemma parse_uuid_loop_spec:
  "nibs \<le> 32 \<Longrightarrow> parse_uuid_loop s nibs hi lo =
     (foldl push_nib hi (take (16 - nibs) (hex_nibs s)),
      foldl push_nib lo (take (32 - max 16 nibs) (drop (16 - nibs) (hex_nibs s))))"
proof (induction s nibs hi lo rule: parse_uuid_loop.induct)
  case (2 c cs nibs hi lo)
  show ?case
  proof (cases "hex_nib c")
    case None
    with 2 show ?thesis by (cases "nibs = 32") auto
  next
    case (Some d)
    show ?thesis
    proof (cases "nibs < 16")
      case True
      then have "16 - nibs = Suc (16 - (nibs + 1))" and "max 16 (nibs + 1) = 16"
        and "max 16 nibs = 16"
        by auto
      with 2(2) [OF _ Some True] Some True show ?thesis by simp
    next
      case False
      then show ?thesis
      proof (cases "nibs = 32")
        case False
        with \<open>\<not> nibs < 16\<close> 2(4) have "32 - max 16 nibs = Suc (32 - max 16 (nibs + 1))"
          by auto
        with 2(3) [OF _ Some] 2(4) Some False \<open>\<not> nibs < 16\<close> show ?thesis
          by (simp add: max_def)
      qed (use False in simp)
    qed
  qed
qed simp

lemma ch_parse_uuid_spec:
  "ch_parse_uuid s =
     (word_of_nibs (take 16 (hex_nibs s)), word_of_nibs (take 16 (drop 16 (hex_nibs s))))"
  by (simp add: ch_parse_uuid_def word_of_nibs_def parse_uuid_loop_spec)

lemma word_of_nibs_nibbles: "word_of_nibs (nibbles w n) = of_nat (n mod 16 ^ w)"
proof (induction w arbitrary: n)
  case (Suc w)
  have "n mod 16 ^ Suc w = 16 * (n div 16 mod 16 ^ w) + n mod 16"
    by (simp add: mod_mult2_eq)
  with Suc.IH [of "n div 16"] show ?case
    by (simp add: word_of_nibs_def push_nib_eq)
qed (simp add: word_of_nibs_def)

lemma uuid_fields:
  fixes w :: u64
  shows "unat (ucast (drop_bit 32 w) :: u32) = unat w div 16 ^ 8"
    and "unat (ucast (drop_bit 16 w AND 0xFFFF) :: u32) = unat w div 16 ^ 4 mod 16 ^ 4"
    and "unat (ucast (w AND 0xFFFF) :: u32) = unat w mod 16 ^ 4"
    and "unat (ucast (drop_bit 48 w) :: u32) = unat w div 16 ^ 12"
    and "unat (w AND 0xFFFFFFFFFFFF) = unat w mod 16 ^ 12"
proof -
  have m: "x AND 0xFFFF = take_bit 16 x" "x AND 0xFFFFFFFFFFFF = take_bit 48 x" for x :: u64
    by (simp_all add: take_bit_eq_mask mask_eq_exp_minus_1)
  have u: "unat w < 2 ^ 64" by (rule unat_less_u64)
  show "unat (ucast (drop_bit 32 w) :: u32) = unat w div 16 ^ 8"
    "unat (ucast (drop_bit 48 w) :: u32) = unat w div 16 ^ 12"
    using u
    by (auto simp: unsigned_ucast_eq unat_drop_bit_eq unat_div_distrib drop_bit_eq_div
        take_bit_eq_mod intro!: mod_less less_mult_imp_div_less)
  show "unat (ucast (drop_bit 16 w AND 0xFFFF) :: u32) = unat w div 16 ^ 4 mod 16 ^ 4"
    "unat (ucast (w AND 0xFFFF) :: u32) = unat w mod 16 ^ 4"
    "unat (w AND 0xFFFFFFFFFFFF) = unat w mod 16 ^ 12"
    by (simp_all add: m unsigned_ucast_eq unsigned_take_bit_eq unat_drop_bit_eq drop_bit_eq_div
        take_bit_eq_mod unat_div_distrib unat_mod_distrib)
qed

lemma ch_uuid_to_string_nibbles:
  "ch_uuid_to_string (hi, lo) =
     map hex_char (nibbles 8 (unat hi div 16 ^ 8)) @ ''-'' @
     map hex_char (nibbles 4 (unat hi div 16 ^ 4)) @ ''-'' @
     map hex_char (nibbles 4 (unat hi)) @ ''-'' @
     map hex_char (nibbles 4 (unat lo div 16 ^ 12)) @ ''-'' @
     map hex_char (nibbles 12 (unat lo))"
proof -
  have "unat hi div 16 ^ 8 < 16 ^ 8" "unat lo div 16 ^ 12 < 16 ^ 4"
    using unat_less_u64 [of hi] unat_less_u64 [of lo]
    by (simp_all add: less_mult_imp_div_less)
  then have "printf_0x 8 (unat hi div 16 ^ 8) = map hex_char (nibbles 8 (unat hi div 16 ^ 8))"
    "printf_0x 4 (unat lo div 16 ^ 12) = map hex_char (nibbles 4 (unat lo div 16 ^ 12))"
    by (simp_all only: printf_0x_nibbles zero_less_numeral)
  moreover have "printf_0x w (n mod 16 ^ w) = map hex_char (nibbles w n)" if "0 < w" for n w
    using that by (simp add: printf_0x_nibbles nibbles_mod)
  moreover have "unat (drop_bit 16 hi) = unat hi div 16 ^ 4"
    by (simp add: drop_bit_eq_div unat_div_distrib)
  ultimately show ?thesis
    by (simp only: ch_uuid_to_string_def Let_def uuid_fields fst_conv snd_conv zero_less_numeral)
qed

lemma nibbles_split_16:
  "nibbles 16 n = nibbles 8 (n div 16 ^ 8) @ nibbles 4 (n div 16 ^ 4) @ nibbles 4 n"
  "nibbles 16 n = nibbles 4 (n div 16 ^ 12) @ nibbles 12 n"
  using nibbles_add [of 8 8 n] nibbles_add [of 4 4 n] nibbles_add [of 4 12 n]
  by simp_all

lemma hex_nibs_uuid:
  "hex_nibs (ch_uuid_to_string (hi, lo)) = nibbles 16 (unat hi) @ nibbles 16 (unat lo)"
proof -
  have [simp]: "hex_nibs (map hex_char (nibbles w n)) = nibbles w n" for w n
    by (rule hex_nibs_map_hex_char) (auto dest: nibbles_less)
  show ?thesis
    by (simp add: ch_uuid_to_string_nibbles nibbles_split_16(1) [of "unat hi"]
        nibbles_split_16(2) [of "unat lo"] del: nibbles.simps)
qed

lemma length_ch_uuid_to_string: "length (ch_uuid_to_string u) = 36"
  by (cases u) (simp add: ch_uuid_to_string_nibbles del: nibbles.simps)

lemma parse_uuid_to_string: "ch_parse_uuid (ch_uuid_to_string u) = u"
  using unat_less_u64 [of "fst u"] unat_less_u64 [of "snd u"]
  by (cases u) (simp add: ch_parse_uuid_spec hex_nibs_uuid word_of_nibs_nibbles
      del: nibbles.simps)

end
