(* ===== verification/Ch_Decimal.thy ===== *)
theory Ch_Decimal
  imports Ch_Text
begin

text \<open>
  Decimal text: the stream output of \<open>Int128\<close>/\<open>UInt128\<close> values and
  \<open>ch_decimal_to_string\<close>, with the value a decimal text stands for.
\<close>

section \<open>Printing integers\<close>

definition dec_char :: "nat \<Rightarrow> char" where
  "dec_char n = char_of (48 + n)"

fun dec_digits :: "nat \<Rightarrow> string" where
  "dec_digits n = (if n < 10 then [dec_char n] else dec_digits (n div 10) @ [dec_char (n mod 10)])"

declare dec_digits.simps [simp del]

text \<open>\<open>oss << value\<close> of a signed and of an unsigned 128-bit integer.\<close>

definition int_to_string :: "int \<Rightarrow> string" where
  "int_to_string i = (if i < 0 then CHR ''-'' # dec_digits (nat (- i)) else dec_digits (nat i))"

definition int128_to_string :: "128 word \<Rightarrow> string" where
  "int128_to_string w = int_to_string (sint w)"

definition uint128_to_string :: "128 word \<Rightarrow> string" where
  "uint128_to_string w = int_to_string (uint w)"

text \<open>\<open>ch_decimal_to_string\<close>, statement by statement.\<close>

definition ch_decimal_to_string :: "128 word \<Rightarrow> nat \<Rightarrow> string" where
  "ch_decimal_to_string raw scale =
     (let str = int128_to_string raw
      in if scale = 0 then str
         else
           let negative = (str \<noteq> [] \<and> hd str = CHR ''-'');
               digits0 = (if negative then tl str else str);
               digits = (if length digits0 \<le> scale
                         then replicate (scale - length digits0 + 1) (CHR ''0'') @ digits0
                         else digits0);
               point = length digits - scale;
               out = take point digits @ ''.'' @ drop point digits
           in if negative then ''-'' @ out else out)"

section \<open>Reading digits back\<close>

definition is_dec_char :: "char \<Rightarrow> bool" where
  "is_dec_char c \<longleftrightarrow> 48 \<le> (of_char c :: nat) \<and> (of_char c :: nat) \<le> 57"

definition dec_value :: "string \<Rightarrow> nat" where
  "dec_value s = foldl (\<lambda>a c. 10 * a + (of_char c - 48)) 0 s"

lemma of_char_dec_char: "n < 10 \<Longrightarrow> of_char (dec_char n) = 48 + n"
  by (simp add: dec_char_def)

lemma is_dec_char_dec_char [simp]: "n < 10 \<Longrightarrow> is_dec_char (dec_char n)"
  by (simp add: is_dec_char_def of_char_dec_char)

lemma is_dec_char_0 [simp]: "is_dec_char (CHR ''0'')"
  by (simp add: is_dec_char_def)

lemma not_dec_minus [simp]: "\<not> is_dec_char (CHR ''-'')"
  by (simp add: is_dec_char_def)

lemma not_dec_point [simp]: "\<not> is_dec_char (CHR ''.'')"
  by (simp add: is_dec_char_def)

lemma dec_digits_nonempty [simp]: "dec_digits n \<noteq> []"
  by (subst dec_digits.simps) simp

lemma dec_digits_all: "list_all is_dec_char (dec_digits n)"
proof (induction n rule: dec_digits.induct)
  case (1 n)
  then show ?case
    by (subst dec_digits.simps) simp
qed

lemma dec_value_snoc: "dec_value (s @ [c]) = 10 * dec_value s + (of_char c - 48)"
  by (simp add: dec_value_def)

lemma dec_value_dec_digits [simp]: "dec_value (dec_digits n) = n"
proof (induction n rule: dec_digits.induct)
  case (1 n)
  then show ?case
    by (subst dec_digits.simps)
      (auto simp: dec_value_snoc of_char_dec_char dec_value_def [of "[_]"])
qed

lemma dec_value_zero [simp]: "dec_value (CHR ''0'' # s) = dec_value s"
  by (simp add: dec_value_def)

lemma dec_value_zeros [simp]: "dec_value (replicate k (CHR ''0'') @ s) = dec_value s"
  by (induction k) (auto simp: dec_value_def)

lemma hd_dec_digits: "0 < n \<Longrightarrow> hd (dec_digits n) \<noteq> CHR ''0''"
proof (induction n rule: dec_digits.induct)
  case (1 n)
  show ?case
  proof (cases "n < 10")
    case True
    have "dec_char n \<noteq> CHR ''0''"
    proof
      assume "dec_char n = CHR ''0''"
      then have "(of_char (dec_char n) :: nat) = 48" by simp
      with of_char_dec_char [OF True] 1(2) show False by simp
    qed
    with True show ?thesis by (subst dec_digits.simps) simp
  next
    case False
    with 1 show ?thesis by (subst dec_digits.simps) auto
  qed
qed

lemma hd_is_dec: "list_all is_dec_char s \<Longrightarrow> s \<noteq> [] \<Longrightarrow> is_dec_char (hd s)"
  by (cases s) auto

lemma int_to_string_cases:
  "int_to_string i = (if i < 0 then ''-'' else []) @ dec_digits (nat \<bar>i\<bar>)"
  by (simp add: int_to_string_def)

lemma int_to_string_negative:
  "(int_to_string i \<noteq> [] \<and> hd (int_to_string i) = CHR ''-'') = (i < 0)"
  using hd_is_dec [OF dec_digits_all dec_digits_nonempty, of "nat i"]
  by (auto simp: int_to_string_def)

text \<open>The digits of the output: padded with zeros up to one digit before the point.\<close>

definition decimal_digits :: "nat \<Rightarrow> nat \<Rightarrow> string" where
  "decimal_digits n scale =
     (if length (dec_digits n) \<le> scale
      then replicate (scale - length (dec_digits n) + 1) (CHR ''0'') @ dec_digits n
      else dec_digits n)"

lemma decimal_digits_length: "scale < length (decimal_digits n scale)"
  by (auto simp: decimal_digits_def)

lemma decimal_digits_value [simp]: "dec_value (decimal_digits n scale) = n"
  by (simp add: decimal_digits_def)

lemma decimal_digits_all: "list_all is_dec_char (decimal_digits n scale)"
  by (auto simp: decimal_digits_def dec_digits_all list_all_iff)
    (use dec_digits_all in \<open>auto simp: list_all_iff\<close>)

lemma ch_decimal_to_string_eq:
  "0 < scale \<Longrightarrow> ch_decimal_to_string raw scale =
     (let n = nat \<bar>sint raw\<bar>; ds = decimal_digits n scale; p = length ds - scale
      in (if sint raw < 0 then ''-'' else []) @ take p ds @ ''.'' @ drop p ds)"
proof -
  assume "0 < scale"
  moreover have "(if sint raw < 0 then tl (int_to_string (sint raw)) else int_to_string (sint raw))
      = dec_digits (nat \<bar>sint raw\<bar>)"
    by (simp add: int_to_string_def)
  ultimately show ?thesis
    by (simp only: ch_decimal_to_string_def int128_to_string_def Let_def int_to_string_negative
        decimal_digits_def if_False neq0_conv if_distrib [where f = "\<lambda>x. x @ _"] append_Nil) simp
qed

section \<open>The INSERT statement\<close>

text \<open>
  The loop of \<open>ch_build_insert_statement\<close> over the column list, with \<open>fields\<close> and
  \<open>names\<close> as its state; and the whole statement with the collected names.
\<close>

definition append_field :: "string \<Rightarrow> string \<times> string list \<Rightarrow> string \<times> string list" where
  "append_field str st =
     (let fields = fst st; names = snd st;
          fields1 = (if names \<noteq> [] then fields @ '', '' else fields)
      in (fields1 @ str, names @ [str]))"

definition ch_build_insert_statement ::
    "('a) php_api_scheme \<Rightarrow> string \<Rightarrow> hash_table \<Rightarrow> string \<times> string list" where
  "ch_build_insert_statement P table columns =
     (let st = foldl (\<lambda>st name_zv. append_field (zval_get_string P name_zv) st) ([], [])
                 (hash_values columns)
      in (''INSERT INTO '' @ c_str table @ '' ('' @ fst st @ '') VALUES'', snd st))"

fun join :: "string \<Rightarrow> string list \<Rightarrow> string" where
  "join sep [] = []"
| "join sep [x] = x"
| "join sep (x # y # ys) = x @ sep @ join sep (y # ys)"

lemma join_snoc: "xs \<noteq> [] \<Longrightarrow> join sep (xs @ [x]) = join sep xs @ sep @ x"
  by (induction sep xs rule: join.induct) auto

lemma foldl_append_field:
  "foldl (\<lambda>st v. append_field (f v) st) (join '', '' ns, ns) vs
     = (join '', '' (ns @ map f vs), ns @ map f vs)"
proof (induction vs arbitrary: ns)
  case (Cons v vs)
  have "append_field (f v) (join '', '' ns, ns) = (join '', '' (ns @ [f v]), ns @ [f v])"
    by (cases "ns = []") (auto simp: append_field_def join_snoc)
  then show ?case
    using Cons.IH [of "ns @ [f v]"] by simp
qed simp

lemma ch_build_insert_statement_eq:
  "ch_build_insert_statement P table columns =
     (let names = map (zval_get_string P) (hash_values columns)
      in (''INSERT INTO '' @ c_str table @ '' ('' @ join '', '' names @ '') VALUES'', names))"
  using foldl_append_field [of "zval_get_string P" "[]" "hash_values columns"]
  by (simp add: ch_build_insert_statement_def Let_def)

end
