(* ===== verification/Ch_Types.thy ===== *)
theory Ch_Types
  imports Ch_Decimal
begin

text \<open>
  ClickHouse types and the leaf half of the two type switches of \<open>ch_client.cpp\<close>:
  \<open>ch_append_value\<close> (PHP to column) and \<open>ch_column_value_to_zval\<close> (column to PHP) on the
  types that hold no other column.
\<close>

section \<open>Types\<close>

text \<open>
  \<open>clickhouse::Type\<close> as the two switches take it apart: the codes without a nested column,
  with the parameter the code reads off the column (\<open>GetPrecision()\<close>, \<open>GetScale()\<close>), and the
  four composite codes. \<open>TOther\<close> is any code neither switch names. The element type of a
  \<open>LowCardinality\<close> is not looked at by the code.
\<close>

datatype leaf_code =
    TInt8 | TInt16 | TInt32 | TInt64
  | TUInt8 | TUInt16 | TUInt32 | TUInt64
  | TFloat32 | TFloat64 | TBool
  | TString | TFixedString
  | TDate | TDate32 | TDateTime | TDateTime64 nat
  | TIPv4 | TIPv6 | TUUID
  | TEnum8 | TEnum16
  | TDecimal nat | TDecimal32 nat | TDecimal64 nat | TDecimal128 nat
  | TInt128 | TUInt128 | TLowCardinality
  | TOther string

datatype ch_type =
    Leaf leaf_code
  | Nullable ch_type
  | ArrayT ch_type
  | TupleT "ch_type list"
  | MapT ch_type ch_type

text \<open>
  The argument the code hands to a column's \<open>Append\<close>, and what the column's accessor
  (\<open>operator[]\<close>, \<open>At\<close>, \<open>NameAt\<close>, \<open>AsString\<close>, \<open>GetItem\<close>) gives back for a
  cell. An accessor may throw: such a cell is \<open>VThrows\<close> with the exception.
\<close>

datatype leaf_arg =
    AInt8 u8 | AInt16 u16 | AInt32 u32 | AInt64 u64
  | AUInt8 u8 | AUInt16 u16 | AUInt32 u32 | AUInt64 u64
  | AFloat32 float | AFloat64 double | ABool bool
  | AString string
  | ATime s64 | ATicks s64
  | AUuid uuid
  | AEnumValue8 u8 | AEnumValue16 u16

datatype leaf_val =
    VInt8 u8 | VInt16 u16 | VInt32 u32 | VInt64 u64
  | VUInt8 u8 | VUInt16 u16 | VUInt32 u32 | VUInt64 u64
  | VFloat32 float | VFloat64 double | VBool bool
  | VString string
  | VTime s64 | VTicks s64
  | VUuid uuid
  | VDecimal "128 word" | VInt128 "128 word" | VUInt128 "128 word"
  | VItem leaf_code string
  | VThrows cxx_exn

section \<open>The column library as a parameter\<close>

text \<open>
  clickhouse-cpp is a submodule without files here. What the codec needs of it is a parameter:
  \<open>lib_append\<close> (a leaf column's \<open>Append\<close>: rejects the argument or gives the new cell),
  \<open>lib_type_name\<close> (\<open>GetName\<close>), \<open>lib_create\<close> (the type of the column
  \<open>CreateColumnByType\<close> builds for a name, \<open>None\<close> for the null pointer) and
  \<open>lib_type_ptr\<close> (the address of the \<open>Type\<close> object that a column holds, \<open>Type().get()\<close>, which
  is the key of the template cache).

  An address belongs to an object, so \<open>lib_type_ptr\<close> is a function of the column object, and not
  of the type alone. \<open>col_ref\<close> names every column object of an insert by the way the code reaches
  it: \<open>data[i]\<close> of an insert (which the calls made before it tell apart from every other insert),
  \<open>Nested()\<close>, the member of a Tuple, and the three clones that live for one cell only: the
  elements of row \<open>r\<close> of an Array, and the keys and the values of row \<open>r\<close> of a Map. What is left
  open is whether a clone shares the \<open>Type\<close> of its original and, if it has one of its own,
  whether that lies where the \<open>Type\<close> of an earlier, destroyed clone lay.
\<close>

datatype col_ref =
    DataCol nat nat
  | NestedCol col_ref
  | MemberCol col_ref nat
  | ElementsCol col_ref nat
  | KeysCol col_ref nat
  | ValuesCol col_ref nat

text \<open>The insert a column belongs to, and whether it lives as long as that insert.\<close>

primrec insert_of :: "col_ref \<Rightarrow> nat" where
  "insert_of (DataCol k i) = k"
| "insert_of (NestedCol r) = insert_of r"
| "insert_of (MemberCol r i) = insert_of r"
| "insert_of (ElementsCol r row) = insert_of r"
| "insert_of (KeysCol r row) = insert_of r"
| "insert_of (ValuesCol r row) = insert_of r"

primrec in_place :: "col_ref \<Rightarrow> bool" where
  "in_place (DataCol k i) = True"
| "in_place (NestedCol r) = in_place r"
| "in_place (MemberCol r i) = in_place r"
| "in_place (ElementsCol r row) = False"
| "in_place (KeysCol r row) = False"
| "in_place (ValuesCol r row) = False"

record ch_env = php_api +
  lib_append :: "leaf_code \<Rightarrow> leaf_arg \<Rightarrow> cxx_exn + leaf_val"
  lib_type_name :: "ch_type \<Rightarrow> string"
  lib_create :: "string \<Rightarrow> ch_type option"
  lib_type_ptr :: "col_ref \<Rightarrow> ch_type \<Rightarrow> nat"

section \<open>Dates\<close>

definition ch_zval_to_timestamp :: "('a) php_api_scheme \<Rightarrow> zval \<Rightarrow> s64" where
  "ch_zval_to_timestamp P value =
     (case value of ZDateTime ts us \<Rightarrow> ts | _ \<Rightarrow> zval_get_long P value)"

text \<open>\<open>scale\<close>: the loop that multiplies by ten \<open>precision\<close> times.\<close>

fun dt64_scale :: "nat \<Rightarrow> s64" where
  "dt64_scale 0 = 1"
| "dt64_scale (Suc p) = dt64_scale p * 10"

text \<open>The DateTime64 case of \<open>ch_append_value\<close>.\<close>

definition dt64_ticks :: "('a) php_api_scheme \<Rightarrow> nat \<Rightarrow> zval \<Rightarrow> s64" where
  "dt64_ticks P precision value =
     (let scale = dt64_scale precision
      in case value of
           ZDateTime sec us \<Rightarrow>
             ch_zval_to_timestamp P value * scale
               + word_of_int (c_div (sint (us * scale)) 1000000)
         | ZDouble d \<Rightarrow> fp_llround_scaled P d scale
         | _ \<Rightarrow> zval_get_long P value * scale)"

text \<open>\<open>ch_make_datetime_immutable\<close> and the DateTime64 case of \<open>ch_column_value_to_zval\<close>.\<close>

definition ch_make_datetime_immutable :: "s64 \<Rightarrow> u32 \<Rightarrow> zval" where
  "ch_make_datetime_immutable sec usec = ZDateTime sec (scast usec)"

definition dt64_read :: "nat \<Rightarrow> s64 \<Rightarrow> zval" where
  "dt64_read precision ticks =
     (let scale = dt64_scale precision;
          sec0 = word_of_int (c_div (sint ticks) (sint scale)) :: s64;
          frac0 = word_of_int (c_mod (sint ticks) (sint scale)) :: s64;
          frac = (if sint frac0 < 0 then frac0 + scale else frac0);
          sec = (if sint frac0 < 0 then sec0 - 1 else sec0);
          usec = (if 1 < sint scale
                  then word_of_int (c_div (sint (frac * 1000000)) (sint scale)) :: u32
                  else 0)
      in ch_make_datetime_immutable sec usec)"

section \<open>Writing a leaf\<close>

text \<open>
  \<open>append_arg\<close>: the leaf cases of the switch in \<open>ch_append_value\<close>, giving the argument of
  \<open>Append\<close>; \<open>None\<close> is the \<open>default\<close> branch. The casts truncate to the width.
\<close>

fun append_arg :: "('a) php_api_scheme \<Rightarrow> leaf_code \<Rightarrow> zval \<Rightarrow> leaf_arg option" where
  "append_arg P TInt8 v = Some (AInt8 (ucast (zval_get_long P v)))"
| "append_arg P TInt16 v = Some (AInt16 (ucast (zval_get_long P v)))"
| "append_arg P TInt32 v = Some (AInt32 (ucast (zval_get_long P v)))"
| "append_arg P TInt64 v = Some (AInt64 (zval_get_long P v))"
| "append_arg P TUInt8 v = Some (AUInt8 (ucast (zval_get_long P v)))"
| "append_arg P TUInt16 v = Some (AUInt16 (ucast (zval_get_long P v)))"
| "append_arg P TUInt32 v = Some (AUInt32 (ucast (zval_get_long P v)))"
| "append_arg P TUInt64 v = Some (AUInt64 (zval_get_long P v))"
| "append_arg P TFloat32 v = Some (AFloat32 (fp_narrow P (zval_get_double P v)))"
| "append_arg P TFloat64 v = Some (AFloat64 (zval_get_double P v))"
| "append_arg P TBool v = Some (ABool (zend_is_true P v))"
| "append_arg P TString v = Some (AString (zval_get_string P v))"
| "append_arg P TFixedString v = Some (AString (zval_get_string P v))"
| "append_arg P TDate v = Some (ATime (ch_zval_to_timestamp P v))"
| "append_arg P TDate32 v = Some (ATime (ch_zval_to_timestamp P v))"
| "append_arg P TDateTime v = Some (ATime (ch_zval_to_timestamp P v))"
| "append_arg P (TDateTime64 p) v = Some (ATicks (dt64_ticks P p v))"
| "append_arg P TIPv4 v = Some (AString (zval_get_string P v))"
| "append_arg P TIPv6 v = Some (AString (zval_get_string P v))"
| "append_arg P TUUID v = Some (AUuid (ch_parse_uuid (zval_get_string P v)))"
| "append_arg P TEnum8 v =
     Some (case v of ZString s \<Rightarrow> AString s | _ \<Rightarrow> AEnumValue8 (ucast (zval_get_long P v)))"
| "append_arg P TEnum16 v =
     Some (case v of ZString s \<Rightarrow> AString s | _ \<Rightarrow> AEnumValue16 (ucast (zval_get_long P v)))"
| "append_arg P (TDecimal s) v = Some (AString (zval_get_string P v))"
| "append_arg P (TDecimal32 s) v = Some (AString (zval_get_string P v))"
| "append_arg P (TDecimal64 s) v = Some (AString (zval_get_string P v))"
| "append_arg P (TDecimal128 s) v = Some (AString (zval_get_string P v))"
| "append_arg P TInt128 v = None"
| "append_arg P TUInt128 v = None"
| "append_arg P TLowCardinality v = None"
| "append_arg P (TOther n) v = None"

definition unsupported_type :: "('a) ch_env_scheme \<Rightarrow> ch_type \<Rightarrow> cxx_exn" where
  "unsupported_type E t =
     cxx_error CxxOther (''clickhouse: insert not supported for column type '' @ lib_type_name E t)"

definition append_leaf :: "('a) ch_env_scheme \<Rightarrow> leaf_code \<Rightarrow> zval \<Rightarrow> cxx_exn + leaf_val" where
  "append_leaf E lc v =
     (case append_arg E lc v of
        None \<Rightarrow> Inl (unsupported_type E (Leaf lc))
      | Some a \<Rightarrow> lib_append E lc a)"

section \<open>Reading a leaf\<close>

text \<open>
  The leaf cases of \<open>ch_column_value_to_zval\<close>: a code and what its accessor gives. \<open>ZEND_LONG_MAX\<close>
  is \<open>2 ^ 63 - 1\<close>. An accessor of another column class would be a null \<open>As<T>()\<close>.
\<close>

definition uint64_to_zval :: "u64 \<Rightarrow> zval" where
  "uint64_to_zval v =
     (if v > 0x7FFFFFFFFFFFFFFF then ZDouble (double_of_big_u64 v) else ZLong v)"

definition item_to_zval :: "leaf_code \<Rightarrow> string \<Rightarrow> zval" where
  "item_to_zval lc s = (if lc = TString \<or> lc = TFixedString then ZString s else ZNull)"

fun no_access :: "leaf_val \<Rightarrow> cxx_exn + zval" where
  "no_access (VThrows e) = Inl e"
| "no_access _ = Inl undefined_behaviour"

fun read_leaf :: "('a) php_api_scheme \<Rightarrow> leaf_code \<Rightarrow> leaf_val \<Rightarrow> cxx_exn + zval" where
  "read_leaf P (TOther n) x = Inr ZNull"
| "read_leaf P TInt8 x =
     (case x of VInt8 w \<Rightarrow> Inr (ZLong (scast w)) | _ \<Rightarrow> no_access x)"
| "read_leaf P TInt16 x =
     (case x of VInt16 w \<Rightarrow> Inr (ZLong (scast w)) | _ \<Rightarrow> no_access x)"
| "read_leaf P TInt32 x =
     (case x of VInt32 w \<Rightarrow> Inr (ZLong (scast w)) | _ \<Rightarrow> no_access x)"
| "read_leaf P TInt64 x =
     (case x of VInt64 w \<Rightarrow> Inr (ZLong w) | _ \<Rightarrow> no_access x)"
| "read_leaf P TUInt8 x =
     (case x of VUInt8 w \<Rightarrow> Inr (ZLong (ucast w)) | _ \<Rightarrow> no_access x)"
| "read_leaf P TUInt16 x =
     (case x of VUInt16 w \<Rightarrow> Inr (ZLong (ucast w)) | _ \<Rightarrow> no_access x)"
| "read_leaf P TUInt32 x =
     (case x of VUInt32 w \<Rightarrow> Inr (ZLong (ucast w)) | _ \<Rightarrow> no_access x)"
| "read_leaf P TUInt64 x =
     (case x of VUInt64 w \<Rightarrow> Inr (uint64_to_zval w) | _ \<Rightarrow> no_access x)"
| "read_leaf P TFloat32 x =
     (case x of VFloat32 f \<Rightarrow> Inr (ZDouble (fp_widen P f)) | _ \<Rightarrow> no_access x)"
| "read_leaf P TFloat64 x =
     (case x of VFloat64 d \<Rightarrow> Inr (ZDouble d) | _ \<Rightarrow> no_access x)"
| "read_leaf P TString x =
     (case x of VString s \<Rightarrow> Inr (ZString s) | _ \<Rightarrow> no_access x)"
| "read_leaf P TFixedString x =
     (case x of VString s \<Rightarrow> Inr (ZString s) | _ \<Rightarrow> no_access x)"
| "read_leaf P TBool x =
     (case x of VBool b \<Rightarrow> Inr (ZBool b) | _ \<Rightarrow> no_access x)"
| "read_leaf P TEnum8 x =
     (case x of VString s \<Rightarrow> Inr (ZString s) | _ \<Rightarrow> no_access x)"
| "read_leaf P TEnum16 x =
     (case x of VString s \<Rightarrow> Inr (ZString s) | _ \<Rightarrow> no_access x)"
| "read_leaf P TUUID x =
     (case x of VUuid u \<Rightarrow> Inr (ZString (ch_uuid_to_string u)) | _ \<Rightarrow> no_access x)"
| "read_leaf P TIPv4 x =
     (case x of VString s \<Rightarrow> Inr (ZString s) | _ \<Rightarrow> no_access x)"
| "read_leaf P TIPv6 x =
     (case x of VString s \<Rightarrow> Inr (ZString s) | _ \<Rightarrow> no_access x)"
| "read_leaf P (TDecimal k) x =
     (case x of VDecimal w \<Rightarrow> Inr (ZString (ch_decimal_to_string w k)) | _ \<Rightarrow> no_access x)"
| "read_leaf P (TDecimal32 k) x =
     (case x of VDecimal w \<Rightarrow> Inr (ZString (ch_decimal_to_string w k)) | _ \<Rightarrow> no_access x)"
| "read_leaf P (TDecimal64 k) x =
     (case x of VDecimal w \<Rightarrow> Inr (ZString (ch_decimal_to_string w k)) | _ \<Rightarrow> no_access x)"
| "read_leaf P (TDecimal128 k) x =
     (case x of VDecimal w \<Rightarrow> Inr (ZString (ch_decimal_to_string w k)) | _ \<Rightarrow> no_access x)"
| "read_leaf P TInt128 x =
     (case x of VInt128 w \<Rightarrow> Inr (ZString (int128_to_string w)) | _ \<Rightarrow> no_access x)"
| "read_leaf P TUInt128 x =
     (case x of VUInt128 w \<Rightarrow> Inr (ZString (uint128_to_string w)) | _ \<Rightarrow> no_access x)"
| "read_leaf P TDate x =
     (case x of VTime t \<Rightarrow> Inr (ch_make_datetime_immutable t 0) | _ \<Rightarrow> no_access x)"
| "read_leaf P TDate32 x =
     (case x of VTime t \<Rightarrow> Inr (ch_make_datetime_immutable t 0) | _ \<Rightarrow> no_access x)"
| "read_leaf P TDateTime x =
     (case x of VTime t \<Rightarrow> Inr (ch_make_datetime_immutable t 0) | _ \<Rightarrow> no_access x)"
| "read_leaf P (TDateTime64 p) x =
     (case x of VTicks t \<Rightarrow> Inr (dt64_read p t) | _ \<Rightarrow> no_access x)"
| "read_leaf P TLowCardinality x =
     (case x of VItem lc s \<Rightarrow> Inr (item_to_zval lc s) | _ \<Rightarrow> no_access x)"

end
