(* ===== verification/Ch_Datetime.thy ===== *)
theory Ch_Datetime
  imports Ch_Types
begin

text \<open>
  DateTime64: the tick arithmetic of the two codecs on 64-bit words, related to exact integer
  arithmetic. The server's precisions are 0 to 9, for which no product of the code leaves the
  64-bit range (\<open>dt64_read_eq\<close>, \<open>dt64_ticks_eq\<close>).
\<close>

lemma dt64_scale_eq: "dt64_scale p = 10 ^ p"
  by (induction p) (auto simp: mult.commute)

lemma dt64_scale_word: "dt64_scale p = word_of_int (10 ^ p)"
  by (simp add: dt64_scale_eq word_of_int_power_hom [symmetric])

lemma ten_power_le: "p \<le> 9 \<Longrightarrow> (10 :: int) ^ p \<le> 10 ^ 9"
  by (rule power_increasing) auto

lemma sint_dt64_scale: "p \<le> 9 \<Longrightarrow> sint (dt64_scale p) = 10 ^ p"
  using ten_power_le [of p] sint_word_of_int_s64 [of "10 ^ p"]
  by (simp only: dt64_scale_word) (simp add: s64_range_def order_trans [of _ 0])

lemma micro_bounds:
  fixes t s :: int
  assumes "0 < s"
  shows "0 \<le> t mod s * 1000000 div s" and "t mod s * 1000000 div s < 1000000"
proof -
  have m: "0 \<le> t mod s" "t mod s < s" using assms by simp_all
  then show "0 \<le> t mod s * 1000000 div s"
    using assms by (simp add: pos_imp_zdiv_nonneg_iff)
  show "t mod s * 1000000 div s < 1000000"
  proof (rule ccontr)
    assume "\<not> t mod s * 1000000 div s < 1000000"
    then have "1000000 * s \<le> t mod s * 1000000 div s * s"
      using assms by (intro mult_right_mono) auto
    also have "\<dots> \<le> t mod s * 1000000"
      using assms by (simp flip: minus_mod_eq_div_mult)
    finally show False using m by simp
  qed
qed

lemma c_div_floor:
  assumes "0 < b"
  shows "c_div a b = (if a < 0 \<and> a mod b \<noteq> 0 then a div b + 1 else a div b)"
    and "c_mod a b = (if a < 0 \<and> a mod b \<noteq> 0 then a mod b - b else a mod b)"
  using assms zdiv_zminus1_eq_if [of b "- a"] zmod_zminus1_eq_if [of "- a" b]
  by (auto simp: c_div_pos c_mod_pos)

lemma s64_range_c_div: "0 < b \<Longrightarrow> s64_range a \<Longrightarrow> s64_range (c_div a b)"
proof -
  assume b: "0 < b" and a: "s64_range a"
  have "\<bar>c_div a b\<bar> = \<bar>a\<bar> div b"
    using b by (simp add: c_div_def abs_mult sgn_if pos_imp_zdiv_nonneg_iff)
  also have "\<dots> \<le> \<bar>a\<bar>"
    using b zdiv_mono2 [of "\<bar>a\<bar>" 1 b] by simp
  finally have "\<bar>c_div a b\<bar> \<le> \<bar>a\<bar>" .
  moreover have "0 \<le> c_div a b \<longleftrightarrow> 0 \<le> a \<or> c_div a b = 0"
    using b pos_imp_zdiv_nonneg_iff [OF b, of "- a"]
    by (auto simp: c_div_pos pos_imp_zdiv_nonneg_iff intro: antisym)
  ultimately show ?thesis using a by (auto simp: s64_range_def)
qed

lemma s64_range_div:
  assumes "0 < b" and "s64_range a"
  shows "s64_range (a div b)"
proof (cases "0 \<le> a")
  case True
  then show ?thesis
    using assms zdiv_mono2 [of a 1 b]
    by (auto simp: s64_range_def pos_imp_zdiv_nonneg_iff intro: order_trans [of _ 0])
next
  case False
  then show ?thesis
    using assms zdiv_mono2_neg [of a 1 b] pos_imp_zdiv_neg_iff [OF assms(1), of a]
    by (auto simp: s64_range_def)
qed

text \<open>Reading: the floor of the ticks in seconds, and the rest in microseconds.\<close>

lemma dt64_read_eq:
  assumes p: "p \<le> 9"
  shows "dt64_read p ticks =
    (let t = sint ticks; s = 10 ^ p
     in ZDateTime (word_of_int (t div s)) (word_of_int (t mod s * 1000000 div s)))"
proof -
  define t and s :: int where "t = sint ticks" and "s = 10 ^ p"
  have s: "0 < s" "s \<le> 10 ^ 9"
    using ten_power_le [OF p] by (simp_all add: s_def)
  have m: "0 \<le> t mod s" "t mod s < s"
    using s by simp_all
  have sec0: "sint (word_of_int (c_div t s) :: s64) = c_div t s"
    using s64_range_c_div [OF s(1)] by (simp add: sint_word_of_int_s64 t_def)
  have frac0: "sint (word_of_int (c_mod t s) :: s64) = c_mod t s"
    using s m by (intro sint_word_of_int_s64) (auto simp: s64_range_def c_div_floor)
  have neg: "c_mod t s < 0 \<longleftrightarrow> t < 0 \<and> t mod s \<noteq> 0"
    using s m by (auto simp: c_div_floor(2))
  define frac sec :: s64
    where "frac = (if c_mod t s < 0 then word_of_int (c_mod t s) + dt64_scale p
                   else word_of_int (c_mod t s))"
      and "sec = (if c_mod t s < 0 then word_of_int (c_div t s) - 1 else word_of_int (c_div t s))"
  have sec: "sec = word_of_int (t div s)"
    unfolding sec_def neg using s by (simp add: c_div_floor(1))
  have frac: "frac = word_of_int (t mod s)"
    unfolding frac_def neg dt64_scale_word s_def [symmetric]
    using s by (simp add: c_div_floor(2))
  have prod: "sint (frac * 1000000) = t mod s * 1000000"
  proof -
    have "frac * 1000000 = word_of_int (t mod s * 1000000)"
      by (simp add: frac)
    moreover have "s64_range (t mod s * 1000000)"
      using s m by (auto simp: s64_range_def)
    ultimately show ?thesis by (simp only: sint_word_of_int_s64)
  qed
  define u where "u = t mod s * 1000000 div s"
  have u: "0 \<le> u" "u < 1000000"
    using micro_bounds [OF s(1)] by (simp_all add: u_def)
  have usec: "(if 1 < s then word_of_int (c_div (t mod s * 1000000) s) else 0) = (word_of_int u :: u32)"
    using s m by (auto simp: u_def c_div_pos not_less)
  have "scast (word_of_int u :: u32) = (word_of_int u :: s64)"
    using u by (simp add: signed_of_int signed_take_bit_int_eq_self)
  then show ?thesis
    by (simp only: dt64_read_def Let_def t_def [symmetric] sint_dt64_scale [OF p] s_def [symmetric]
        frac0 frac_def [symmetric] sec_def [symmetric] prod usec sec
        ch_make_datetime_immutable_def u_def [symmetric])
qed

text \<open>Writing a \<open>DateTimeInterface\<close>: whole seconds plus the microseconds at the precision.\<close>

lemma dt64_ticks_eq:
  assumes "p \<le> 9" and "0 \<le> u" and "u < 1000000"
  shows "dt64_ticks P p (ZDateTime sec (word_of_int u)) =
    word_of_int (sint sec * 10 ^ p + u * 10 ^ p div 1000000)"
proof -
  define s :: int where "s = 10 ^ p"
  have s: "0 < s" "s \<le> 10 ^ 9"
    using ten_power_le [OF assms(1)] by (simp_all add: s_def)
  have "u * s \<le> 1000000 * 10 ^ 9"
    using s assms(2,3) by (intro mult_mono) auto
  then have "s64_range (u * s)"
    using mult_nonneg_nonneg [OF assms(2), of s] s(1) by (simp add: s64_range_def)
  then have "sint (word_of_int u * dt64_scale p) = u * s"
    using sint_word_of_int_s64 [of "u * s"]
    by (simp add: dt64_scale_word s_def [symmetric])
  moreover have "sec * dt64_scale p = word_of_int (sint sec * s)"
    by (simp add: dt64_scale_word s_def)
  moreover have "\<not> u * s < 0"
    using mult_nonneg_nonneg [OF assms(2), of s] s(1) by simp
  ultimately show ?thesis
    by (simp add: dt64_ticks_def ch_zval_to_timestamp_def Let_def c_div_pos s_def [symmetric])
qed

text \<open>Ticks read into a PHP object and written back: exact up to microseconds.\<close>

lemma micro_split:
  fixes r :: int
  assumes "p \<le> 9"
  shows "r * 1000000 div 10 ^ p * 10 ^ p div 1000000 = r - r mod 10 ^ (p - 6)"
proof (cases "p \<le> 6")
  case True
  then have "(1000000 :: int) = 10 ^ p * 10 ^ (6 - p)"
    by (simp flip: power_add)
  then have m: "(1000000 :: int) = 10 ^ (6 - p) * 10 ^ p"
    by (simp only: mult.commute)
  have "r * 1000000 div 10 ^ p = r * 10 ^ (6 - p)"
    by (subst m) (simp flip: mult.assoc)
  also have "r * 10 ^ (6 - p) * 10 ^ p div 1000000 = r * 1000000 div 1000000"
    by (simp only: mult.assoc m [symmetric])
  finally show ?thesis using True by simp
next
  case False
  define k :: int where "k = 10 ^ (p - 6)"
  have p: "(10 :: int) ^ p = k * 1000000"
    using False power_add [of "10 :: int" "p - 6" 6] by (simp add: k_def)
  have "r * 1000000 div 10 ^ p = r div k"
    by (simp add: p)
  moreover have "r div k * 10 ^ p div 1000000 = r div k * k"
    by (simp add: p flip: mult.assoc)
  ultimately show ?thesis
    by (simp add: k_def minus_mod_eq_div_mult)
qed

lemma dt64_read_write:
  assumes "p \<le> 9"
  shows "dt64_ticks P p (dt64_read p ticks) =
    word_of_int (sint ticks - sint ticks mod 10 ^ (p - 6))"
proof -
  define t and s :: int where "t = sint ticks" and "s = 10 ^ p"
  have s: "0 < s" by (simp add: s_def)
  note u = micro_bounds [OF s, of t]
  have r: "s64_range (t div s)"
    using s by (intro s64_range_div) (simp_all add: t_def)
  have "10 ^ (p - 6) dvd s"
    unfolding s_def by (rule le_imp_power_dvd) simp
  then have "t mod s mod 10 ^ (p - 6) = t mod 10 ^ (p - 6)"
    by (rule mod_mod_cancel)
  moreover have "t = t div s * s + t mod s" by simp
  ultimately have "t div s * s + t mod s * 1000000 div s * s div 1000000 = t - t mod 10 ^ (p - 6)"
    using micro_split [OF assms, of "t mod s", folded s_def] by linarith
  then show ?thesis
    using dt64_ticks_eq [OF assms u, of P "word_of_int (t div s)"] sint_word_of_int_s64 [OF r]
    by (simp add: dt64_read_eq [OF assms] Let_def t_def [symmetric] s_def [symmetric])
qed

end
