(* ===== verification/Ch_Columns.thy ===== *)
theory Ch_Columns
  imports Ch_Datetime
begin

text \<open>
  Columns and the composite half of the type switches: \<open>ch_append_value\<close> (with the template
  cache \<open>ch_map_templates\<close>) and \<open>ch_column_value_to_zval\<close>. Both recurse on the type, as
  the code recurses on the nested column.
\<close>

section \<open>Columns\<close>

text \<open>
  A column is what the code's calls put into it and its accessors take out: the cells of a leaf
  column; the null flags and the \<open>Nested()\<close> column; one element column per row of an Array
  (\<open>AppendAsColumn\<close> / \<open>GetAsColumn\<close>); the member columns of a Tuple (\<open>operator[]\<close>,
  a Tuple has no storage of its own); a key and a value column per row of a Map.
\<close>

datatype col =
    LeafCol "leaf_val list"
  | NullableCol "bool list" col
  | ArrayCol "col list"
  | TupleCol "col list"
  | MapCol "(col \<times> col) list"

primrec col_rows :: "col \<Rightarrow> nat" where
  "col_rows (LeafCol xs) = length xs"
| "col_rows (NullableCol fs c) = length fs"
| "col_rows (ArrayCol es) = length es"
| "col_rows (TupleCol cs) = (case map col_rows cs of [] \<Rightarrow> 0 | n # _ \<Rightarrow> n)"
| "col_rows (MapCol ms) = length ms"

text \<open>\<open>CloneEmpty()\<close>: a column of the same type without rows.\<close>

primrec empty_col :: "ch_type \<Rightarrow> col" where
  "empty_col (Leaf lc) = LeafCol []"
| "empty_col (Nullable t) = NullableCol [] (empty_col t)"
| "empty_col (ArrayT t) = ArrayCol []"
| "empty_col (TupleT ts) = TupleCol (map empty_col ts)"
| "empty_col (MapT kt vt) = MapCol []"

text \<open>A column of a type with \<open>n\<close> rows; in particular flags and nested column, and all
  members of a Tuple, have the same length.\<close>

primrec wf_col :: "ch_type \<Rightarrow> nat \<Rightarrow> col \<Rightarrow> bool" where
  "wf_col (Leaf lc) n c = (case c of LeafCol xs \<Rightarrow> length xs = n | _ \<Rightarrow> False)"
| "wf_col (Nullable t) n c =
     (case c of NullableCol fs d \<Rightarrow> length fs = n \<and> wf_col t n d | _ \<Rightarrow> False)"
| "wf_col (ArrayT t) n c =
     (case c of ArrayCol es \<Rightarrow> length es = n \<and> list_all (\<lambda>e. wf_col t (col_rows e) e) es
      | _ \<Rightarrow> False)"
| "wf_col (TupleT ts) n c =
     (case c of TupleCol cs \<Rightarrow> list_all2 (\<lambda>w c. w n c) (map wf_col ts) cs | _ \<Rightarrow> False)"
| "wf_col (MapT kt vt) n c =
     (case c of MapCol ms \<Rightarrow>
        length ms = n \<and>
        list_all (\<lambda>(k, v). wf_col kt (col_rows k) k \<and> wf_col vt (col_rows k) v) ms
      | _ \<Rightarrow> False)"

text \<open>A type without an empty Tuple, whose columns would have no length.\<close>

primrec sized_type :: "ch_type \<Rightarrow> bool" where
  "sized_type (Leaf lc) = True"
| "sized_type (Nullable t) = sized_type t"
| "sized_type (ArrayT t) = sized_type t"
| "sized_type (TupleT ts) = (ts \<noteq> [] \<and> list_all (\<lambda>b. b) (map sized_type ts))"
| "sized_type (MapT kt vt) = (sized_type kt \<and> sized_type vt)"

section \<open>Writing: \<open>ch_append_value\<close>\<close>

text \<open>
  The template cache of one \<open>ch_send_block\<close> call: under the address of the \<open>Type\<close> object of a
  Map column, the empty key and value columns, which are given by their types. The \<open>Type\<close> of a
  clone is destroyed with the clone; its entry stays, and a later Map column whose \<open>Type\<close> happens
  to lie at the same address finds it. When the templates found are of other types, the cell is
  filled into columns of these types and handed to the library's \<open>ColumnMap::Append\<close>; what that
  does with a Map of another type cannot be read here, and \<open>stale_template\<close> marks the point.
\<close>

type_synonym ch_map_templates = "nat \<Rightarrow> (ch_type \<times> ch_type) option"

abbreviation stale_template :: cxx_exn where
  "stale_template \<equiv> cxx_error CxxUndefined ''a template of another Map type''"

definition map_templates ::
    "('a) ch_env_scheme \<Rightarrow> ch_type \<Rightarrow> ch_type \<Rightarrow> col_ref \<Rightarrow> ch_map_templates
      \<Rightarrow> cxx_exn + ch_map_templates" where
  "map_templates E kt vt ref tmpl =
     (let p = lib_type_ptr E ref (MapT kt vt)
      in case tmpl p of
           Some kv \<Rightarrow> if kv = (kt, vt) then Inr tmpl else Inl stale_template
         | None \<Rightarrow>
             (case (lib_create E (lib_type_name E kt), lib_create E (lib_type_name E vt)) of
                (Some k, Some v) \<Rightarrow>
                  if (k, v) = (kt, vt) then Inr (tmpl(p \<mapsto> (k, v))) else Inl stale_template
              | _ \<Rightarrow> Inl (validation_error ''clickhouse: unsupported Map key/value type'')))"

type_synonym appender = "zval \<Rightarrow> col \<times> ch_map_templates \<Rightarrow> cxx_exn + col \<times> ch_map_templates"

definition array_expected :: cxx_exn where
  "array_expected = validation_error ''clickhouse: an Array column expects a PHP array''"

definition tuple_expected :: cxx_exn where
  "tuple_expected = validation_error ''clickhouse: a Tuple column expects a PHP array''"

definition tuple_too_many :: cxx_exn where
  "tuple_too_many = validation_error ''clickhouse: too many Tuple elements''"

definition tuple_too_few :: cxx_exn where
  "tuple_too_few = validation_error ''clickhouse: too few Tuple elements''"

definition map_expected :: cxx_exn where
  "map_expected = validation_error ''clickhouse: a Map column expects a PHP array''"

lemmas expected_defs =
  array_expected_def tuple_expected_def tuple_too_many_def tuple_too_few_def map_expected_def

text \<open>
  A loop that appends one value to each column positionally, throwing \<open>many\<close> at a value past
  the last column and \<open>few\<close> when values are missing: the element loop of the Tuple case and the
  cell loop of \<open>ch_send_block\<close>.
\<close>

fun append_members ::
    "cxx_exn \<Rightarrow> cxx_exn \<Rightarrow> appender list \<Rightarrow> zval list \<Rightarrow> col list \<Rightarrow> ch_map_templates
      \<Rightarrow> cxx_exn + col list \<times> ch_map_templates" where
  "append_members many few [] [] cs tm = Inr (cs, tm)"
| "append_members many few [] (v # vs) cs tm = Inl many"
| "append_members many few (f # fs) [] cs tm = Inl few"
| "append_members many few (f # fs) (v # vs) [] tm = Inl undefined_behaviour"
| "append_members many few (f # fs) (v # vs) (c # cs) tm =
     rbind (f v (c, tm)) (\<lambda>(c', tm'). rbind (append_members many few fs vs cs tm') (\<lambda>(cs', tm'').
       Inr (c' # cs', tm'')))"

text \<open>The body of the Map case's loop: the key as a PHP value, then key and entry appended.\<close>

fun key_zval :: "zkey \<Rightarrow> zval" where
  "key_zval (KStr s) = ZString s"
| "key_zval (KLong n) = ZLong n"

fun append_entry ::
    "appender \<Rightarrow> appender \<Rightarrow> zkey \<times> zval \<Rightarrow> (col \<times> col) \<times> ch_map_templates
      \<Rightarrow> cxx_exn + (col \<times> col) \<times> ch_map_templates" where
  "append_entry fk fv (key, entry) ((ks, vs), tm) =
     rbind (fk (key_zval key) (ks, tm)) (\<lambda>(ks', tm'). rbind (fv entry (vs, tm')) (\<lambda>(vs', tm'').
       Inr ((ks', vs'), tm'')))"

text \<open>
  \<open>ch_append_value\<close> on the column \<open>ref\<close>. A Tuple hands each value to the member at its position;
  the clones of an Array or Map cell are numbered by the row they become.
\<close>

primrec append_value ::
    "('a) ch_env_scheme \<Rightarrow> ch_type \<Rightarrow> col_ref \<Rightarrow> appender" where
  "append_value E (Leaf lc) ref value s =
     (case fst s of
        LeafCol xs \<Rightarrow> rbind (append_leaf E lc value) (\<lambda>x. Inr (LeafCol (xs @ [x]), snd s))
      | _ \<Rightarrow> Inl undefined_behaviour)"
| "append_value E (Nullable t) ref value s =
     (case fst s of
        NullableCol flags nested \<Rightarrow>
          if value = ZNull
          then rbind (append_value E t (NestedCol ref) (ZLong 0) (nested, snd s)) (\<lambda>(nested', tm).
                 Inr (NullableCol (flags @ [True]) nested', tm))
          else rbind (append_value E t (NestedCol ref) value (nested, snd s)) (\<lambda>(nested', tm).
                 Inr (NullableCol (flags @ [False]) nested', tm))
      | _ \<Rightarrow> Inl undefined_behaviour)"
| "append_value E (ArrayT t) ref value s =
     (case value of
        ZArray kvs \<Rightarrow>
          (case fst s of
             ArrayCol es \<Rightarrow>
               rbind (fold_res (append_value E t (ElementsCol ref (length es))) (hash_values kvs)
                        (empty_col t, snd s))
                 (\<lambda>(elements, tm). Inr (ArrayCol (es @ [elements]), tm))
           | _ \<Rightarrow> Inl undefined_behaviour)
      | _ \<Rightarrow> Inl array_expected)"
| "append_value E (TupleT ts) ref value s =
     (case value of
        ZArray kvs \<Rightarrow>
          (case fst s of
             TupleCol cs \<Rightarrow>
               rbind (append_members tuple_too_many tuple_too_few
                        (map2 (\<lambda>f i. f (MemberCol ref i)) (map (append_value E) ts) [0..<length ts])
                        (hash_values kvs) cs (snd s))
                 (\<lambda>(cs', tm). Inr (TupleCol cs', tm))
           | _ \<Rightarrow> Inl undefined_behaviour)
      | _ \<Rightarrow> Inl tuple_expected)"
| "append_value E (MapT kt vt) ref value s =
     (case value of
        ZArray kvs \<Rightarrow>
          (case fst s of
             MapCol ms \<Rightarrow>
               rbind (map_templates E kt vt ref (snd s)) (\<lambda>tm.
               rbind (fold_res (append_entry (append_value E kt (KeysCol ref (length ms)))
                                             (append_value E vt (ValuesCol ref (length ms)))) kvs
                        ((empty_col kt, empty_col vt), tm)) (\<lambda>((keys, values), tm').
                 Inr (MapCol (ms @ [(keys, values)]), tm')))
           | _ \<Rightarrow> Inl undefined_behaviour)
      | _ \<Rightarrow> Inl map_expected)"

section \<open>Reading: \<open>ch_column_value_to_zval\<close>\<close>

text \<open>One entry of the Map loop: an integer key by index, any other key as a string.\<close>

definition add_map_entry :: "('a) php_api_scheme \<Rightarrow> zval \<Rightarrow> zval \<Rightarrow> hash_table \<Rightarrow> hash_table" where
  "add_map_entry P key value out =
     (case key of
        ZLong n \<Rightarrow> zend_hash_update out (KLong n) value
      | ZString s \<Rightarrow> zend_hash_update out (symtable_key P s) value
      | _ \<Rightarrow> zend_hash_update out (symtable_key P (zval_get_string P key)) value)"

type_synonym reader = "col \<Rightarrow> nat \<Rightarrow> cxx_exn + zval"

definition read_map_entries ::
    "('a) php_api_scheme \<Rightarrow> reader \<Rightarrow> reader \<Rightarrow> col \<Rightarrow> col \<Rightarrow> cxx_exn + hash_table" where
  "read_map_entries P rk rv keys values =
     fold_res (\<lambda>i out. rbind (rk keys i) (\<lambda>key. rbind (rv values i) (\<lambda>value.
         Inr (add_map_entry P key value out))))
       [0..<col_rows keys] []"

primrec column_value_to_zval :: "('a) php_api_scheme \<Rightarrow> ch_type \<Rightarrow> col \<Rightarrow> nat \<Rightarrow> cxx_exn + zval" where
  "column_value_to_zval P (Leaf lc) c row =
     (case c of
        LeafCol xs \<Rightarrow> if row < length xs then read_leaf P lc (xs ! row)
                      else Inl undefined_behaviour
      | _ \<Rightarrow> Inl undefined_behaviour)"
| "column_value_to_zval P (Nullable t) c row =
     (case c of
        NullableCol flags nested \<Rightarrow>
          if row < length flags
          then if flags ! row then Inr ZNull else column_value_to_zval P t nested row
          else Inl undefined_behaviour
      | _ \<Rightarrow> Inl undefined_behaviour)"
| "column_value_to_zval P (ArrayT t) c row =
     (case c of
        ArrayCol es \<Rightarrow>
          if row < length es
          then rbind (map_res (\<lambda>i. column_value_to_zval P t (es ! row) i) [0..<col_rows (es ! row)])
                 (\<lambda>vs. Inr (php_list vs))
          else Inl undefined_behaviour
      | _ \<Rightarrow> Inl undefined_behaviour)"
| "column_value_to_zval P (TupleT ts) c row =
     (case c of
        TupleCol cs \<Rightarrow>
          rbind (map_res (\<lambda>(r, member). r member row) (zip (map (column_value_to_zval P) ts) cs))
            (\<lambda>vs. Inr (php_list vs))
      | _ \<Rightarrow> Inl undefined_behaviour)"
| "column_value_to_zval P (MapT kt vt) c row =
     (case c of
        MapCol ms \<Rightarrow>
          if row < length ms
          then rbind (read_map_entries P (column_value_to_zval P kt) (column_value_to_zval P vt)
                        (fst (ms ! row)) (snd (ms ! row)))
                 (\<lambda>ht. Inr (ZArray ht))
          else Inl undefined_behaviour
      | _ \<Rightarrow> Inl undefined_behaviour)"

end
