(* ===== verification/Ch_Codec.thy ===== *)
theory Ch_Codec
  imports Ch_Columns
begin

text \<open>
  The abstract specification of the codec: a row of a column is a \<open>cell\<close>; \<open>enc\<close> turns a PHP
  value into a cell and \<open>dec\<close> a cell into a PHP value, without columns and without the template
  cache. \<open>append_value\<close> and \<open>column_value_to_zval\<close> refine them: \<open>col_cells\<close> is the
  abstraction function.
\<close>

section \<open>Cells\<close>

datatype cell =
    CLeaf leaf_val
  | CNull cell
  | CSome cell
  | CArray "cell list"
  | CTuple "cell list"
  | CMap "(cell \<times> cell) list"

primrec col_cells :: "ch_type \<Rightarrow> col \<Rightarrow> cell list" where
  "col_cells (Leaf lc) c = (case c of LeafCol xs \<Rightarrow> map CLeaf xs | _ \<Rightarrow> [])"
| "col_cells (Nullable t) c =
     (case c of NullableCol fs d \<Rightarrow> map2 (\<lambda>f x. if f then CNull x else CSome x) fs (col_cells t d)
      | _ \<Rightarrow> [])"
| "col_cells (ArrayT t) c =
     (case c of ArrayCol es \<Rightarrow> map (\<lambda>e. CArray (col_cells t e)) es | _ \<Rightarrow> [])"
| "col_cells (TupleT ts) c =
     (case c of TupleCol cs \<Rightarrow>
        map (\<lambda>i. CTuple (map2 (\<lambda>f d. f d ! i) (map col_cells ts) cs)) [0..<col_rows c]
      | _ \<Rightarrow> [])"
| "col_cells (MapT kt vt) c =
     (case c of MapCol ms \<Rightarrow>
        map (\<lambda>(k, v). CMap (zip (col_cells kt k) (col_cells vt v))) ms
      | _ \<Rightarrow> [])"

section \<open>The reference encoder and decoder\<close>

fun enc_members ::
    "cxx_exn \<Rightarrow> cxx_exn \<Rightarrow> (zval \<Rightarrow> cxx_exn + cell) list \<Rightarrow> zval list \<Rightarrow> cxx_exn + cell list" where
  "enc_members many few [] [] = Inr []"
| "enc_members many few [] (v # vs) = Inl many"
| "enc_members many few (f # fs) [] = Inl few"
| "enc_members many few (f # fs) (v # vs) =
     rbind (f v) (\<lambda>x. rbind (enc_members many few fs vs) (\<lambda>xs. Inr (x # xs)))"

definition creatable :: "('a) ch_env_scheme \<Rightarrow> ch_type \<Rightarrow> bool" where
  "creatable E t \<longleftrightarrow> lib_create E (lib_type_name E t) \<noteq> None"

definition enc_entry ::
    "(zval \<Rightarrow> cxx_exn + cell) \<Rightarrow> (zval \<Rightarrow> cxx_exn + cell) \<Rightarrow> zkey \<times> zval \<Rightarrow> cxx_exn + cell \<times> cell" where
  "enc_entry fk fv ke =
     rbind (fk (key_zval (fst ke))) (\<lambda>k. rbind (fv (snd ke)) (\<lambda>v. Inr (k, v)))"

primrec enc :: "('a) ch_env_scheme \<Rightarrow> ch_type \<Rightarrow> zval \<Rightarrow> cxx_exn + cell" where
  "enc E (Leaf lc) v = rbind (append_leaf E lc v) (\<lambda>x. Inr (CLeaf x))"
| "enc E (Nullable t) v =
     (if v = ZNull then rbind (enc E t (ZLong 0)) (\<lambda>x. Inr (CNull x))
      else rbind (enc E t v) (\<lambda>x. Inr (CSome x)))"
| "enc E (ArrayT t) v =
     (case v of ZArray kvs \<Rightarrow> rbind (map_res (enc E t) (hash_values kvs)) (\<lambda>xs. Inr (CArray xs))
      | _ \<Rightarrow> Inl array_expected)"
| "enc E (TupleT ts) v =
     (case v of
        ZArray kvs \<Rightarrow> rbind (enc_members tuple_too_many tuple_too_few (map (enc E) ts) (hash_values kvs)) (\<lambda>xs. Inr (CTuple xs))
      | _ \<Rightarrow> Inl tuple_expected)"
| "enc E (MapT kt vt) v =
     (case v of
        ZArray kvs \<Rightarrow>
          if creatable E kt \<and> creatable E vt
          then rbind (map_res (enc_entry (enc E kt) (enc E vt)) kvs) (\<lambda>xs. Inr (CMap xs))
          else Inl (validation_error ''clickhouse: unsupported Map key/value type'')
      | _ \<Rightarrow> Inl map_expected)"

primrec dec :: "('a) php_api_scheme \<Rightarrow> ch_type \<Rightarrow> cell \<Rightarrow> cxx_exn + zval" where
  "dec P (Leaf lc) x = (case x of CLeaf lv \<Rightarrow> read_leaf P lc lv | _ \<Rightarrow> Inl undefined_behaviour)"
| "dec P (Nullable t) x =
     (case x of CNull y \<Rightarrow> Inr ZNull | CSome y \<Rightarrow> dec P t y | _ \<Rightarrow> Inl undefined_behaviour)"
| "dec P (ArrayT t) x =
     (case x of CArray xs \<Rightarrow> rbind (map_res (dec P t) xs) (\<lambda>vs. Inr (php_list vs))
      | _ \<Rightarrow> Inl undefined_behaviour)"
| "dec P (TupleT ts) x =
     (case x of
        CTuple xs \<Rightarrow>
          rbind (map_res (\<lambda>(f, y). f y) (zip (map (dec P) ts) xs)) (\<lambda>vs. Inr (php_list vs))
      | _ \<Rightarrow> Inl undefined_behaviour)"
| "dec P (MapT kt vt) x =
     (case x of
        CMap kvs \<Rightarrow>
          rbind (fold_res (\<lambda>(k, v) out. rbind (dec P kt k) (\<lambda>key. rbind (dec P vt v) (\<lambda>value.
                    Inr (add_map_entry P key value out)))) kvs [])
            (\<lambda>ht. Inr (ZArray ht))
      | _ \<Rightarrow> Inl undefined_behaviour)"

section \<open>Lengths\<close>

lemma wf_col_rows: "wf_col t n c \<Longrightarrow> sized_type t \<Longrightarrow> col_rows c = n"
proof (induction t arbitrary: n c)
  case (TupleT ts)
  then obtain u us d ds where "ts = u # us" "c = TupleCol (d # ds)" "wf_col u n d"
    by (cases ts) (auto split: col.splits simp: list_all2_Cons1)
  with TupleT.IH [of u] TupleT.prems(2) show ?case by auto
qed (auto split: col.splits)

lemma length_col_cells: "wf_col t n c \<Longrightarrow> sized_type t \<Longrightarrow> length (col_cells t c) = n"
proof (induction t arbitrary: n c)
  case (TupleT ts)
  then show ?case
    using wf_col_rows [of "TupleT ts" n c] by (auto split: col.splits)
qed (auto split: col.splits)

lemma wf_empty_col: "wf_col t 0 (empty_col t)"
proof (induction t)
  case (TupleT ts)
  then show ?case by (auto simp: list_all2_conv_all_nth)
qed auto

lemma col_cells_empty: "sized_type t \<Longrightarrow> col_cells t (empty_col t) = []"
  using length_col_cells [OF wf_empty_col] by simp

section \<open>Writing refines the encoder\<close>

text \<open>
  The Map types in a type, and those of the columns that are cloned for one cell: below an Array or
  a Map. \<open>one_cloned_map\<close> are the column types of a block with at most one Map type there: every
  block without a Map in an Array or a Map is one.
\<close>

primrec maps_in :: "ch_type \<Rightarrow> (ch_type \<times> ch_type) list" where
  "maps_in (Leaf lc) = []"
| "maps_in (Nullable t) = maps_in t"
| "maps_in (ArrayT t) = maps_in t"
| "maps_in (TupleT ts) = concat (map maps_in ts)"
| "maps_in (MapT kt vt) = (kt, vt) # maps_in kt @ maps_in vt"

primrec cloned_maps :: "ch_type \<Rightarrow> (ch_type \<times> ch_type) list" where
  "cloned_maps (Leaf lc) = []"
| "cloned_maps (Nullable t) = cloned_maps t"
| "cloned_maps (ArrayT t) = maps_in t"
| "cloned_maps (TupleT ts) = concat (map cloned_maps ts)"
| "cloned_maps (MapT kt vt) = maps_in kt @ maps_in vt"

definition one_map :: "(ch_type \<times> ch_type) list \<Rightarrow> bool" where
  "one_map ms \<longleftrightarrow> list_all (\<lambda>m. m = hd ms) ms"

definition one_cloned_map :: "ch_type list \<Rightarrow> bool" where
  "one_cloned_map ts \<longleftrightarrow> one_map (concat (map cloned_maps ts))"

text \<open>The Map columns reached from the column \<open>ref\<close> of type \<open>t\<close> whose life may end before the
  insert are of the types \<open>ms\<close>.\<close>

definition clones_within :: "(ch_type \<times> ch_type) list \<Rightarrow> col_ref \<Rightarrow> ch_type \<Rightarrow> bool" where
  "clones_within ms ref t \<longleftrightarrow> set (if in_place ref then cloned_maps t else maps_in t) \<subseteq> set ms"

lemma cloned_maps_subset: "set (cloned_maps t) \<subseteq> set (maps_in t)"
  by (induction t) auto

lemma clones_within_parts:
  "clones_within ms ref (Nullable t) \<Longrightarrow> clones_within ms (NestedCol ref) t"
  "clones_within ms ref (ArrayT t) \<Longrightarrow> clones_within ms (ElementsCol ref row) t"
  "clones_within ms ref (TupleT ts) \<Longrightarrow> t \<in> set ts \<Longrightarrow> clones_within ms (MemberCol ref i) t"
  "clones_within ms ref (MapT kt vt) \<Longrightarrow> clones_within ms (KeysCol ref row) kt"
  "clones_within ms ref (MapT kt vt) \<Longrightarrow> clones_within ms (ValuesCol ref row) vt"
  by (auto simp: clones_within_def split: if_splits)

text \<open>
  What the code relies on: \<open>CreateColumnByType\<close> builds a column of the type it was given the name
  of; and two objects that exist at the same time have different addresses, so that the \<open>Type\<close>
  object of a column that lives as long as the insert is no other column's \<open>Type\<close> object unless
  that column has the same type. Nothing is said of two clones: the second may be made
  after the first one is gone.
\<close>

definition ch_lib_ok :: "('a) ch_env_scheme \<Rightarrow> bool" where
  "ch_lib_ok E \<longleftrightarrow>
     (\<forall>ref ref' t u. in_place ref \<longrightarrow> insert_of ref = insert_of ref' \<longrightarrow>
        lib_type_ptr E ref t = lib_type_ptr E ref' u \<longrightarrow> t = u) \<and>
     (\<forall>t u. lib_create E (lib_type_name E t) = Some u \<longrightarrow> u = t)"

text \<open>The cache of insert \<open>k\<close>: an entry was made for some column of the insert, with the templates
  of its type, and if that column is a clone its Map type is one of \<open>ms\<close>.\<close>

definition tmpl_ok ::
    "('a) ch_env_scheme \<Rightarrow> nat \<Rightarrow> (ch_type \<times> ch_type) list \<Rightarrow> ch_map_templates \<Rightarrow> bool" where
  "tmpl_ok E k ms tm \<longleftrightarrow>
     (\<forall>p kt vt. tm p = Some (kt, vt) \<longrightarrow> creatable E kt \<and> creatable E vt \<and>
        (\<exists>ref. insert_of ref = k \<and> p = lib_type_ptr E ref (MapT kt vt)
           \<and> (in_place ref \<or> (kt, vt) \<in> set ms)))"

lemma ch_lib_okD:
  assumes "ch_lib_ok E"
  shows "in_place ref \<Longrightarrow> insert_of ref = insert_of ref' \<Longrightarrow>
      lib_type_ptr E ref t = lib_type_ptr E ref' u \<Longrightarrow> t = u"
    and "creatable E t \<Longrightarrow> lib_create E (lib_type_name E t) = Some t"
  using assms unfolding ch_lib_ok_def creatable_def by blast+

lemma tmpl_ok_empty [simp]: "tmpl_ok E k ms Map.empty"
  by (simp add: tmpl_ok_def)

text \<open>A hit is of the type that was looked for.\<close>

lemma template_fresh:
  assumes "ch_lib_ok E" and "tmpl_ok E (insert_of ref) ms tm" and "one_map ms"
    and "clones_within ms ref (MapT kt vt)" and "tm (lib_type_ptr E ref (MapT kt vt)) = Some kv"
  shows "kv = (kt, vt) \<and> creatable E kt \<and> creatable E vt"
proof -
  obtain kt' vt' where kv: "kv = (kt', vt')" by (cases kv)
  from assms(2,5) obtain ref' where c: "creatable E kt'" "creatable E vt'"
    and ref': "insert_of ref' = insert_of ref" "in_place ref' \<or> (kt', vt') \<in> set ms"
    and p: "lib_type_ptr E ref (MapT kt vt) = lib_type_ptr E ref' (MapT kt' vt')"
    unfolding tmpl_ok_def kv by metis
  have "kt' = kt \<and> vt' = vt"
  proof (cases "in_place ref \<or> in_place ref'")
    case True
    with ch_lib_okD(1) [OF assms(1), of ref ref' "MapT kt vt" "MapT kt' vt'"]
      ch_lib_okD(1) [OF assms(1), of ref' ref "MapT kt' vt'" "MapT kt vt"] ref'(1) p
    show ?thesis by auto
  next
    case False
    with ref'(2) assms(4) have "(kt', vt') \<in> set ms" "(kt, vt) \<in> set ms"
      by (auto simp: clones_within_def)
    with assms(3) have "(kt', vt') = (kt, vt)"
      unfolding one_map_def list_all_iff by metis
    then show ?thesis by simp
  qed
  with c kv show ?thesis by simp
qed

lemma map_templates_ok:
  assumes "ch_lib_ok E" and "tmpl_ok E (insert_of ref) ms tm" and "one_map ms"
    and "clones_within ms ref (MapT kt vt)"
  shows "if creatable E kt \<and> creatable E vt
    then \<exists>tm'. map_templates E kt vt ref tm = Inr tm' \<and> tmpl_ok E (insert_of ref) ms tm'
    else map_templates E kt vt ref tm
      = Inl (validation_error ''clickhouse: unsupported Map key/value type'')"
proof (cases "tm (lib_type_ptr E ref (MapT kt vt))")
  case None
  show ?thesis
  proof (cases "creatable E kt \<and> creatable E vt")
    case True
    with ch_lib_okD(2) [OF assms(1)] None
    have "map_templates E kt vt ref tm = Inr (tm(lib_type_ptr E ref (MapT kt vt) \<mapsto> (kt, vt)))"
      by (simp add: map_templates_def Let_def)
    moreover have "in_place ref \<or> (kt, vt) \<in> set ms"
      using assms(4) by (auto simp: clones_within_def split: if_splits)
    with assms(2) True have "tmpl_ok E (insert_of ref) ms (tm(lib_type_ptr E ref (MapT kt vt) \<mapsto> (kt, vt)))"
      by (auto simp: tmpl_ok_def)
    ultimately show ?thesis using True by simp
  next
    case False
    with None show ?thesis
      by (auto simp: map_templates_def creatable_def split: option.splits)
  qed
next
  case (Some kv)
  from template_fresh [OF assms this] Some assms(2) show ?thesis
    by (simp add: map_templates_def)
qed

definition refines ::
    "('a) ch_env_scheme \<Rightarrow> nat \<Rightarrow> (ch_type \<times> ch_type) list \<Rightarrow> ch_type \<Rightarrow> appender \<Rightarrow> (zval \<Rightarrow> cxx_exn + cell) \<Rightarrow> bool" where
  "refines E k ms t f g \<longleftrightarrow>
     (\<forall>v c tm n. wf_col t n c \<longrightarrow> tmpl_ok E k ms tm \<longrightarrow>
        (case f v (c, tm) of
           Inl e \<Rightarrow> g v = Inl e
         | Inr (c', tm') \<Rightarrow>
             wf_col t (Suc n) c' \<and> tmpl_ok E k ms tm' \<and>
             (\<exists>x. g v = Inr x \<and> col_cells t c' = col_cells t c @ [x])))"

lemma refinesI:
  assumes "\<And>v c tm n. wf_col t n c \<Longrightarrow> tmpl_ok E k ms tm \<Longrightarrow>
    (\<exists>e. f v (c, tm) = Inl e \<and> g v = Inl e) \<or>
    (\<exists>c' tm' x. f v (c, tm) = Inr (c', tm') \<and> g v = Inr x \<and> wf_col t (Suc n) c'
       \<and> tmpl_ok E k ms tm' \<and> col_cells t c' = col_cells t c @ [x])"
  shows "refines E k ms t f g"
  unfolding refines_def
proof (intro allI impI)
  fix v c tm n assume "wf_col t n c" "tmpl_ok E k ms tm"
  from assms [OF this, of v]
  show "case f v (c, tm) of Inl e \<Rightarrow> g v = Inl e
    | Inr (c', tm') \<Rightarrow> wf_col t (Suc n) c' \<and> tmpl_ok E k ms tm' \<and>
        (\<exists>x. g v = Inr x \<and> col_cells t c' = col_cells t c @ [x])"
    by auto
qed

lemma refinesE:
  assumes "refines E k ms t f g" and "wf_col t n c" and "tmpl_ok E k ms tm"
  obtains (error) e where "f v (c, tm) = Inl e" "g v = Inl e"
  | (normal) c' tm' x where "f v (c, tm) = Inr (c', tm')" "g v = Inr x" "wf_col t (Suc n) c'"
      "tmpl_ok E k ms tm'" "col_cells t c' = col_cells t c @ [x]"
  using assms unfolding refines_def
  by (cases "f v (c, tm)") (fastforce split: sum.splits prod.splits)+

text \<open>The element loop of an Array.\<close>

lemma refines_fold:
  assumes r: "refines E k ms t f g" and "wf_col t n c" and "tmpl_ok E k ms tm"
  shows "(\<exists>e. fold_res f vs (c, tm) = Inl e \<and> map_res g vs = Inl e) \<or>
    (\<exists>c' tm' xs. fold_res f vs (c, tm) = Inr (c', tm') \<and> map_res g vs = Inr xs
       \<and> wf_col t (n + length vs) c' \<and> tmpl_ok E k ms tm' \<and> col_cells t c' = col_cells t c @ xs)"
  using assms(2,3)
proof (induction vs arbitrary: n c tm)
  case (Cons v vs)
  from r Cons.prems show ?case
  proof (cases rule: refinesE [where v = v])
    case (normal c' tm' x)
    from Cons.IH [OF normal(3,4)] show ?thesis
      by (auto simp: normal)
  qed simp
qed simp

text \<open>The positional loop of a Tuple or of a row.\<close>

lemma refines_members:
  assumes "list_all2 (\<lambda>t (f, g). refines E k ms t f g) ts fgs"
    and "list_all2 (\<lambda>t c. wf_col t n c) ts cs" and "tmpl_ok E k ms tm"
  shows "(\<exists>e. append_members many few (map fst fgs) vs cs tm = Inl e \<and> enc_members many few (map snd fgs) vs = Inl e) \<or>
    (\<exists>cs' tm' xs. append_members many few (map fst fgs) vs cs tm = Inr (cs', tm')
       \<and> enc_members many few (map snd fgs) vs = Inr xs
       \<and> list_all2 (\<lambda>t c. wf_col t (Suc n) c) ts cs' \<and> tmpl_ok E k ms tm' \<and> length xs = length ts
       \<and> map2 col_cells ts cs' = map2 (\<lambda>l x. l @ [x]) (map2 col_cells ts cs) xs)"
  using assms
proof (induction ts arbitrary: fgs cs vs tm)
  case Nil
  then show ?case by (cases vs) auto
next
  case (Cons t ts)
  from Cons.prems obtain f g fgs' c cs' where
    eqs: "fgs = (f, g) # fgs'" "cs = c # cs'" and r: "refines E k ms t f g" and w: "wf_col t n c"
    and rs: "list_all2 (\<lambda>t (f, g). refines E k ms t f g) ts fgs'"
      "list_all2 (\<lambda>t c. wf_col t n c) ts cs'"
    by (auto simp: list_all2_Cons1)
  show ?case
  proof (cases vs)
    case (Cons v vs')
    from r w \<open>tmpl_ok E k ms tm\<close> show ?thesis
    proof (cases rule: refinesE [where v = v])
      case (normal d tm' x)
      from Cons.IH [OF rs normal(4), of vs'] show ?thesis
        by (auto simp: eqs Cons normal)
    qed (auto simp: eqs Cons)
  qed (auto simp: eqs)
qed

text \<open>The entry loop of a Map.\<close>

lemma refines_entries:
  assumes rk: "refines E k ms kt fk gk" and rv: "refines E k ms vt fv gv"
    and "wf_col kt n ks" and "wf_col vt n vs" and "tmpl_ok E k ms tm"
  shows "(\<exists>e. fold_res (append_entry fk fv) kvs ((ks, vs), tm) = Inl e
       \<and> map_res (enc_entry gk gv) kvs = Inl e) \<or>
    (\<exists>ks' vs' tm' xs. fold_res (append_entry fk fv) kvs ((ks, vs), tm) = Inr ((ks', vs'), tm')
       \<and> map_res (enc_entry gk gv) kvs = Inr xs
       \<and> wf_col kt (n + length kvs) ks' \<and> wf_col vt (n + length kvs) vs' \<and> tmpl_ok E k ms tm'
       \<and> col_cells kt ks' = col_cells kt ks @ map fst xs
       \<and> col_cells vt vs' = col_cells vt vs @ map snd xs)"
  using assms(3-5)
proof (induction kvs arbitrary: n ks vs tm)
  case (Cons ke kvs)
  obtain k e where ke: "ke = (k, e)" by (cases ke)
  from rk Cons.prems(1,3) show ?case
  proof (cases rule: refinesE [where v = "key_zval k"])
    case (normal ks1 tm1 x)
    note k = this
    from rv Cons.prems(2) k(4) show ?thesis
    proof (cases rule: refinesE [where v = e])
      case (normal vs1 tm2 y)
      from Cons.IH [OF k(3) normal(3,4)] show ?thesis
        by (auto simp: ke k normal enc_entry_def)
    qed (simp add: ke k enc_entry_def)
  qed (simp add: ke enc_entry_def)
qed simp

text \<open>Rows of a Tuple: adding a cell to every member adds the tuple of the new cells.\<close>

lemma tuple_rows_snoc:
  assumes "list_all (\<lambda>l. length l = n) ls" and "length xs = length ls"
  shows "map (\<lambda>i. CTuple (map (\<lambda>l. l ! i) (map2 (\<lambda>l x. l @ [x]) ls xs))) [0..<Suc n]
    = map (\<lambda>i. CTuple (map (\<lambda>l. l ! i) ls)) [0..<n] @ [CTuple xs]"
proof -
  have "map (\<lambda>l. l ! i) (map2 (\<lambda>l x. l @ [x]) ls xs) = (if i < n then map (\<lambda>l. l ! i) ls else xs)"
    if "i \<le> n" for i
    using that assms by (auto intro!: nth_equalityI simp: list_all_length nth_append)
  then show ?thesis by simp
qed

lemma map2_nth_map: "map2 (\<lambda>f d. f d ! i) fs ds = map (\<lambda>l. l ! i) (map2 (\<lambda>f d. f d) fs ds)"
  by (simp add: comp_def case_prod_beta)

lemma map2_map_left: "map2 h (map f xs) ys = map2 (\<lambda>x y. h (f x) y) xs ys"
  by (simp add: zip_map1 comp_def case_prod_beta)

lemma append_value_refines:
  assumes lib: "ch_lib_ok E" and one: "one_map ms" and "sized_type t"
    and "insert_of ref = k" and "clones_within ms ref t"
  shows "refines E k ms t (append_value E t ref) (enc E t)"
  using assms(3-5)
proof (induction t arbitrary: ref)
  case (Leaf lc)
  show ?case
  proof (rule refinesI)
    fix v c tm n assume "wf_col (Leaf lc) n c" "tmpl_ok E k ms tm"
    then show "(\<exists>e. append_value E (Leaf lc) ref v (c, tm) = Inl e \<and> enc E (Leaf lc) v = Inl e) \<or>
      (\<exists>c' tm' x. append_value E (Leaf lc) ref v (c, tm) = Inr (c', tm') \<and> enc E (Leaf lc) v = Inr x
         \<and> wf_col (Leaf lc) (Suc n) c' \<and> tmpl_ok E k ms tm'
         \<and> col_cells (Leaf lc) c' = col_cells (Leaf lc) c @ [x])"
      by (cases "append_leaf E lc v") (auto split: col.splits)
  qed
next
  case (Nullable t)
  then have r: "refines E k ms t (append_value E t (NestedCol ref)) (enc E t)" and "sized_type t"
    by (auto dest: clones_within_parts)
  show ?case
  proof (rule refinesI)
    fix v c tm n assume w: "wf_col (Nullable t) n c" and tm: "tmpl_ok E k ms tm"
    from w obtain fs d where c: "c = NullableCol fs d" and d: "length fs = n" "wf_col t n d"
      by (auto split: col.splits)
    have len: "length (col_cells t d) = n"
      using d(2) \<open>sized_type t\<close> by (rule length_col_cells)
    from r d(2) tm
    show "(\<exists>e. append_value E (Nullable t) ref v (c, tm) = Inl e \<and> enc E (Nullable t) v = Inl e) \<or>
      (\<exists>c' tm' x. append_value E (Nullable t) ref v (c, tm) = Inr (c', tm')
         \<and> enc E (Nullable t) v = Inr x \<and> wf_col (Nullable t) (Suc n) c' \<and> tmpl_ok E k ms tm'
         \<and> col_cells (Nullable t) c' = col_cells (Nullable t) c @ [x])"
      by (cases rule: refinesE [where v = "if v = ZNull then ZLong 0 else v"])
        (auto simp: c d len split: if_splits)
  qed
next
  case (ArrayT t)
  then have r: "refines E k ms t (append_value E t (ElementsCol ref row)) (enc E t)" for row
    using clones_within_parts(2) by auto
  from ArrayT.prems have s: "sized_type t" by simp
  show ?case
  proof (rule refinesI)
    fix v c tm n assume w: "wf_col (ArrayT t) n c" and tm: "tmpl_ok E k ms tm"
    from w obtain es where c: "c = ArrayCol es" "length es = n"
      "list_all (\<lambda>e. wf_col t (col_rows e) e) es"
      by (auto split: col.splits)
    show "(\<exists>e. append_value E (ArrayT t) ref v (c, tm) = Inl e \<and> enc E (ArrayT t) v = Inl e) \<or>
      (\<exists>c' tm' x. append_value E (ArrayT t) ref v (c, tm) = Inr (c', tm') \<and> enc E (ArrayT t) v = Inr x
         \<and> wf_col (ArrayT t) (Suc n) c' \<and> tmpl_ok E k ms tm'
         \<and> col_cells (ArrayT t) c' = col_cells (ArrayT t) c @ [x])"
    proof (cases v)
      case (ZArray kvs)
      from refines_fold [OF r [of "length es"] wf_empty_col tm, of "hash_values kvs"] show ?thesis
        using c s wf_col_rows [OF _ s] by (fastforce simp: ZArray col_cells_empty)
    qed simp_all
  qed
next
  case (TupleT ts)
  then have s: "\<forall>t \<in> set ts. sized_type t" "ts \<noteq> []"
    by (auto simp: list_all_iff)
  let ?fs = "map2 (\<lambda>f i. f (MemberCol ref i)) (map (append_value E) ts) [0..<length ts]"
  have "refines E k ms (ts ! i) (append_value E (ts ! i) (MemberCol ref i)) (enc E (ts ! i))"
    if "i < length ts" for i
    using TupleT.prems s that by (intro TupleT.IH clones_within_parts(3)) auto
  then have rs: "list_all2 (\<lambda>t (f, g). refines E k ms t f g) ts (zip ?fs (map (enc E) ts))"
    by (simp add: list_all2_conv_all_nth)
  show ?case
  proof (rule refinesI)
    fix v c tm n assume w: "wf_col (TupleT ts) n c" and tm: "tmpl_ok E k ms tm"
    then obtain cs where c: "c = TupleCol cs" and cs: "list_all2 (\<lambda>t c. wf_col t n c) ts cs"
      by (auto split: col.splits simp: list_all2_map1)
    have rows: "col_rows (TupleCol ds) = m" if "list_all2 (\<lambda>t c. wf_col t m c) ts ds" for ds m
      using that TupleT.prems wf_col_rows [of "TupleT ts" m "TupleCol ds"] by (simp add: list_all2_map1)
    define ls where "ls = map2 col_cells ts cs"
    have ls: "list_all (\<lambda>l. length l = n) ls" "length ls = length ts"
      using cs s by (auto simp: ls_def list_all_length list_all2_conv_all_nth length_col_cells)
    show "(\<exists>e. append_value E (TupleT ts) ref v (c, tm) = Inl e \<and> enc E (TupleT ts) v = Inl e) \<or>
      (\<exists>c' tm' x. append_value E (TupleT ts) ref v (c, tm) = Inr (c', tm') \<and> enc E (TupleT ts) v = Inr x
         \<and> wf_col (TupleT ts) (Suc n) c' \<and> tmpl_ok E k ms tm'
         \<and> col_cells (TupleT ts) c' = col_cells (TupleT ts) c @ [x])"
    proof (cases v)
      case (ZArray kvs)
      from refines_members [OF rs cs tm, of tuple_too_many tuple_too_few "hash_values kvs"]
      consider (error) e where "append_members tuple_too_many tuple_too_few ?fs (hash_values kvs) cs tm = Inl e"
          "enc_members tuple_too_many tuple_too_few (map (enc E) ts) (hash_values kvs) = Inl e"
        | (normal) cs' tm' xs where
          "append_members tuple_too_many tuple_too_few ?fs (hash_values kvs) cs tm = Inr (cs', tm')"
          "enc_members tuple_too_many tuple_too_few (map (enc E) ts) (hash_values kvs) = Inr xs"
          "list_all2 (\<lambda>t c. wf_col t (Suc n) c) ts cs'" "tmpl_ok E k ms tm'" "length xs = length ts"
          "map2 col_cells ts cs' = map2 (\<lambda>l x. l @ [x]) ls xs"
        by (auto simp: comp_def ls_def)
      then show ?thesis
      proof cases
        case normal
        have "col_cells (TupleT ts) (TupleCol cs') = col_cells (TupleT ts) (TupleCol cs) @ [CTuple xs]"
          using tuple_rows_snoc [OF ls(1), of xs] normal(5,6) ls(2) rows [OF normal(3)] rows [OF cs]
          by (simp add: map2_nth_map map2_map_left ls_def [symmetric] del: upt_Suc)
        with normal show ?thesis
          by (simp add: ZArray c list_all2_map1 del: col_cells.simps)
      qed (simp add: ZArray c)
    qed simp_all
  qed
next
  case (MapT kt vt)
  then have rk: "refines E k ms kt (append_value E kt (KeysCol ref row)) (enc E kt)"
    and rv: "refines E k ms vt (append_value E vt (ValuesCol ref row)) (enc E vt)" for row
    using clones_within_parts(4,5) by auto
  from MapT.prems have s: "sized_type kt" "sized_type vt" and k: "insert_of ref = k" by simp_all
  show ?case
  proof (rule refinesI)
    fix v c tm n assume w: "wf_col (MapT kt vt) n c" and tm: "tmpl_ok E k ms tm"
    from w obtain rs where c: "c = MapCol rs" "length rs = n"
      "list_all (\<lambda>(k, v). wf_col kt (col_rows k) k \<and> wf_col vt (col_rows k) v) rs"
      by (auto split: col.splits)
    show "(\<exists>e. append_value E (MapT kt vt) ref v (c, tm) = Inl e \<and> enc E (MapT kt vt) v = Inl e) \<or>
      (\<exists>c' tm' x. append_value E (MapT kt vt) ref v (c, tm) = Inr (c', tm')
         \<and> enc E (MapT kt vt) v = Inr x \<and> wf_col (MapT kt vt) (Suc n) c' \<and> tmpl_ok E k ms tm'
         \<and> col_cells (MapT kt vt) c' = col_cells (MapT kt vt) c @ [x])"
    proof (cases v)
      case (ZArray kvs)
      show ?thesis
      proof (cases "creatable E kt \<and> creatable E vt")
        case True
        with map_templates_ok [OF lib tm [folded k] one MapT.prems(3)] obtain tm1
          where tm1: "map_templates E kt vt ref tm = Inr tm1" "tmpl_ok E k ms tm1" by (auto simp: k)
        from refines_entries [OF rk [of "length rs"] rv [of "length rs"] wf_empty_col wf_empty_col tm1(2), of kvs] show ?thesis
          using c s True wf_col_rows [OF _ s(1)]
          by (fastforce simp: ZArray tm1 col_cells_empty zip_map_fst_snd)
      next
        case False
        with map_templates_ok [OF lib tm [folded k] one MapT.prems(3)] show ?thesis
          by (auto simp: ZArray c)
      qed
    qed simp_all
  qed
qed

section \<open>Reading refines the decoder\<close>

lemma map2_nth_lists:
  assumes "list_all2 (\<lambda>t c. length (f t c) = n) ts cs" and "i < n"
  shows "map2 (\<lambda>g d. g d ! i) (map f ts) cs = map2 (\<lambda>t d. f t d ! i) ts cs"
  by (simp add: zip_map1 comp_def case_prod_beta)

lemma column_value_refines:
  "wf_col t n c \<Longrightarrow> sized_type t \<Longrightarrow> i < n \<Longrightarrow>
    column_value_to_zval P t c i = dec P t (col_cells t c ! i)"
proof (induction t arbitrary: n c i)
  case (Leaf lc)
  then show ?case by (auto split: col.splits)
next
  case (Nullable t)
  then obtain fs d where c: "c = NullableCol fs d" and d: "length fs = n" "wf_col t n d"
    and s: "sized_type t" and i: "i < n"
    by (auto split: col.splits)
  from Nullable.IH [OF d(2) s i] length_col_cells [OF d(2) s] show ?case
    by (simp add: c d i)
next
  case (ArrayT t)
  then obtain es where c: "c = ArrayCol es" "length es = n" and s: "sized_type t" and i: "i < n"
    and w: "list_all (\<lambda>e. wf_col t (col_rows e) e) es"
    by (auto split: col.splits)
  from w i c(2) have e: "wf_col t (col_rows (es ! i)) (es ! i)"
    by (simp add: list_all_length)
  have "map_res (column_value_to_zval P t (es ! i)) [0..<col_rows (es ! i)]
      = map_res (\<lambda>k. dec P t (col_cells t (es ! i) ! k)) [0..<col_rows (es ! i)]"
    using ArrayT.IH [OF e s] by (intro map_res_cong) auto
  also have "\<dots> = map_res (dec P t) (map (\<lambda>k. col_cells t (es ! i) ! k) [0..<col_rows (es ! i)])"
    by (simp add: map_res_map)
  also have "map (\<lambda>k. col_cells t (es ! i) ! k) [0..<col_rows (es ! i)] = col_cells t (es ! i)"
    using length_col_cells [OF e s] by (metis map_nth)
  finally show ?case
    by (simp add: c i)
next
  case (TupleT ts)
  then have s: "\<forall>t \<in> set ts. sized_type t" "ts \<noteq> []" and i: "i < n"
    by (auto simp: list_all_iff)
  from TupleT.prems(1) obtain cs where c: "c = TupleCol cs"
    and cs: "list_all2 (\<lambda>t c. wf_col t n c) ts cs"
    by (auto split: col.splits simp: list_all2_map1)
  have rows: "col_rows (TupleCol cs) = n"
    using wf_col_rows TupleT.prems(1,2) c by blast
  have "map_res (\<lambda>(r, member). r member i) (zip (map (column_value_to_zval P) ts) cs)
      = map_res (\<lambda>(t, d). column_value_to_zval P t d i) (zip ts cs)"
    by (simp add: zip_map1 map_res_map case_prod_beta')
  also have "\<dots> = map_res (\<lambda>(t, d). dec P t (col_cells t d ! i)) (zip ts cs)"
  proof (rule map_res_cong [OF refl])
    fix td assume "td \<in> set (zip ts cs)"
    moreover obtain t d where "td = (t, d)" by (cases td)
    ultimately have td: "td = (t, d)" "t \<in> set ts" "wf_col t n d"
      using cs by (auto simp: list_all2_iff dest: set_zip_leftD)
    with TupleT.IH [OF td(2,3)] s i
    show "(case td of (t, d) \<Rightarrow> column_value_to_zval P t d i)
        = (case td of (t, d) \<Rightarrow> dec P t (col_cells t d ! i))" by simp
  qed
  also have "\<dots> = map_res (\<lambda>(f, y). f y)
      (zip (map (dec P) ts) (map2 (\<lambda>f d. f d ! i) (map col_cells ts) cs))"
  proof -
    have "length cs = length ts" using cs by (simp add: list_all2_lengthD)
    then have "zip (map (dec P) ts) (map2 (\<lambda>f d. f d ! i) (map col_cells ts) cs)
        = map (\<lambda>(t, d). (dec P t, col_cells t d ! i)) (zip ts cs)"
      by (auto intro!: nth_equalityI)
    then show ?thesis by (simp add: map_res_map case_prod_beta')
  qed
  finally show ?case
    using i by (simp add: c rows [simplified])
next
  case (MapT kt vt)
  then obtain ms where c: "c = MapCol ms" "length ms = n"
    and s: "sized_type kt" "sized_type vt" and i: "i < n"
    and w: "list_all (\<lambda>(k, v). wf_col kt (col_rows k) k \<and> wf_col vt (col_rows k) v) ms"
    by (auto split: col.splits)
  obtain ks vs where kv: "ms ! i = (ks, vs)" by (cases "ms ! i")
  define m where "m = col_rows ks"
  from w i c(2) kv have ks: "wf_col kt m ks" and vs: "wf_col vt m vs"
    by (auto simp: list_all_length m_def split_beta dest: spec [of _ i])
  define xs where "xs = zip (col_cells kt ks) (col_cells vt vs)"
  have len: "length (col_cells kt ks) = m" "length (col_cells vt vs) = m"
    using length_col_cells ks vs s by auto
  let ?step = "\<lambda>(k, v) out. rbind (dec P kt k) (\<lambda>key. rbind (dec P vt v) (\<lambda>value.
      Inr (add_map_entry P key value out)))"
  have "fold_res (\<lambda>j out. rbind (column_value_to_zval P kt ks j) (\<lambda>key.
          rbind (column_value_to_zval P vt vs j) (\<lambda>value. Inr (add_map_entry P key value out))))
        [0..<m] [] = fold_res (\<lambda>j. ?step (xs ! j)) [0..<m] []"
    using MapT.IH(1) [OF ks s(1)] MapT.IH(2) [OF vs s(2)] len
    by (intro fold_res_cong) (auto simp: xs_def)
  also have "\<dots> = fold_res ?step (map ((!) xs) [0..<m]) []"
    by (simp add: fold_res_map)
  also have "map ((!) xs) [0..<m] = xs"
    using len map_nth [of xs] by (simp add: xs_def)
  finally show ?case
    using i by (simp add: c kv read_map_entries_def m_def [symmetric] xs_def)
qed

section \<open>The encoder reports ordinary errors only\<close>

lemma map_res_Inl: "map_res f xs = Inl e \<Longrightarrow> \<exists>x \<in> set xs. f x = Inl e"
  by (induction xs) (auto simp: rbind_Inl_iff)

lemma enc_members_Inl:
  "enc_members many few fs vs = Inl e \<Longrightarrow>
    e = many \<or> e = few \<or> (\<exists>f \<in> set fs. \<exists>v. f v = Inl e)"
  by (induction many few fs vs rule: enc_members.induct) (auto simp: rbind_Inl_iff)

lemma enc_defined:
  assumes lib: "\<And>lc a e. lib_append E lc a = Inl e \<Longrightarrow> exn_class e \<noteq> CxxUndefined"
  shows "enc E t v = Inl e \<Longrightarrow> exn_class e \<noteq> CxxUndefined"
proof (induction t arbitrary: v)
  case (Leaf lc)
  then show ?case
    using lib by (auto simp: append_leaf_def unsupported_type_def rbind_Inl_iff split: option.splits)
next
  case (Nullable t)
  then show ?case by (auto simp: rbind_Inl_iff split: if_splits)
next
  case (ArrayT t)
  then show ?case
    by (auto simp: rbind_Inl_iff array_expected_def split: zval.splits dest!: map_res_Inl)
next
  case (TupleT ts)
  then show ?case
    by (auto simp: rbind_Inl_iff expected_defs split: zval.splits dest!: enc_members_Inl)
next
  case (MapT kt vt)
  then show ?case
    by (auto simp: rbind_Inl_iff map_expected_def enc_entry_def split: zval.splits if_splits
        dest!: map_res_Inl)
qed

end
