(* ===== verification/Ch_Roundtrip.thy ===== *)
theory Ch_Roundtrip
  imports Ch_Codec
begin

text \<open>
  Inserting and selecting: which PHP values come back unchanged (\<open>storable\<close>), and that they
  do. The library's part is the hypothesis \<open>lib_stores\<close>: a cell of a plain leaf type is what was
  appended.
\<close>

section \<open>What the library stores\<close>

text \<open>The times that the date columns of ClickHouse hold: a DateTime any second of 32 bits, a Date
  the beginning of a day of 16 bits, a Date32 the beginning of a day of the years 1900 to 2299.\<close>

fun date_holds :: "leaf_code \<Rightarrow> int \<Rightarrow> bool" where
  "date_holds TDateTime t = (0 \<le> t \<and> t < 2 ^ 32)"
| "date_holds TDate t = (0 \<le> t \<and> t < 2 ^ 16 * 86400 \<and> 86400 dvd t)"
| "date_holds TDate32 t = (- 25567 * 86400 \<le> t \<and> t \<le> 120529 * 86400 \<and> 86400 dvd t)"
| "date_holds _ t = False"

definition lib_stores :: "('a) ch_env_scheme \<Rightarrow> bool" where
  "lib_stores E \<longleftrightarrow>
     (\<forall>w. lib_append E TInt8 (AInt8 w) = Inr (VInt8 w)) \<and>
     (\<forall>w. lib_append E TInt16 (AInt16 w) = Inr (VInt16 w)) \<and>
     (\<forall>w. lib_append E TInt32 (AInt32 w) = Inr (VInt32 w)) \<and>
     (\<forall>w. lib_append E TInt64 (AInt64 w) = Inr (VInt64 w)) \<and>
     (\<forall>w. lib_append E TUInt8 (AUInt8 w) = Inr (VUInt8 w)) \<and>
     (\<forall>w. lib_append E TUInt16 (AUInt16 w) = Inr (VUInt16 w)) \<and>
     (\<forall>w. lib_append E TUInt32 (AUInt32 w) = Inr (VUInt32 w)) \<and>
     (\<forall>w. lib_append E TUInt64 (AUInt64 w) = Inr (VUInt64 w)) \<and>
     (\<forall>f. lib_append E TFloat32 (AFloat32 f) = Inr (VFloat32 f)) \<and>
     (\<forall>d. lib_append E TFloat64 (AFloat64 d) = Inr (VFloat64 d)) \<and>
     (\<forall>b. lib_append E TBool (ABool b) = Inr (VBool b)) \<and>
     (\<forall>s. lib_append E TString (AString s) = Inr (VString s)) \<and>
     (\<forall>u. lib_append E TUUID (AUuid u) = Inr (VUuid u)) \<and>
     (\<forall>p t. lib_append E (TDateTime64 p) (ATicks t) = Inr (VTicks t)) \<and>
     (\<forall>lc t. date_holds lc (sint t) \<longrightarrow> lib_append E lc (ATime t) = Inr (VTime t))"

lemma lib_storesD:
  assumes "lib_stores E"
  shows "lib_append E TInt8 (AInt8 w8) = Inr (VInt8 w8)"
    and "lib_append E TInt16 (AInt16 w16) = Inr (VInt16 w16)"
    and "lib_append E TInt32 (AInt32 w32) = Inr (VInt32 w32)"
    and "lib_append E TInt64 (AInt64 w) = Inr (VInt64 w)"
    and "lib_append E TUInt8 (AUInt8 w8) = Inr (VUInt8 w8)"
    and "lib_append E TUInt16 (AUInt16 w16) = Inr (VUInt16 w16)"
    and "lib_append E TUInt32 (AUInt32 w32) = Inr (VUInt32 w32)"
    and "lib_append E TUInt64 (AUInt64 w) = Inr (VUInt64 w)"
    and "lib_append E TFloat32 (AFloat32 f) = Inr (VFloat32 f)"
    and "lib_append E TFloat64 (AFloat64 d) = Inr (VFloat64 d)"
    and "lib_append E TBool (ABool b) = Inr (VBool b)"
    and "lib_append E TString (AString s) = Inr (VString s)"
    and "lib_append E TUUID (AUuid u) = Inr (VUuid u)"
    and "lib_append E (TDateTime64 p) (ATicks t) = Inr (VTicks t)"
    and "date_holds lc (sint t) \<Longrightarrow> lib_append E lc (ATime t) = Inr (VTime t)"
  using assms unfolding lib_stores_def by blast+

section \<open>Storable values\<close>

text \<open>The values of a leaf type that fit it: no cast truncates, no text is normalised.\<close>

definition fits :: "nat \<Rightarrow> int \<Rightarrow> bool" where
  "fits n i \<longleftrightarrow> - (2 ^ (n - 1)) \<le> i \<and> i < 2 ^ (n - 1)"

definition ufits :: "nat \<Rightarrow> int \<Rightarrow> bool" where
  "ufits n i \<longleftrightarrow> 0 \<le> i \<and> i < 2 ^ n"

fun storable_long :: "leaf_code \<Rightarrow> int \<Rightarrow> bool" where
  "storable_long TInt8 i = fits 8 i"
| "storable_long TInt16 i = fits 16 i"
| "storable_long TInt32 i = fits 32 i"
| "storable_long TInt64 i = True"
| "storable_long TUInt8 i = ufits 8 i"
| "storable_long TUInt16 i = ufits 16 i"
| "storable_long TUInt32 i = ufits 32 i"
| "storable_long TUInt64 i = (0 \<le> i)"
| "storable_long _ i = False"

fun storable_leaf :: "('a) php_api_scheme \<Rightarrow> leaf_code \<Rightarrow> zval \<Rightarrow> bool" where
  "storable_leaf P lc (ZLong n) = storable_long lc (sint n)"
| "storable_leaf P lc (ZDouble d) = (lc = TFloat64 \<or> lc = TFloat32 \<and> fp_widen P (fp_narrow P d) = d)"
| "storable_leaf P lc (ZBool b) = (lc = TBool)"
| "storable_leaf P lc (ZString s) =
     (lc = TString \<or> lc = TUUID \<and> s = ch_uuid_to_string (ch_parse_uuid s))"
| "storable_leaf P lc (ZDateTime sec us) =
     (case lc of TDateTime64 p \<Rightarrow> dt64_read p (dt64_ticks P p (ZDateTime sec us)) = ZDateTime sec us
      | _ \<Rightarrow> us = 0 \<and> date_holds lc (sint sec))"
| "storable_leaf P lc _ = False"

definition storable_key :: "('a) php_api_scheme \<Rightarrow> zkey \<Rightarrow> bool" where
  "storable_key P k = (case k of KLong n \<Rightarrow> True | KStr s \<Rightarrow> symtable_key P s = KStr s)"

primrec storable :: "('a) ch_env_scheme \<Rightarrow> ch_type \<Rightarrow> zval \<Rightarrow> bool" where
  "storable E (Leaf lc) v = storable_leaf E lc v"
| "storable E (Nullable t) v =
     (if v = ZNull then is_ok (enc E t (ZLong 0)) else storable E t v)"
| "storable E (ArrayT t) v =
     (case v of ZArray kvs \<Rightarrow> v = php_list (hash_values kvs) \<and> list_all (storable E t) (hash_values kvs)
      | _ \<Rightarrow> False)"
| "storable E (TupleT ts) v =
     (case v of
        ZArray kvs \<Rightarrow>
          v = php_list (hash_values kvs) \<and>
          list_all2 (\<lambda>s x. s x) (map (storable E) ts) (hash_values kvs)
      | _ \<Rightarrow> False)"
| "storable E (MapT kt vt) v =
     (case v of
        ZArray kvs \<Rightarrow>
          creatable E kt \<and> creatable E vt \<and> distinct (map fst kvs) \<and>
          list_all (\<lambda>(k, x). storable_key E k \<and> storable E kt (key_zval k) \<and> storable E vt x) kvs
      | _ \<Rightarrow> False)"

section \<open>Leaves\<close>

lemma sint_ucast_scast:
  fixes n :: s64
  shows "fits 8 (sint n) \<Longrightarrow> scast (ucast n :: u8) = n"
    and "fits 16 (sint n) \<Longrightarrow> scast (ucast n :: u16) = n"
    and "fits 32 (sint n) \<Longrightarrow> scast (ucast n :: u32) = n"
    and "ufits 8 (sint n) \<Longrightarrow> ucast (ucast n :: u8) = n"
    and "ufits 16 (sint n) \<Longrightarrow> ucast (ucast n :: u16) = n"
    and "ufits 32 (sint n) \<Longrightarrow> ucast (ucast n :: u32) = n"
proof -
  define i where "i = sint n"
  have n: "n = word_of_int i" by (simp add: i_def)
  show "fits 8 (sint n) \<Longrightarrow> scast (ucast n :: u8) = n"
    "fits 16 (sint n) \<Longrightarrow> scast (ucast n :: u16) = n"
    "fits 32 (sint n) \<Longrightarrow> scast (ucast n :: u32) = n"
    unfolding i_def [symmetric]
    by (simp_all add: n fits_def unsigned_of_int signed_of_int word_of_int_eq_iff
        signed_take_bit_int_eq_self take_bit_signed_take_bit signed_take_bit_take_bit)
  show "ufits 8 (sint n) \<Longrightarrow> ucast (ucast n :: u8) = n"
    "ufits 16 (sint n) \<Longrightarrow> ucast (ucast n :: u16) = n"
    "ufits 32 (sint n) \<Longrightarrow> ucast (ucast n :: u32) = n"
    unfolding i_def [symmetric]
    by (simp_all add: n ufits_def unsigned_of_int take_bit_int_eq_self)
qed

lemma uint64_to_zval_nonneg: "0 \<le> sint w \<Longrightarrow> uint64_to_zval w = ZLong w"
proof -
  assume "0 \<le> sint w"
  moreover have lt: "sint w < 2 ^ 63"
    using s64_range_sint [of w] by (simp add: s64_range_def)
  ultimately have "uint w = sint w"
    by (simp add: uint_sint take_bit_int_eq_self)
  moreover note lt
  ultimately show ?thesis
    by (simp add: uint64_to_zval_def word_less_def)
qed

lemma storable_leaf_roundtrip:
  assumes P: "php_api_ok E" and L: "lib_stores E" and "storable_leaf E lc v"
  shows "\<exists>x. append_leaf E lc v = Inr x \<and> read_leaf E lc x = Inr v"
proof -
  note defs = append_leaf_def php_api_okD [OF P] lib_storesD [OF L]
  show ?thesis
  proof (cases v)
    case (ZLong n)
    with assms(3) show ?thesis
      by (cases lc) (auto simp: defs sint_ucast_scast uint64_to_zval_nonneg)
  next
    case (ZDateTime sec us)
    with assms(3) show ?thesis
      by (cases lc) (auto simp: defs ch_zval_to_timestamp_def ch_make_datetime_immutable_def)
  qed (use assms(3) in \<open>auto simp: defs\<close>)
qed

section \<open>Composite types\<close>

lemma storable_entries_roundtrip:
  assumes "\<And>v. storable E kt v \<Longrightarrow> \<exists>x. enc E kt v = Inr x \<and> dec E kt x = Inr v"
    and "\<And>v. storable E vt v \<Longrightarrow> \<exists>x. enc E vt v = Inr x \<and> dec E vt x = Inr v"
    and "list_all (\<lambda>(k, x). storable_key E k \<and> storable E kt (key_zval k) \<and> storable E vt x) kvs"
  shows "\<exists>xs. map_res (enc_entry (enc E kt) (enc E vt)) kvs = Inr xs \<and>
    (\<forall>out. fold_res (\<lambda>(k, v) out. rbind (dec E kt k) (\<lambda>key. rbind (dec E vt v) (\<lambda>value.
        Inr (add_map_entry E key value out)))) xs out
      = Inr (foldl (\<lambda>h (k, v). zend_hash_update h k v) out kvs))"
  using assms(3)
proof (induction kvs)
  case (Cons kv kvs)
  obtain k e where kv: "kv = (k, e)" by (cases kv)
  with Cons.prems have k: "storable_key E k" and ks: "storable E kt (key_zval k)"
    and es: "storable E vt e" and rest:
      "list_all (\<lambda>(k, x). storable_key E k \<and> storable E kt (key_zval k) \<and> storable E vt x) kvs"
    by auto
  from assms(1) [OF ks] obtain x
    where x: "enc E kt (key_zval k) = Inr x" "dec E kt x = Inr (key_zval k)" by blast
  from assms(2) [OF es] obtain y where y: "enc E vt e = Inr y" "dec E vt y = Inr e" by blast
  have "add_map_entry E (key_zval k) e out = zend_hash_update out k e" for out
    using k by (cases k) (auto simp: add_map_entry_def storable_key_def)
  moreover from Cons.IH [OF rest] obtain xs
    where "map_res (enc_entry (enc E kt) (enc E vt)) kvs = Inr xs" and
      "\<forall>out. fold_res (\<lambda>(k, v) out. rbind (dec E kt k) (\<lambda>key. rbind (dec E vt v) (\<lambda>value.
          Inr (add_map_entry E key value out)))) xs out
        = Inr (foldl (\<lambda>h (k, v). zend_hash_update h k v) out kvs)" by blast
  moreover have "enc_entry (enc E kt) (enc E vt) (k, e) = Inr (x, y)"
    using x y by (simp add: enc_entry_def)
  ultimately show ?case
    using x y by (intro exI [of _ "(x, y) # xs"]) (simp add: kv)
qed simp

lemma list_roundtrip:
  assumes "\<And>v. v \<in> set vs \<Longrightarrow> \<exists>x. f v = Inr x \<and> g x = Inr v"
  shows "\<exists>xs. map_res f vs = Inr xs \<and> map_res g xs = Inr vs"
  using assms
proof (induction vs)
  case (Cons v vs)
  then obtain x xs where "f v = Inr x" "g x = Inr v" "map_res f vs = Inr xs" "map_res g xs = Inr vs"
    by (metis list.set_intros)
  then show ?case by auto
qed simp

lemma tuple_roundtrip:
  assumes "list_all2 (\<lambda>t v. \<exists>x. f t v = Inr x \<and> g t x = Inr v) ts vs"
  shows "\<exists>xs. enc_members many few (map f ts) vs = Inr xs \<and> length xs = length ts \<and>
    map_res (\<lambda>(h, y). h y) (zip (map g ts) xs) = Inr vs"
  using assms
proof (induction ts vs rule: list_all2_induct)
  case (Cons t ts v vs)
  then show ?case by fastforce
qed simp

lemma storable_roundtrip:
  assumes P: "php_api_ok E" and L: "lib_stores E"
  shows "storable E t v \<Longrightarrow> \<exists>x. enc E t v = Inr x \<and> dec E t x = Inr v"
proof (induction t arbitrary: v)
  case (Leaf lc)
  with storable_leaf_roundtrip [OF P L, of lc v] show ?case by auto
next
  case (Nullable t)
  show ?case
  proof (cases "v = ZNull")
    case True
    with Nullable.prems show ?thesis by (cases "enc E t (ZLong 0)") auto
  next
    case False
    with Nullable show ?thesis by fastforce
  qed
next
  case (ArrayT t)
  then obtain kvs where v: "v = ZArray kvs" "v = php_list (hash_values kvs)"
    and s: "list_all (storable E t) (hash_values kvs)"
    by (auto split: zval.splits)
  have "\<exists>xs. map_res (enc E t) (hash_values kvs) = Inr xs \<and> map_res (dec E t) xs = Inr (hash_values kvs)"
    using s ArrayT.IH by (intro list_roundtrip) (auto simp: list_all_iff)
  with v show ?case by auto
next
  case (TupleT ts)
  then obtain kvs where v: "v = ZArray kvs" "v = php_list (hash_values kvs)"
    and s: "list_all2 (\<lambda>t x. storable E t x) ts (hash_values kvs)"
    by (auto split: zval.splits simp: list_all2_map1)
  from s TupleT.IH
  have "list_all2 (\<lambda>t x. \<exists>y. enc E t x = Inr y \<and> dec E t y = Inr x) ts (hash_values kvs)"
    by (auto simp: list_all2_conv_all_nth)
  from tuple_roundtrip [OF this, of tuple_too_many tuple_too_few] v show ?case by auto
next
  case (MapT kt vt)
  then obtain kvs where v: "v = ZArray kvs" and c: "creatable E kt" "creatable E vt"
    and d: "distinct (map fst kvs)"
    and s: "list_all (\<lambda>(k, x). storable_key E k \<and> storable E kt (key_zval k) \<and> storable E vt x) kvs"
    by (auto split: zval.splits)
  from storable_entries_roundtrip [OF MapT.IH s]
    foldl_zend_hash_update_distinct [OF d, of "[]"] v c
  show ?case by auto
qed

end
