(* ===== verification/Ch_Engine.thy ===== *)
theory Ch_Engine
  imports Ch_Roundtrip
begin

text \<open>
  The world the stateful layers run in: the engine's pending exception, the heap of
  \<open>struct ch_client\<close> wrappers, and the calls into code that is not in this repository
  (the clickhouse-cpp client, the TrueAsync pool ABI, the clock and the random generator),
  which are the fields of the parameter record \<open>ch_api\<close>. Every such call is logged, so that
  a property can speak about the order of the calls.
\<close>

section \<open>Data\<close>

text \<open>A column with its name; a received \<open>clickhouse::Block\<close> has its row count
  (\<open>GetRowCount()\<close>) beside its columns.\<close>

type_synonym block_column = "string \<times> ch_type \<times> col"

record block =
  blk_cols :: "block_column list"
  blk_rows :: nat

text \<open>\<open>clickhouse::Query\<close>: its text, the parameters and settings in the order they were set.
  \<open>None\<close> is the NULL parameter (\<open>std::nullopt\<close>).\<close>

record query =
  q_text :: string
  q_params :: "(string \<times> string option) list"
  q_settings :: "(string \<times> string) list"

text \<open>What the library reports to the \<open>OnProgress\<close> and \<open>OnProfile\<close> callbacks while a call
  runs.\<close>

datatype packet =
    Progress (p_rows: u64) (p_bytes: u64) (p_written_rows: u64) (p_written_bytes: u64)
      (p_total_rows: u64)
  | Profile (calculated_rows_before_limit: bool) (rows_before_limit: u64)

type_synonym endpoint = "string \<times> u16"

datatype compression_method = LZ4 | ZSTD | NoCompression

text \<open>\<open>clickhouse::ClientOptions\<close>, the fields the code sets.\<close>

record client_options =
  opt_host :: string
  opt_port :: u16
  opt_database :: string
  opt_user :: string
  opt_password :: string
  opt_compression :: compression_method
  opt_endpoints :: "endpoint list"

text \<open>\<open>struct ch_client\<close>: the library client (a handle) and the flag.\<close>

record ch_client =
  cl_client :: nat
  cl_broken :: bool

section \<open>The log\<close>

text \<open>The calls the code makes, with their arguments and how they ended: a library client is
  named by its handle, a pooled connection by its \<open>struct ch_client\<close>.\<close>

datatype next_outcome = NextRows | NextEnd | NextFailed cxx_class

datatype call =
    CConnect client_options bool bool "nat option"
  | CDelete nat
  | CBeginInsert nat string bool
  | CSendInsertBlock nat "block_column list" bool
  | CEndInsert nat bool
  | CBeginExecute nat query "cxx_class option"
  | CNextBlock nat next_outcome
  | CNewPool nat nat
  | CAcquire nat "nat option"
  | CRelease nat nat bool
  | CClosePool nat
  | CReleasePool nat
  | CReleaseWrapper nat

section \<open>The state\<close>

text \<open>
  \<open>eg_exception\<close> is \<open>EG(exception)\<close>, \<open>conns\<close> the live \<open>ch_client\<close> structures,
  \<open>ext\<close> the state of everything outside the repository.
\<close>

record 'w vm =
  eg_exception :: "php_exn option"
  conns :: "nat \<Rightarrow> ch_client option"
  next_conn :: nat
  calls :: "call list"
  ext :: 'w

text \<open>A call into foreign code may change the outside state and may leave an exception
  pending (a coroutine that is cancelled while it is suspended).\<close>

type_synonym 'w io_state = "php_exn option \<times> 'w"
type_synonym ('w, 'a) io = "'w io_state \<Rightarrow> 'a \<times> 'w io_state"

datatype acquired = AcqIdle nat | AcqNew | AcqFail

text \<open>
  The foreign operations. \<open>cli_*\<close> are the methods of \<open>clickhouse::Client\<close>, with the packets
  they deliver to the callbacks, \<open>cli_connect\<close> its constructor over the socket factory with
  its two flags; \<open>lib_append_column\<close> is \<open>Block::AppendColumn\<close>, which may reject the column.
  \<open>abi_acquire\<close> is \<open>ZEND_ASYNC_POOL_ACQUIRE\<close> (an idle connection that passes the
  callback it is given, a request to run the factory, or a failure), \<open>abi_release\<close> is
  \<open>ZEND_ASYNC_POOL_RELEASE\<close> after the before-release callback gave its verdict, and tells
  whether the pool destroys the connection; \<open>abi_close\<close> is \<open>ZEND_ASYNC_POOL_CLOSE\<close>, which
  tells the idle connections it destroys.
\<close>

record 'w ch_api = ch_env +
  cli_connect :: "client_options \<Rightarrow> bool \<Rightarrow> bool \<Rightarrow> ('w, cxx_exn + nat) io"
  cli_delete :: "nat \<Rightarrow> ('w, unit) io"
  cli_begin_insert :: "nat \<Rightarrow> string \<Rightarrow> ('w, cxx_exn + block_column list) io"
  cli_send_insert_block :: "nat \<Rightarrow> block_column list \<Rightarrow> ('w, cxx_exn + unit) io"
  cli_end_insert :: "nat \<Rightarrow> ('w, cxx_exn + unit) io"
  cli_begin_execute :: "nat \<Rightarrow> query \<Rightarrow> ('w, packet list \<times> (cxx_exn + unit)) io"
  cli_next_block :: "nat \<Rightarrow> ('w, packet list \<times> (cxx_exn + block option)) io"
  lib_append_column :: "block_column list \<Rightarrow> block_column \<Rightarrow> cxx_exn option"
  abi_new_pool :: "nat \<Rightarrow> ('w, nat option) io"
  abi_acquire :: "nat \<Rightarrow> (nat \<Rightarrow> bool) \<Rightarrow> ('w, acquired) io"
  abi_release :: "nat \<Rightarrow> nat \<Rightarrow> bool \<Rightarrow> ('w, bool) io"
  abi_close :: "nat \<Rightarrow> ('w, nat list) io"
  abi_pool_event_release :: "nat \<Rightarrow> ('w, unit) io"
  abi_obj_release :: "nat \<Rightarrow> ('w, unit) io"
  abi_new_pool_obj :: "nat \<Rightarrow> ('w, nat option) io"
  steady_now :: "'w \<Rightarrow> nat"
  elapsed_seconds :: "nat \<Rightarrow> nat \<Rightarrow> double"
  mt_rand_range :: "s64 \<Rightarrow> s64 \<Rightarrow> ('w, s64) io"

section \<open>Operations\<close>

text \<open>Run a foreign call on the state, and log it.\<close>

definition ext_call :: "('w, 'a) io \<Rightarrow> 'w vm \<Rightarrow> 'a \<times> 'w vm" where
  "ext_call f s =
     (case f (eg_exception s, ext s) of (x, eg, w) \<Rightarrow> (x, s\<lparr>eg_exception := eg, ext := w\<rparr>))"

definition log_call :: "call \<Rightarrow> 'w vm \<Rightarrow> 'w vm" where
  "log_call c s = s\<lparr>calls := calls s @ [c]\<rparr>"

text \<open>\<open>zend_throw_exception\<close> and \<open>ch_translate_and_throw\<close> on the state.\<close>

definition throw_php :: "php_class \<Rightarrow> string \<Rightarrow> 'w vm \<Rightarrow> 'w vm" where
  "throw_php c msg s = s\<lparr>eg_exception := zend_throw_exception c msg 0 (eg_exception s)\<rparr>"

definition throw_cxx :: "cxx_exn \<Rightarrow> 'w vm \<Rightarrow> 'w vm" where
  "throw_cxx e s = s\<lparr>eg_exception := ch_translate_and_throw e (eg_exception s)\<rparr>"

text \<open>What the caller of a method gets. A method that returns while an exception is pending has
  no value for its caller: the engine destroys it and unwinds.\<close>

definition php_return :: "'a \<Rightarrow> 'w vm \<Rightarrow> php_exn + 'a" where
  "php_return v s = (case eg_exception s of Some e \<Rightarrow> Inl e | None \<Rightarrow> Inr v)"

lemma php_return_pending: "eg_exception s \<noteq> None \<Longrightarrow> \<exists>e. php_return v s = Inl e"
  by (auto simp: php_return_def)

text \<open>A step that may throw a C++ exception: sequencing, and a pure step.\<close>

type_synonym ('s, 'a) action = "'s \<Rightarrow> (cxx_exn + 'a) \<times> 's"

definition ebind :: "('s, 'a) action \<Rightarrow> ('a \<Rightarrow> ('s, 'b) action) \<Rightarrow> ('s, 'b) action" where
  "ebind m k s = (case m s of (Inl e, s') \<Rightarrow> (Inl e, s') | (Inr x, s') \<Rightarrow> k x s')"

definition elift :: "cxx_exn + 'a \<Rightarrow> ('s, 'a) action" where
  "elift r s = (r, s)"

lemma elift_simp [simp]: "elift r s = (r, s)"
  by (simp add: elift_def)

lemma ebind_Inr [simp]: "m s = (Inr x, s') \<Longrightarrow> ebind m k s = k x s'"
  by (simp add: ebind_def)

lemma ebind_Inl [simp]: "m s = (Inl e, s') \<Longrightarrow> ebind m k s = (Inl e, s')"
  by (simp add: ebind_def)

lemma ebind_elift_Inl [simp]: "ebind (elift (Inl e)) k s = (Inl e, s)"
  by (simp add: ebind_def)

lemma ebind_elift_Inr [simp]: "ebind (elift (Inr x)) k s = k x s"
  by (simp add: ebind_def)

lemma ebind_cases:
  obtains (error) e s' where "m s = (Inl e, s')" "ebind m k s = (Inl e, s')"
  | (normal) x s' where "m s = (Inr x, s')" "ebind m k s = k x s'"
  by (cases "m s"; cases "fst (m s)") auto

lemma ext_call_sel [simp]:
  "conns (snd (ext_call f s)) = conns s"
  "next_conn (snd (ext_call f s)) = next_conn s"
  "calls (snd (ext_call f s)) = calls s"
  by (simp_all add: ext_call_def split: prod.splits)

lemma ext_call_frame:
  "ext_call f s = (x, s1) \<Longrightarrow> calls s1 = calls s \<and> conns s1 = conns s \<and> next_conn s1 = next_conn s"
  using ext_call_sel [of f s] by simp

lemma log_call_sel [simp]:
  "conns (log_call c s) = conns s" "next_conn (log_call c s) = next_conn s"
  "eg_exception (log_call c s) = eg_exception s" "ext (log_call c s) = ext s"
  "calls (log_call c s) = calls s @ [c]"
  by (simp_all add: log_call_def)

lemma throw_sel [simp]:
  "conns (throw_cxx e s) = conns s" "conns (throw_php c m s) = conns s"
  "next_conn (throw_cxx e s) = next_conn s" "next_conn (throw_php c m s) = next_conn s"
  "calls (throw_cxx e s) = calls s" "calls (throw_php c m s) = calls s"
  "ext (throw_cxx e s) = ext s" "ext (throw_php c m s) = ext s"
  "eg_exception (throw_cxx e s) \<noteq> None" "eg_exception (throw_php c m s) \<noteq> None"
  by (simp_all add: throw_cxx_def throw_php_def zend_throw_exception_def)

text \<open>One method of \<open>clickhouse::Client\<close>: run it and log how it ended.\<close>

definition client_call :: "(cxx_exn + 'a \<Rightarrow> call) \<Rightarrow> ('w, cxx_exn + 'a) io \<Rightarrow> ('w vm, 'a) action" where
  "client_call c f s = (case ext_call f s of (r, s1) \<Rightarrow> (r, log_call (c r) s1))"

lemma client_call_cases:
  obtains (error) e s' where "client_call c f s = (Inl e, s')" "calls s' = calls s @ [c (Inl e)]"
      "conns s' = conns s" "next_conn s' = next_conn s"
  | (normal) x s' where "client_call c f s = (Inr x, s')" "calls s' = calls s @ [c (Inr x)]"
      "conns s' = conns s" "next_conn s' = next_conn s"
proof -
  obtain r s1 where r: "ext_call f s = (r, s1)" by (cases "ext_call f s")
  from ext_call_sel [of f s] show thesis
    by (cases r) (auto simp: r client_call_def intro: error normal)
qed

text \<open>The state of a connection's flag.\<close>

definition set_broken :: "nat \<Rightarrow> 'w vm \<Rightarrow> 'w vm" where
  "set_broken c s =
     s\<lparr>conns := (conns s)(c := map_option (\<lambda>cl. cl\<lparr>cl_broken := True\<rparr>) (conns s c))\<rparr>"

lemma set_broken_sel [simp]:
  "calls (set_broken c s) = calls s" "eg_exception (set_broken c s) = eg_exception s"
  "ext (set_broken c s) = ext s" "next_conn (set_broken c s) = next_conn s"
  "conns (set_broken c s) d = (if d = c
     then map_option (\<lambda>cl. cl\<lparr>cl_broken := True\<rparr>) (conns s c) else conns s d)"
  by (simp_all add: set_broken_def)

end
