(* ===== verification/Ch_Client.thy ===== *)
theory Ch_Client
  imports Ch_Engine
begin

text \<open>
  The connection layer of \<open>ch_client.cpp\<close>: opening and closing a \<open>ch_client\<close>, and the
  columnar insert \<open>ch_send_block\<close> that \<open>Client::insert\<close> and \<open>Batch::flush\<close> share.
\<close>

section \<open>Opening and closing\<close>

definition ch_map_compression :: "int \<Rightarrow> compression_method" where
  "ch_map_compression method =
     (if method = 1 then LZ4 else if method = 2 then ZSTD else NoCompression)"

text \<open>\<open>ch_client_config_t\<close>: a \<open>const char *\<close> may be null.\<close>

record client_config =
  cfg_host :: "string option"
  cfg_port :: u16
  cfg_database :: "string option"
  cfg_user :: "string option"
  cfg_password :: "string option"
  cfg_compression :: int
  cfg_tls :: bool
  cfg_tls_verify :: bool
  cfg_endpoints :: "endpoint list"

definition or_default :: "string option \<Rightarrow> string \<Rightarrow> string" where
  "or_default p d = (case p of Some s \<Rightarrow> c_str s | None \<Rightarrow> d)"

definition client_options_of :: "client_config \<Rightarrow> client_options" where
  "client_options_of cfg =
     \<lparr>opt_host = or_default (cfg_host cfg) ''127.0.0.1'',
      opt_port = (if cfg_port cfg \<noteq> 0 then cfg_port cfg else 9000),
      opt_database = or_default (cfg_database cfg) ''default'',
      opt_user = or_default (cfg_user cfg) ''default'',
      opt_password = or_default (cfg_password cfg) [],
      opt_compression = ch_map_compression (cfg_compression cfg),
      opt_endpoints = map (\<lambda>(h, p). (c_str h, p)) (cfg_endpoints cfg)\<rparr>"

text \<open>\<open>new ch_client()\<close>: a fresh structure, not broken.\<close>

definition new_conn :: "nat \<Rightarrow> 'w vm \<Rightarrow> nat \<times> 'w vm" where
  "new_conn h s =
     (next_conn s,
      s\<lparr>conns := (conns s)(next_conn s \<mapsto> \<lparr>cl_client = h, cl_broken = False\<rparr>),
        next_conn := Suc (next_conn s)\<rparr>)"

definition ch_client_connect :: "'w ch_api \<Rightarrow> client_config \<Rightarrow> 'w vm \<Rightarrow> nat option \<times> 'w vm" where
  "ch_client_connect A cfg s =
     (let opts = client_options_of cfg
      in case client_call (\<lambda>r. CConnect opts (cfg_tls cfg) (cfg_tls_verify cfg)
                                 (case r of Inl e \<Rightarrow> None | Inr h \<Rightarrow> Some h))
                (cli_connect A opts (cfg_tls cfg) (cfg_tls_verify cfg)) s of
           (Inr h, s1) \<Rightarrow> (case new_conn h s1 of (c, s2) \<Rightarrow> (Some c, s2))
         | (Inl e, s1) \<Rightarrow>
             (None,
              if eg_exception s1 = None
              then if dynamic_cast CxxServerException e then throw_cxx e s1
                   else throw_php ConnectionException (exn_what e) s1
              else s1))"

text \<open>\<open>ch_client_free\<close> deletes the library client and the structure; a null pointer (here: no
  such structure) is left alone.\<close>

definition ch_client_free :: "'w ch_api \<Rightarrow> nat \<Rightarrow> 'w vm \<Rightarrow> 'w vm" where
  "ch_client_free A c s =
     (case conns s c of
        None \<Rightarrow> s
      | Some cl \<Rightarrow>
          let s1 = log_call (CDelete (cl_client cl)) (snd (ext_call (cli_delete A (cl_client cl)) s))
          in s1\<lparr>conns := (conns s1)(c := None)\<rparr>)"

definition ch_client_is_broken :: "nat \<Rightarrow> 'w vm \<Rightarrow> bool" where
  "ch_client_is_broken c s = (case conns s c of None \<Rightarrow> False | Some cl \<Rightarrow> cl_broken cl)"

section \<open>Building the insert block\<close>

definition column_count_mismatch :: cxx_exn where
  "column_count_mismatch =
     validation_error ''clickhouse: insert column count does not match the table''"

definition row_expected :: cxx_exn where
  "row_expected = validation_error ''clickhouse: each insert row must be an array''"

definition row_too_many :: cxx_exn where
  "row_too_many = validation_error ''clickhouse: insert row has more values than columns''"

definition row_too_few :: cxx_exn where
  "row_too_few = validation_error ''clickhouse: insert row has fewer values than columns''"

lemmas row_error_defs =
  column_count_mismatch_def row_expected_def row_too_many_def row_too_few_def

text \<open>The body of the row loop: each cell goes to the column at its position. \<open>k\<close> is the number of
  the insert, which names its columns \<open>data[i]\<close>.\<close>

definition append_row ::
    "('a) ch_env_scheme \<Rightarrow> nat \<Rightarrow> ch_type list \<Rightarrow> zval \<Rightarrow> col list \<times> ch_map_templates
      \<Rightarrow> cxx_exn + col list \<times> ch_map_templates" where
  "append_row E k ts row st =
     (case row of
        ZArray cells \<Rightarrow>
          append_members row_too_many row_too_few
            (map (\<lambda>i. append_value E (ts ! i) (DataCol k i)) [0..<length ts]) (hash_values cells)
            (fst st) (snd st)
      | _ \<Rightarrow> Inl row_expected)"

definition append_rows ::
    "('a) ch_env_scheme \<Rightarrow> nat \<Rightarrow> ch_type list \<Rightarrow> zval list \<Rightarrow> cxx_exn + col list" where
  "append_rows E k ts rows =
     rbind (fold_res (append_row E k ts) rows (map empty_col ts, Map.empty))
       (\<lambda>(data, tmpl). Inr data)"

text \<open>\<open>block.AppendColumn(names[i], data[i])\<close> for every column.\<close>

definition append_column ::
    "'w ch_api \<Rightarrow> block_column \<Rightarrow> block_column list \<Rightarrow> cxx_exn + block_column list" where
  "append_column A c block =
     (case lib_append_column A block c of Some e \<Rightarrow> Inl e | None \<Rightarrow> Inr (block @ [c]))"

definition build_block ::
    "'w ch_api \<Rightarrow> string list \<Rightarrow> ch_type list \<Rightarrow> col list \<Rightarrow> cxx_exn + block_column list" where
  "build_block A names ts data = fold_res (append_column A) (zip names (zip ts data)) []"

section \<open>\<open>ch_send_block\<close>\<close>

abbreviation begin_insert :: "'w ch_api \<Rightarrow> nat \<Rightarrow> string \<Rightarrow> ('w vm, block_column list) action" where
  "begin_insert A h stmt \<equiv>
     client_call (\<lambda>r. CBeginInsert h stmt (is_ok r)) (cli_begin_insert A h stmt)"

abbreviation send_insert_block ::
    "'w ch_api \<Rightarrow> nat \<Rightarrow> block_column list \<Rightarrow> ('w vm, unit) action" where
  "send_insert_block A h blk \<equiv>
     client_call (\<lambda>r. CSendInsertBlock h blk (is_ok r)) (cli_send_insert_block A h blk)"

abbreviation end_insert :: "'w ch_api \<Rightarrow> nat \<Rightarrow> ('w vm, unit) action" where
  "end_insert A h \<equiv> client_call (\<lambda>r. CEndInsert h (is_ok r)) (cli_end_insert A h)"

text \<open>\<open>sample[i]->CloneEmpty()\<close> keeps the types of the sample block's columns.\<close>

definition block_types :: "block_column list \<Rightarrow> ch_type list" where
  "block_types block = map (\<lambda>(n, t, c). t) block"

lemma length_block_types [simp]: "length (block_types b) = length b"
  by (simp add: block_types_def)

text \<open>The body of the \<open>try\<close> block, from the sample block on. An insert is numbered by the calls
  that were made before it.\<close>

definition prepare_block ::
    "'w ch_api \<Rightarrow> nat \<Rightarrow> string list \<Rightarrow> zval list \<Rightarrow> block_column list \<Rightarrow> cxx_exn + block_column list" where
  "prepare_block A k names rows sample =
     (if length sample \<noteq> length names then Inl column_count_mismatch
      else let ts = block_types sample
           in rbind (append_rows A k ts rows) (build_block A names ts))"

definition send_block_body ::
    "'w ch_api \<Rightarrow> nat \<Rightarrow> string \<Rightarrow> string list \<Rightarrow> zval list \<Rightarrow> ('w vm, unit) action" where
  "send_block_body A h statement names rows =
     ebind (begin_insert A h statement) (\<lambda>sample.
     ebind (\<lambda>s1. elift (prepare_block A (length (calls s1)) names rows sample) s1) (\<lambda>block.
     ebind (send_insert_block A h block) (\<lambda>_. end_insert A h)))"

text \<open>
  The whole function on the library client \<open>h\<close>: whether it succeeded, and the value of
  \<open>*broken\<close>. A failure that does not poison the connection closes the insert session; if that
  fails too, the connection is broken.
\<close>

definition ch_send_block ::
    "'w ch_api \<Rightarrow> nat \<Rightarrow> string \<Rightarrow> string list \<Rightarrow> hash_table \<Rightarrow> bool \<Rightarrow> 'w vm
      \<Rightarrow> (bool \<times> bool) \<times> 'w vm" where
  "ch_send_block A h statement names rows broken s =
     (case send_block_body A h statement names (hash_values rows) s of
        (Inr _, s1) \<Rightarrow> ((True, broken), s1)
      | (Inl e, s1) \<Rightarrow>
          if ch_exception_poisons_connection e then ((False, True), throw_cxx e s1)
          else (case end_insert A h s1 of
                  (Inr _, s2) \<Rightarrow> ((False, broken), throw_cxx e s2)
                | (Inl _, s2) \<Rightarrow> ((False, True), throw_cxx e s2)))"

text \<open>\<open>ch_client_insert\<close>: \<open>*broken\<close> is the flag of the connection. The code dereferences the
  connection; one that does not exist has no counterpart there.\<close>

definition ch_client_insert ::
    "'w ch_api \<Rightarrow> nat \<Rightarrow> string \<Rightarrow> hash_table \<Rightarrow> hash_table \<Rightarrow> 'w vm \<Rightarrow> bool \<times> 'w vm" where
  "ch_client_insert A c table columns rows s =
     (case ch_build_insert_statement A table columns of
        (statement, names) \<Rightarrow>
          (case conns s c of
             None \<Rightarrow> (False, s)
           | Some cl \<Rightarrow>
               (case ch_send_block A (cl_client cl) statement names rows (cl_broken cl) s of
                  ((ok, broken), s1) \<Rightarrow>
                    (ok, s1\<lparr>conns := (conns s1)(c \<mapsto> cl\<lparr>cl_broken := broken\<rparr>)\<rparr>))))"

section \<open>The block holds the encoded rows\<close>

text \<open>The specification of the row loop: encode each row, stop at the first error.\<close>

definition enc_row :: "('a) ch_env_scheme \<Rightarrow> ch_type list \<Rightarrow> zval \<Rightarrow> cxx_exn + cell list" where
  "enc_row E ts row =
     (case row of
        ZArray cells \<Rightarrow> enc_members row_too_many row_too_few (map (enc E) ts) (hash_values cells)
      | _ \<Rightarrow> Inl row_expected)"

definition enc_rows :: "('a) ch_env_scheme \<Rightarrow> ch_type list \<Rightarrow> zval list \<Rightarrow> cxx_exn + cell list list" where
  "enc_rows E ts rows = map_res (enc_row E ts) rows"

definition holds_rows :: "ch_type list \<Rightarrow> col list \<Rightarrow> cell list list \<Rightarrow> bool" where
  "holds_rows ts cs R \<longleftrightarrow>
     list_all2 (\<lambda>t c. wf_col t (length R) c) ts cs \<and>
     (\<forall>i < length ts. col_cells (ts ! i) (cs ! i) = map (\<lambda>r. r ! i) R)"

lemma holds_rows_empty: "list_all sized_type ts \<Longrightarrow> holds_rows ts (map empty_col ts) []"
  by (auto simp: holds_rows_def list_all2_conv_all_nth wf_empty_col col_cells_empty list_all_length)

lemma append_row_refines:
  assumes lib: "ch_lib_ok E" and ts: "list_all sized_type ts" and one: "one_map ms"
    and clones: "\<forall>t \<in> set ts. set (cloned_maps t) \<subseteq> set ms"
    and h: "holds_rows ts cs R" and tm: "tmpl_ok E k ms tm"
  shows "(\<exists>e. append_row E k ts row (cs, tm) = Inl e \<and> enc_row E ts row = Inl e) \<or>
    (\<exists>cs' tm' r. append_row E k ts row (cs, tm) = Inr (cs', tm') \<and> enc_row E ts row = Inr r
       \<and> length r = length ts \<and> holds_rows ts cs' (R @ [r]) \<and> tmpl_ok E k ms tm')"
proof (cases "\<exists>kvs. row = ZArray kvs")
  case True
  then obtain kvs where row: "row = ZArray kvs" by blast
  let ?fs = "map (\<lambda>i. append_value E (ts ! i) (DataCol k i)) [0..<length ts]"
  let ?fgs = "zip ?fs (map (enc E) ts)"
  have "refines E k ms (ts ! i) (append_value E (ts ! i) (DataCol k i)) (enc E (ts ! i))"
    if "i < length ts" for i
    using that ts clones
    by (intro append_value_refines [OF lib one]) (auto simp: list_all_length clones_within_def)
  then have fgs: "list_all2 (\<lambda>t (f, g). refines E k ms t f g) ts ?fgs"
    by (simp add: list_all2_conv_all_nth)
  have maps: "map fst ?fgs = ?fs" "map snd ?fgs = map (enc E) ts"
    by simp_all
  from h have wf: "list_all2 (\<lambda>t c. wf_col t (length R) c) ts cs"
    and cells: "\<forall>i < length ts. col_cells (ts ! i) (cs ! i) = map (\<lambda>r. r ! i) R"
    by (auto simp: holds_rows_def)
  from refines_members [OF fgs wf tm, of row_too_many row_too_few "hash_values kvs", unfolded maps]
  show ?thesis
  proof (elim disjE exE conjE)
    fix cs' tm' r
    assume r: "append_members row_too_many row_too_few ?fs (hash_values kvs) cs tm
        = Inr (cs', tm')"
      "enc_members row_too_many row_too_few (map (enc E) ts) (hash_values kvs) = Inr r"
      and wf': "list_all2 (\<lambda>t c. wf_col t (Suc (length R)) c) ts cs'" and tm': "tmpl_ok E k ms tm'"
      and len: "length r = length ts"
      and eq: "map2 col_cells ts cs' = map2 (\<lambda>l x. l @ [x]) (map2 col_cells ts cs) r"
    have "col_cells (ts ! i) (cs' ! i) = map (\<lambda>x. x ! i) (R @ [r])" if i: "i < length ts" for i
    proof -
      from arg_cong [where f = "\<lambda>l. l ! i", OF eq] i len wf wf'
      have "col_cells (ts ! i) (cs' ! i) = col_cells (ts ! i) (cs ! i) @ [r ! i]"
        by (simp add: list_all2_lengthD [OF wf, symmetric] list_all2_lengthD [OF wf', symmetric])
      with cells i show ?thesis by simp
    qed
    with wf' have "holds_rows ts cs' (R @ [r])"
      by (simp add: holds_rows_def)
    with r len tm' show ?thesis by (simp add: append_row_def enc_row_def row)
  qed (simp add: append_row_def enc_row_def row)
next
  case False
  then show ?thesis
    by (cases row) (auto simp: append_row_def enc_row_def)
qed

lemma append_rows_fold:
  assumes "ch_lib_ok E" and "list_all sized_type ts" and "one_map ms"
    and "\<forall>t \<in> set ts. set (cloned_maps t) \<subseteq> set ms"
    and "holds_rows ts cs R" and "tmpl_ok E k ms tm"
  shows "(\<exists>e. fold_res (append_row E k ts) rows (cs, tm) = Inl e \<and> enc_rows E ts rows = Inl e) \<or>
    (\<exists>cs' tm' R'. fold_res (append_row E k ts) rows (cs, tm) = Inr (cs', tm') \<and> enc_rows E ts rows = Inr R'
       \<and> length R' = length rows \<and> (\<forall>r \<in> set R'. length r = length ts) \<and> holds_rows ts cs' (R @ R'))"
  using assms(5,6)
proof (induction rows arbitrary: cs R tm)
  case (Cons row rows)
  from append_row_refines [OF assms(1-4) Cons.prems, of row] show ?case
  proof (elim disjE exE conjE)
    fix cs' tm' r
    assume r: "append_row E k ts row (cs, tm) = Inr (cs', tm')" "enc_row E ts row = Inr r"
      "length r = length ts" and h: "holds_rows ts cs' (R @ [r])" and tm': "tmpl_ok E k ms tm'"
    from Cons.IH [OF h tm'] r show ?thesis
      by (elim disjE exE conjE) (simp_all add: enc_rows_def)
  qed (simp add: enc_rows_def)
qed (simp add: enc_rows_def)

lemma append_rows_refines:
  assumes "ch_lib_ok E" and "list_all sized_type ts" and "one_cloned_map ts"
  shows "(\<exists>e. append_rows E k ts rows = Inl e \<and> enc_rows E ts rows = Inl e) \<or>
    (\<exists>data R. append_rows E k ts rows = Inr data \<and> enc_rows E ts rows = Inr R
       \<and> length R = length rows \<and> (\<forall>r \<in> set R. length r = length ts) \<and> holds_rows ts data R)"
proof -
  have "\<forall>t \<in> set ts. set (cloned_maps t) \<subseteq> set (concat (map cloned_maps ts))" by auto
  from append_rows_fold [OF assms(1,2) assms(3) [unfolded one_cloned_map_def] this
      holds_rows_empty [OF assms(2)] tmpl_ok_empty, of k rows]
  show ?thesis
    by (elim disjE exE conjE) (simp_all add: append_rows_def)
qed

text \<open>
  What the code relies on when it assembles the block: \<open>AppendColumn\<close> takes a column that has as
  many rows as the columns the block already holds.
\<close>

definition lib_block_ok :: "'w ch_api \<Rightarrow> bool" where
  "lib_block_ok A \<longleftrightarrow>
     (\<forall>block n t c. (\<forall>(n', t', c') \<in> set block. col_rows c' = col_rows c) \<longrightarrow>
        lib_append_column A block (n, t, c) = None)"

lemma build_block_ok:
  assumes A: "lib_block_ok A"
    and "\<forall>(n, t, c) \<in> set acc. col_rows c = k" and "\<forall>(n, t, c) \<in> set bs. col_rows c = k"
  shows "fold_res (append_column A) bs acc = Inr (acc @ bs)"
  using assms(2,3)
proof (induction bs arbitrary: acc)
  case (Cons b bs)
  obtain n t c where b: "b = (n, t, c)" by (cases b)
  with Cons.prems have "\<forall>(n', t', c') \<in> set acc. col_rows c' = col_rows c"
    by auto
  with A have "append_column A b acc = Inr (acc @ [b])"
    by (simp add: lib_block_ok_def append_column_def b)
  with Cons.IH [of "acc @ [b]"] Cons.prems show ?case by auto
qed simp

lemma build_block_holds:
  assumes "lib_block_ok A" and "holds_rows ts data R" and "list_all sized_type ts"
  shows "build_block A names ts data = Inr (zip names (zip ts data))"
proof -
  have "col_rows c = length R" if "(t, c) \<in> set (zip ts data)" for t c
    using assms(2,3) that
    by (auto simp: holds_rows_def list_all2_iff list_all_iff dest: set_zip_leftD
        intro!: wf_col_rows)
  then have "\<forall>(n, t, c) \<in> set (zip names (zip ts data)). col_rows c = length R"
    by (auto dest: set_zip_rightD)
  with build_block_ok [OF assms(1), of "[]" "length R"] show ?thesis
    by (simp add: build_block_def)
qed

lemma prepare_block_cases:
  assumes "ch_lib_ok A" and "lib_block_ok A" and "list_all sized_type (block_types sample)"
    and "one_cloned_map (block_types sample)" and "length sample = length names"
  shows "(\<exists>e. prepare_block A k names rows sample = Inl e
        \<and> enc_rows A (block_types sample) rows = Inl e) \<or>
     (\<exists>data R. prepare_block A k names rows sample
          = Inr (zip names (zip (block_types sample) data))
        \<and> enc_rows A (block_types sample) rows = Inr R \<and> length R = length rows
        \<and> holds_rows (block_types sample) data R)"
  using append_rows_refines [OF assms(1,3,4), of k rows]
proof (elim disjE exE conjE)
  fix data R
  assume "append_rows A k (block_types sample) rows = Inr data"
    "enc_rows A (block_types sample) rows = Inr R" "length R = length rows"
    and h: "holds_rows (block_types sample) data R"
  with build_block_holds [OF assms(2) h assms(3)] show ?thesis
    by (auto simp: prepare_block_def assms(5))
qed (simp add: prepare_block_def assms(5))

end
