(* ===== verification/Ch_Config.thy ===== *)
theory Ch_Config
  imports Ch_Client
begin

text \<open>
  The Client object of \<open>clickhouse_async.cpp\<close> and its constructor: \<open>ch_client_object\<close>,
  \<open>ch_client_object_create\<close>, \<open>ch_config_dup\<close>, \<open>ch_parse_host_port\<close> and
  \<open>Client::__construct\<close>.
\<close>

section \<open>The Client object\<close>

text \<open>Owned \<open>char *\<close> fields may be null; \<open>obj_endpoints\<close> is the array of
  \<open>endpoint_count\<close> elements. Pool and wrapper are handles of the ABI.\<close>

record client_object =
  obj_host :: "string option"
  obj_database :: "string option"
  obj_user :: "string option"
  obj_password :: "string option"
  obj_port :: u16
  obj_compression :: int
  obj_tls :: bool
  obj_tls_verify :: bool
  obj_pool_max :: u32
  obj_open_strategy :: int
  obj_conn_seq :: u32
  obj_endpoints :: "endpoint list"
  obj_pool :: "nat option"
  obj_pool_wrapper :: "nat option"

definition ch_client_object_create :: client_object where
  "ch_client_object_create =
     \<lparr>obj_host = None, obj_database = None, obj_user = None, obj_password = None, obj_port = 0,
      obj_compression = 0, obj_tls = False, obj_tls_verify = True, obj_pool_max = 10,
      obj_open_strategy = 0, obj_conn_seq = 0, obj_endpoints = [], obj_pool = None,
      obj_pool_wrapper = None\<rparr>"

section \<open>Parsing\<close>

definition ch_config_dup :: "hash_table \<Rightarrow> string \<Rightarrow> string \<Rightarrow> string" where
  "ch_config_dup ht key fallback =
     (case zend_hash_find ht (KStr key) of Some (ZString s) \<Rightarrow> s | _ \<Rightarrow> fallback)"

text \<open>\<open>strtol(s, NULL, 10)\<close> of the C library: leading white space, a sign, digits; the value is
  clamped to \<open>long\<close>.\<close>

definition is_space :: "char \<Rightarrow> bool" where
  "is_space c \<longleftrightarrow> of_char c = (32 :: nat) \<or> (9 \<le> (of_char c :: nat) \<and> of_char c \<le> (13 :: nat))"

definition strtol10 :: "string \<Rightarrow> int" where
  "strtol10 s =
     (let t = dropWhile is_space (c_str s);
          neg = (t \<noteq> [] \<and> hd t = CHR ''-'');
          ds = (if t \<noteq> [] \<and> (hd t = CHR ''-'' \<or> hd t = CHR ''+'') then tl t else t);
          n = int (dec_value (takeWhile is_dec_char ds))
      in max (- (2 ^ 63)) (min (2 ^ 63 - 1) (if neg then - n else n)))"

text \<open>The loop that looks for the last colon.\<close>

fun find_colon :: "string \<Rightarrow> nat \<Rightarrow> nat option" where
  "find_colon str 0 = None"
| "find_colon str (Suc i) = (if str ! i = CHR '':'' then Some i else find_colon str i)"

definition ch_parse_host_port :: "string \<Rightarrow> u16 \<Rightarrow> endpoint" where
  "ch_parse_host_port str default_port =
     (case find_colon str (length str) of
        Some i \<Rightarrow>
          let parsed = strtol10 (drop (Suc i) str)
          in (take i str, if 0 < parsed \<and> parsed \<le> 65535 then word_of_int parsed else default_port)
      | None \<Rightarrow> (str, default_port))"

section \<open>The constructor\<close>

text \<open>The enum classes, and the messages of the two type errors.\<close>

definition ns :: string where
  "ns = ''TrueAsync'' @ [CHR 0x5C] @ ''ClickHouse'' @ [CHR 0x5C]"

definition enum_type_error :: "string \<Rightarrow> string \<Rightarrow> string" where
  "enum_type_error option_name enum_name =
     ns @ ''Client: '' @ [CHR 0x27] @ option_name @ [CHR 0x27] @ '' must be a '' @ ns @ enum_name
       @ '' enum''"

definition config_strings :: "hash_table \<Rightarrow> client_object \<Rightarrow> client_object" where
  "config_strings ht obj =
     obj\<lparr>obj_host := Some (ch_config_dup ht ''host'' ''127.0.0.1''),
         obj_database := Some (ch_config_dup ht ''database'' ''default''),
         obj_user := Some (ch_config_dup ht ''user'' ''default''),
         obj_password := Some (ch_config_dup ht ''password'' [])\<rparr>"

definition config_tls :: "('a) php_api_scheme \<Rightarrow> hash_table \<Rightarrow> client_object \<Rightarrow> client_object" where
  "config_tls P ht obj =
     obj\<lparr>obj_tls := (case zend_hash_find ht (KStr ''tls'') of None \<Rightarrow> False | Some v \<Rightarrow> zend_is_true P v),
         obj_tls_verify :=
           (case zend_hash_find ht (KStr ''tls_verify'') of None \<Rightarrow> True | Some v \<Rightarrow> zend_is_true P v)\<rparr>"

definition config_port :: "('a) php_api_scheme \<Rightarrow> hash_table \<Rightarrow> client_object \<Rightarrow> client_object" where
  "config_port P ht obj =
     obj\<lparr>obj_port :=
           (case zend_hash_find ht (KStr ''port'') of
              Some v \<Rightarrow> ucast (zval_get_long P v)
            | None \<Rightarrow> if obj_tls obj then 9440 else 9000)\<rparr>"

text \<open>An enum option: absent, the value of a case of the enum, or a type error.\<close>

definition enum_option :: "hash_table \<Rightarrow> string \<Rightarrow> string \<Rightarrow> string + string option" where
  "enum_option ht key enum_name =
     (case zend_hash_find ht (KStr key) of
        None \<Rightarrow> Inr None
      | Some (ZEnum cls val) \<Rightarrow>
          if cls = ns @ enum_name then Inr (Some val) else Inl (enum_type_error key enum_name)
      | Some _ \<Rightarrow> Inl (enum_type_error key enum_name))"

definition config_compression :: "hash_table \<Rightarrow> client_object \<Rightarrow> string option \<times> client_object" where
  "config_compression ht obj =
     (let obj1 = obj\<lparr>obj_compression := 1\<rparr>
      in case enum_option ht ''compression'' ''Compression'' of
           Inl msg \<Rightarrow> (Some msg, obj1)
         | Inr None \<Rightarrow> (None, obj1)
         | Inr (Some m) \<Rightarrow>
             (None, obj1\<lparr>obj_compression :=
                (if m = ''none'' then 0 else if m = ''zstd'' then 2 else obj_compression obj1)\<rparr>))"

definition config_strategy :: "hash_table \<Rightarrow> client_object \<Rightarrow> string option \<times> client_object" where
  "config_strategy ht obj =
     (case enum_option ht ''open_strategy'' ''OpenStrategy'' of
        Inl msg \<Rightarrow> (Some msg, obj)
      | Inr None \<Rightarrow> (None, obj)
      | Inr (Some m) \<Rightarrow>
          (None, obj\<lparr>obj_open_strategy :=
             (if m = ''round_robin'' then 1 else if m = ''random'' then 2 else obj_open_strategy obj)\<rparr>))"

definition config_pool :: "('a) php_api_scheme \<Rightarrow> hash_table \<Rightarrow> client_object \<Rightarrow> client_object" where
  "config_pool P ht obj =
     (case zend_hash_find ht (KStr ''pool'') of
        Some (ZArray pool) \<Rightarrow>
          (case zend_hash_find pool (KStr ''max'') of
             Some m \<Rightarrow>
               if 1 \<le> sint (zval_get_long P m)
               then obj\<lparr>obj_pool_max := ucast (zval_get_long P m)\<rparr> else obj
           | None \<Rightarrow> obj)
      | _ \<Rightarrow> obj)"

text \<open>The body of the \<open>hosts\<close> loop; \<open>obj->port\<close> is the default port of every entry, and the
  first entry sets it.\<close>

definition add_host :: "('a) php_api_scheme \<Rightarrow> client_object \<times> nat \<Rightarrow> zval \<Rightarrow> client_object \<times> nat" where
  "add_host P st entry =
     (case st of (obj, index) \<Rightarrow>
        (case ch_parse_host_port (zval_get_string P entry) (obj_port obj) of (host, port) \<Rightarrow>
           (if index = 0 then obj\<lparr>obj_host := Some host, obj_port := port\<rparr>
            else obj\<lparr>obj_endpoints := obj_endpoints obj @ [(host, port)]\<rparr>, Suc index)))"

definition config_hosts :: "('a) php_api_scheme \<Rightarrow> hash_table \<Rightarrow> client_object \<Rightarrow> client_object" where
  "config_hosts P ht obj =
     (case zend_hash_find ht (KStr ''hosts'') of
        Some (ZArray list) \<Rightarrow>
          let obj1 = (if 1 < length list then obj\<lparr>obj_endpoints := []\<rparr> else obj)
          in fst (foldl (add_host P) (obj1, 0) (hash_values list))
      | _ \<Rightarrow> obj)"

text \<open>\<open>Client::__construct\<close>: the object, and whether a type error was thrown; what was set
  before the error stays set.\<close>

definition construct ::
    "('a) php_api_scheme \<Rightarrow> hash_table \<Rightarrow> client_object \<Rightarrow> 'w vm \<Rightarrow> client_object \<times> 'w vm" where
  "construct P ht obj s =
     (let obj1 = config_port P ht (config_tls P ht (config_strings ht obj))
      in case config_compression ht obj1 of
           (Some msg, obj2) \<Rightarrow> (obj2, throw_php TypeError msg s)
         | (None, obj2) \<Rightarrow>
             (case config_strategy ht obj2 of
                (Some msg, obj3) \<Rightarrow> (obj3, throw_php TypeError msg s)
              | (None, obj3) \<Rightarrow> (config_hosts P ht (config_pool P ht obj3), s)))"

lemmas construct_defs =
  construct_def config_strings_def config_tls_def config_port_def config_compression_def
  config_strategy_def config_pool_def config_hosts_def enum_option_def ch_config_dup_def
  zend_hash_find_def

section \<open>What parsing gives\<close>

lemma find_colon_None: "find_colon str n = None \<longleftrightarrow> (\<forall>i < n. str ! i \<noteq> CHR '':'')"
  by (induction n) (auto simp: less_Suc_eq)

lemma find_colon_last:
  assumes "\<forall>j < length p. p ! j \<noteq> CHR '':''"
  shows "find_colon (h @ CHR '':'' # p) (Suc (length h + length p)) = Some (length h)"
proof -
  have "find_colon (h @ CHR '':'' # p) (Suc (length h + k)) = Some (length h)" if "k \<le> length p" for k
    using that
  proof (induction k)
    case (Suc k)
    have "(h @ CHR '':'' # p) ! (length h + Suc k) = p ! k"
      by (simp add: nth_append)
    with Suc assms show ?case by simp
  qed (simp add: nth_append)
  then show ?thesis by simp
qed

lemma ch_parse_host_port_no_colon:
  "CHR '':'' \<notin> set str \<Longrightarrow> ch_parse_host_port str d = (str, d)"
  using find_colon_None [of str "length str"]
  by (auto simp: ch_parse_host_port_def in_set_conv_nth split: option.splits)

lemma ch_parse_host_port_colon:
  assumes "CHR '':'' \<notin> set p"
  shows "ch_parse_host_port (h @ CHR '':'' # p) d =
     (h, if 0 < strtol10 p \<and> strtol10 p \<le> 65535 then word_of_int (strtol10 p) else d)"
proof -
  have "\<forall>j < length p. p ! j \<noteq> CHR '':''"
    using assms by (auto simp: in_set_conv_nth)
  from find_colon_last [OF this, of h] show ?thesis
    by (simp add: ch_parse_host_port_def Let_def)
qed

lemma is_dec_char_of_char: "is_dec_char c \<Longrightarrow> 48 \<le> (of_char c :: nat) \<and> of_char c \<le> (57 :: nat)"
  by (simp add: is_dec_char_def)

lemma dec_char_plain:
  assumes "is_dec_char c"
  shows "\<not> is_space c" and "c \<noteq> CHR '':''" and "c \<noteq> CHR ''-''" and "c \<noteq> CHR ''+''" and "c \<noteq> CHR 0x00"
  using is_dec_char_of_char [OF assms] by (auto simp: is_space_def)

lemma strtol10_dec_digits:
  assumes "n < 2 ^ 63"
  shows "strtol10 (dec_digits n) = int n"
proof -
  have all: "list_all is_dec_char (dec_digits n)" by (rule dec_digits_all)
  then have "c_str (dec_digits n) = dec_digits n"
    by (intro c_str_id) (auto simp: list_all_iff dest: dec_char_plain(5))
  moreover have hd: "is_dec_char (hd (dec_digits n))"
    using hd_is_dec [OF all] by simp
  then have "dropWhile is_space (dec_digits n) = dec_digits n"
    using dec_char_plain(1) by (cases "dec_digits n") auto
  moreover have digits: "takeWhile is_dec_char (dec_digits n) = dec_digits n"
    using all by (simp add: takeWhile_eq_all_conv list_all_iff)
  ultimately show ?thesis
    using dec_char_plain(3,4) [OF hd] assms by (simp add: strtol10_def Let_def digits)
qed

lemma parse_host_port_print:
  assumes "0 < port"
  shows "ch_parse_host_port (host @ CHR '':'' # dec_digits (unat (port :: u16))) d = (host, port)"
proof -
  have lt: "uint port < 2 ^ 16" using unsigned_less [of port] by simp
  have pos: "0 < uint port" using assms by (simp add: word_less_def)
  have "CHR '':'' \<notin> set (dec_digits (unat port))"
    using dec_digits_all [of "unat port"] by (auto simp: list_all_iff dest: dec_char_plain(2))
  moreover have "unat port < 2 ^ 63"
    using unsigned_less [of port, where ?'a = nat] by simp
  from strtol10_dec_digits [OF this] have "strtol10 (dec_digits (unat port)) = uint port"
    by simp
  ultimately show ?thesis
    using lt pos by (simp add: ch_parse_host_port_colon)
qed

section \<open>What the constructor sets\<close>

text \<open>The \<open>hosts\<close> list: the first entry is the primary host, and its port is the default of the
  others.\<close>

lemma foldl_add_host:
  "0 < k \<Longrightarrow> foldl (add_host P) (obj, k) es
     = (obj\<lparr>obj_endpoints := obj_endpoints obj
          @ map (\<lambda>e. ch_parse_host_port (zval_get_string P e) (obj_port obj)) es\<rparr>, k + length es)"
proof (induction es arbitrary: obj k)
  case (Cons e es)
  then show ?case
    by (simp add: add_host_def split: prod.split)
qed simp

lemma config_hosts_eq:
  assumes "zend_hash_find ht (KStr ''hosts'') = Some (ZArray list)" and "hash_values list = e # es"
    and "ch_parse_host_port (zval_get_string P e) (obj_port obj) = (host, port)"
    and "obj_endpoints obj = []"
  shows "config_hosts P ht obj = obj\<lparr>obj_host := Some host, obj_port := port,
    obj_endpoints := map (\<lambda>x. ch_parse_host_port (zval_get_string P x) port) es\<rparr>"
  using assms by (simp add: config_hosts_def Let_def add_host_def foldl_add_host)

end
