(* ===== verification/Ch_Session.thy ===== *)
theory Ch_Session
  imports Ch_Client
begin

text \<open>
  The protocol of one library client, as an abstract automaton over the log of calls, and that
  \<open>ch_send_block\<close> follows it: what it calls in which order, what it sends, and in which state
  it leaves the connection.
\<close>

section \<open>The protocol\<close>

text \<open>
  \<open>SGone\<close>: no such client, not opened yet or deleted. \<open>SIdle\<close>: no statement open, the
  connection can be reused. \<open>SInsert\<close>: between \<open>BeginInsert\<close> and \<open>EndInsert\<close>. \<open>SQuery\<close>: the
  blocks of a query are unread. \<open>SDirty\<close>: a call of a query failed and left the wire in an
  unknown state; such a client can only be deleted. \<open>SWrong\<close>: a call was out of order, and no
  later call repairs that. The insert stays open until an \<open>EndInsert\<close> returns; an exception
  packet of the server ends a query.
\<close>

datatype session = SGone | SIdle | SInsert | SQuery | SDirty | SWrong

fun query_failed :: "cxx_class \<Rightarrow> session" where
  "query_failed c = (if c = CxxServerException then SIdle else SDirty)"

fun session_step :: "nat \<Rightarrow> session \<Rightarrow> call \<Rightarrow> session" where
  "session_step h st (CConnect opts tls verify r) =
     (if r \<noteq> Some h then st else if st = SGone then SIdle else SWrong)"
| "session_step h st (CDelete h') =
     (if h' \<noteq> h then st else if st = SGone \<or> st = SWrong then SWrong else SGone)"
| "session_step h st (CBeginInsert h' stmt ok) =
     (if h' \<noteq> h then st else if st = SIdle then SInsert else SWrong)"
| "session_step h st (CSendInsertBlock h' blk ok) =
     (if h' \<noteq> h then st else if st = SInsert then SInsert else SWrong)"
| "session_step h st (CEndInsert h' ok) =
     (if h' \<noteq> h then st else if st \<noteq> SInsert then SWrong else if ok then SIdle else SInsert)"
| "session_step h st (CBeginExecute h' q failed) =
     (if h' \<noteq> h then st
      else if st \<noteq> SIdle then SWrong
      else (case failed of None \<Rightarrow> SQuery | Some c \<Rightarrow> query_failed c))"
| "session_step h st (CNextBlock h' r) =
     (if h' \<noteq> h then st
      else if st \<noteq> SQuery then SWrong
      else (case r of NextRows \<Rightarrow> SQuery | NextEnd \<Rightarrow> SIdle | NextFailed c \<Rightarrow> query_failed c))"
| "session_step h st c = st"

definition session :: "nat \<Rightarrow> call list \<Rightarrow> session" where
  "session h cs = foldl (session_step h) SGone cs"

lemma session_Nil [simp]: "session h [] = SGone"
  by (simp add: session_def)

lemma session_append: "session h (cs @ ds) = foldl (session_step h) (session h cs) ds"
  by (simp add: session_def)

section \<open>The paths through \<open>ch_send_block\<close>\<close>

text \<open>The five ways the \<open>try\<close> block ends, with the calls made on each.\<close>

lemma send_block_body_cases:
  obtains (no_begin) e s1 where "send_block_body A h stmt names rows s = (Inl e, s1)"
      "calls s1 = calls s @ [CBeginInsert h stmt False]"
  | (no_block) sample e s1 where "send_block_body A h stmt names rows s = (Inl e, s1)"
      "fst (begin_insert A h stmt s) = Inr sample" "prepare_block A (Suc (length (calls s))) names rows sample = Inl e"
      "calls s1 = calls s @ [CBeginInsert h stmt True]"
  | (no_send) sample blk e s1 where "send_block_body A h stmt names rows s = (Inl e, s1)"
      "fst (begin_insert A h stmt s) = Inr sample" "prepare_block A (Suc (length (calls s))) names rows sample = Inr blk"
      "calls s1 = calls s @ [CBeginInsert h stmt True, CSendInsertBlock h blk False]"
  | (no_end) sample blk e s1 where "send_block_body A h stmt names rows s = (Inl e, s1)"
      "fst (begin_insert A h stmt s) = Inr sample" "prepare_block A (Suc (length (calls s))) names rows sample = Inr blk"
      "calls s1 = calls s @ [CBeginInsert h stmt True, CSendInsertBlock h blk True, CEndInsert h False]"
  | (sent) sample blk s1 where "send_block_body A h stmt names rows s = (Inr (), s1)"
      "fst (begin_insert A h stmt s) = Inr sample" "prepare_block A (Suc (length (calls s))) names rows sample = Inr blk"
      "calls s1 = calls s @ [CBeginInsert h stmt True, CSendInsertBlock h blk True, CEndInsert h True]"
proof (cases rule: client_call_cases [of "\<lambda>r. CBeginInsert h stmt (is_ok r)" "cli_begin_insert A h stmt" s])
  case (error e s1)
  then show thesis
    by (intro no_begin) (simp_all add: send_block_body_def)
next
  case (normal sample s1)
  note b = this
  show thesis
  proof (cases "prepare_block A (Suc (length (calls s))) names rows sample")
    case (Inl e)
    with b show thesis
      by (intro no_block) (simp_all add: send_block_body_def)
  next
    case (Inr blk)
    note p = this
    show thesis
    proof (cases rule: client_call_cases [of "\<lambda>r. CSendInsertBlock h blk (is_ok r)"
          "cli_send_insert_block A h blk" s1])
      case (error e s2)
      with b p show thesis
        by (intro no_send) (simp_all add: send_block_body_def)
    next
      case (normal u s2)
      note s = this
      show thesis
      proof (cases rule: client_call_cases [of "\<lambda>r. CEndInsert h (is_ok r)" "cli_end_insert A h" s2])
        case (error e s3)
        with b p s show thesis
          by (intro no_end) (simp_all add: send_block_body_def)
      next
        case (normal v s3)
        with b p s show thesis
          by (intro sent) (simp_all add: send_block_body_def)
      qed
    qed
  qed
qed

text \<open>An out-of-order call is never forgotten.\<close>

lemma session_step_wrong [simp]: "session_step h SWrong c = SWrong"
  by (cases c) auto

lemma session_wrong: "foldl (session_step h) SWrong cs = SWrong"
  by (induction cs) simp_all

text \<open>After the \<open>try\<close> block the insert is closed or open, never out of order.\<close>

lemma send_block_body_session:
  assumes "send_block_body A h stmt names rows s = (r, s1)" and "session h (calls s) = SIdle"
  shows "session h (calls s1) = (if is_ok r then SIdle else SInsert)"
  using assms
  by (cases rule: send_block_body_cases [of A h stmt names rows s])
    (auto simp: session_append)

text \<open>Every end of \<open>ch_send_block\<close>, from the end of its \<open>try\<close> block.\<close>

lemma ch_send_block_cases:
  obtains (complete) s1 where "send_block_body A h stmt names (hash_values rows) s = (Inr (), s1)"
      "ch_send_block A h stmt names rows broken s = ((True, broken), s1)"
  | (poisoned) e s1 where "send_block_body A h stmt names (hash_values rows) s = (Inl e, s1)"
      "ch_exception_poisons_connection e"
      "ch_send_block A h stmt names rows broken s = ((False, True), throw_cxx e s1)"
  | (closed) e s1 s2 where "send_block_body A h stmt names (hash_values rows) s = (Inl e, s1)"
      "\<not> ch_exception_poisons_connection e" "calls s2 = calls s1 @ [CEndInsert h True]"
      "ch_send_block A h stmt names rows broken s = ((False, broken), throw_cxx e s2)"
  | (not_closed) e s1 s2 where "send_block_body A h stmt names (hash_values rows) s = (Inl e, s1)"
      "\<not> ch_exception_poisons_connection e" "calls s2 = calls s1 @ [CEndInsert h False]"
      "ch_send_block A h stmt names rows broken s = ((False, True), throw_cxx e s2)"
proof (cases "send_block_body A h stmt names (hash_values rows) s")
  case (Pair r s1)
  show thesis
  proof (cases r)
    case (Inr u)
    with Pair show thesis by (intro complete) (simp_all add: ch_send_block_def)
  next
    case (Inl e)
    note e = Pair [unfolded Inl]
    show thesis
    proof (cases "ch_exception_poisons_connection e")
      case True
      with e show thesis by (intro poisoned) (simp_all add: ch_send_block_def)
    next
      case False
      show thesis
        using e False
        by (cases rule: client_call_cases [of "\<lambda>r. CEndInsert h (is_ok r)" "cli_end_insert A h" s1])
          (auto simp: ch_send_block_def intro: closed not_closed)
    qed
  qed
qed

section \<open>What the function guarantees\<close>

text \<open>A connection that is not marked broken is idle afterwards.\<close>

lemma ch_send_block_session:
  assumes "ch_send_block A h stmt names rows broken s = ((ok, broken'), s')"
    and "session h (calls s) = SIdle" and "ok \<or> \<not> broken'"
  shows "session h (calls s') = SIdle"
  using assms
proof (cases rule: ch_send_block_cases [of A h stmt names rows s broken])
  case (complete s1)
  with send_block_body_session [OF complete(1) assms(2)] assms(1) show ?thesis by simp
next
  case (closed e s1 s2)
  with send_block_body_session [OF closed(1) assms(2)] assms(1) show ?thesis
    by (auto simp: session_append)
qed auto

text \<open>And a broken one is still open, with no call out of order.\<close>

lemma ch_send_block_open:
  assumes "ch_send_block A h stmt names rows broken s = ((ok, broken'), s')"
    and "session h (calls s) = SIdle"
  shows "session h (calls s') \<in> {SIdle, SInsert}"
  using assms
proof (cases rule: ch_send_block_cases [of A h stmt names rows s broken])
  case (complete s1)
  with send_block_body_session [OF complete(1) assms(2)] assms(1) show ?thesis by auto
next
  case (poisoned e s1)
  with send_block_body_session [OF poisoned(1) assms(2)] assms(1) show ?thesis by auto
next
  case (closed e s1 s2)
  with send_block_body_session [OF closed(1) assms(2)] assms(1) show ?thesis
    by (auto simp: session_append)
next
  case (not_closed e s1 s2)
  with send_block_body_session [OF not_closed(1) assms(2)] assms(1) show ?thesis
    by (auto simp: session_append)
qed

lemma ch_send_block_left_open:
  assumes "ch_send_block A h stmt names rows broken s = ((ok, broken'), s')"
    and "session h (calls s) = SIdle" and "broken'" and "\<not> broken"
  shows "session h (calls s') = SInsert"
  using assms
proof (cases rule: ch_send_block_cases [of A h stmt names rows s broken])
  case (poisoned e s1)
  with send_block_body_session [OF poisoned(1) assms(2)] assms(1) show ?thesis by auto
next
  case (not_closed e s1 s2)
  with send_block_body_session [OF not_closed(1) assms(2)] assms(1) show ?thesis
    by (auto simp: session_append)
qed auto

text \<open>It always starts with a \<open>BeginInsert\<close>.\<close>

lemma ch_send_block_begins:
  "\<exists>began t. calls (snd (ch_send_block A h stmt names rows broken s))
     = calls s @ CBeginInsert h stmt began # t"
proof -
  have body: "\<exists>began t. calls s1 = calls s @ CBeginInsert h stmt began # t"
    if "send_block_body A h stmt names (hash_values rows) s = (r, s1)" for r s1
    using that by (cases rule: send_block_body_cases [of A h stmt names "hash_values rows" s]) auto
  show ?thesis
    by (cases rule: ch_send_block_cases [of A h stmt names rows s broken]) (auto dest!: body)
qed

text \<open>The flag is never cleared, and a success does not set it.\<close>

lemma ch_send_block_broken:
  assumes "ch_send_block A h stmt names rows broken s = ((ok, broken'), s')"
  shows "(broken \<longrightarrow> broken') \<and> (ok \<longrightarrow> broken' = broken) \<and> (\<not> ok \<longrightarrow> eg_exception s' \<noteq> None)"
  by (cases rule: ch_send_block_cases [of A h stmt names rows s broken];
      insert assms throw_sel(9); auto simp del: throw_sel)

text \<open>The log grows by the calls of this client only.\<close>

definition insert_call :: "nat \<Rightarrow> string \<Rightarrow> call \<Rightarrow> bool" where
  "insert_call h stmt c \<longleftrightarrow>
     (\<exists>ok. c = CBeginInsert h stmt ok) \<or> (\<exists>blk ok. c = CSendInsertBlock h blk ok)
     \<or> (\<exists>ok. c = CEndInsert h ok)"

definition insert_trace ::
    "'w ch_api \<Rightarrow> nat \<Rightarrow> string \<Rightarrow> string list \<Rightarrow> zval list \<Rightarrow> 'w vm \<Rightarrow> bool \<Rightarrow> call list \<Rightarrow> bool" where
  "insert_trace A h stmt names rows s ok t \<longleftrightarrow>
     list_all (insert_call h stmt) t \<and>
     (ok \<longrightarrow> (\<exists>blk. t = [CBeginInsert h stmt True, CSendInsertBlock h blk True, CEndInsert h True])) \<and>
     (\<forall>blk b. CSendInsertBlock h blk b \<in> set t \<longrightarrow>
        (\<exists>sample. fst (begin_insert A h stmt s) = Inr sample
          \<and> prepare_block A (Suc (length (calls s))) names rows sample = Inr blk))"

lemma insert_trace_end:
  "insert_trace A h stmt names rows s ok t \<Longrightarrow>
    insert_trace A h stmt names rows s False (t @ [CEndInsert h b])"
  by (auto simp: insert_trace_def insert_call_def)

lemma insert_trace_failed:
  "insert_trace A h stmt names rows s ok t \<Longrightarrow> insert_trace A h stmt names rows s False t"
  by (simp add: insert_trace_def)

lemma send_block_body_calls:
  assumes "send_block_body A h stmt names rows s = (r, s1)"
  shows "\<exists>t. calls s1 = calls s @ t \<and> insert_trace A h stmt names rows s (is_ok r) t"
  using assms
  by (cases rule: send_block_body_cases [of A h stmt names rows s])
    (auto simp: insert_call_def insert_trace_def)

lemma ch_send_block_calls:
  assumes "ch_send_block A h stmt names rows broken s = ((ok, broken'), s')"
  shows "\<exists>t. calls s' = calls s @ t \<and> insert_trace A h stmt names (hash_values rows) s ok t"
proof (cases rule: ch_send_block_cases [of A h stmt names rows s broken])
  case (complete s1)
  with send_block_body_calls [OF complete(1)] assms show ?thesis by simp
next
  case (poisoned e s1)
  with send_block_body_calls [OF poisoned(1)] assms show ?thesis by auto
next
  case (closed e s1 s2)
  with send_block_body_calls [OF closed(1)] assms show ?thesis
    by (auto intro: insert_trace_end)
next
  case (not_closed e s1 s2)
  with send_block_body_calls [OF not_closed(1)] assms show ?thesis
    by (auto intro: insert_trace_end)
qed

text \<open>What the code relies on: the server's sample block has no column of an empty Tuple.\<close>

definition lib_samples_ok :: "'w ch_api \<Rightarrow> bool" where
  "lib_samples_ok A \<longleftrightarrow>
     (\<forall>h stmt x. case fst (cli_begin_insert A h stmt x) of Inl e \<Rightarrow> True
        | Inr sample \<Rightarrow> list_all sized_type (block_types sample))"

lemma lib_samples_okD:
  "lib_samples_ok A \<Longrightarrow> fst (begin_insert A h stmt s) = Inr sample \<Longrightarrow>
    list_all sized_type (block_types sample)"
  unfolding lib_samples_ok_def client_call_def ext_call_def
  by (elim allE [of _ h] allE [of _ stmt] allE [of _ "(eg_exception s, ext s)"])
    (auto split: prod.splits)

text \<open>The block of an insert: one column per name, of the types of the server's sample; each has
  one cell per row, which is the encoding of the value at its position.\<close>

definition block_holds ::
    "('a) ch_env_scheme \<Rightarrow> block_column list \<Rightarrow> string list \<Rightarrow> zval list \<Rightarrow> block_column list \<Rightarrow> bool" where
  "block_holds E sample names rows blk \<longleftrightarrow>
     map fst blk = names \<and> map (fst \<circ> snd) blk = map (fst \<circ> snd) sample \<and>
     (case enc_rows E (map (fst \<circ> snd) sample) rows of
        Inl e \<Rightarrow> False
      | Inr R \<Rightarrow>
          length R = length rows \<and>
          list_all (\<lambda>(i, n, t, c). wf_col t (length rows) c \<and> col_cells t c = map (\<lambda>r. r ! i) R)
            (zip [0..<length blk] blk))"

lemma block_types_eq: "block_types b = map (fst \<circ> snd) b"
  by (simp add: block_types_def comp_def case_prod_beta)

lemma block_holdsI:
  assumes "length sample = length names" and "holds_rows (block_types sample) data R"
    and "enc_rows E (block_types sample) rows = Inr R" and "length R = length rows"
  shows "block_holds E sample names rows (zip names (zip (block_types sample) data))"
proof -
  from assms(2) have "length data = length sample"
    and "\<And>i. i < length sample \<Longrightarrow> wf_col (block_types sample ! i) (length R) (data ! i)
        \<and> col_cells (block_types sample ! i) (data ! i) = map (\<lambda>r. r ! i) R"
    by (auto simp: holds_rows_def list_all2_conv_all_nth)
  with assms(1,3,4) show ?thesis
    by (auto simp: block_holds_def block_types_eq list_all_length intro!: nth_equalityI)
qed

text \<open>A block that is sent holds every row, encoded, in order, in columns of the types of the
  sample.\<close>

lemma ch_send_block_sends:
  assumes "ch_lib_ok A" and "lib_block_ok A" and "lib_samples_ok A"
    and "ch_send_block A h stmt names rows broken s = ((ok, broken'), s')"
    and "fst (begin_insert A h stmt s) = Inr sample" and "one_cloned_map (block_types sample)"
    and "calls s' = calls s @ t" and "CSendInsertBlock h blk b \<in> set t"
  obtains data R where "blk = zip names (zip (block_types sample) data)" "length sample = length names"
    "enc_rows A (block_types sample) (hash_values rows) = Inr R" "length R = length rows"
    "holds_rows (block_types sample) data R" "list_all sized_type (block_types sample)"
proof -
  have p: "prepare_block A (Suc (length (calls s))) names (hash_values rows) sample = Inr blk"
    using ch_send_block_calls [OF assms(4)] assms(5,7,8) by (auto simp: insert_trace_def)
  then have len: "length sample = length names"
    by (auto simp: prepare_block_def split: if_splits)
  note sized = lib_samples_okD [OF assms(3,5)]
  from prepare_block_cases [OF assms(1,2) sized assms(6) len, of "Suc (length (calls s))" "hash_values rows"]
    p that len sized
  show thesis by auto
qed

end
