(* ===== verification/Ch_Handles.thy ===== *)
theory Ch_Handles
  imports Ch_Session
begin

text \<open>
  The pool callbacks of \<open>clickhouse_async.cpp\<close>, the release of a pooled connection, and the
  contract that a result and a batch share: both pin one connection and give it back once.
\<close>

section \<open>The pool callbacks\<close>

definition ch_pool_destructor :: "'w ch_api \<Rightarrow> nat \<Rightarrow> 'w vm \<Rightarrow> 'w vm" where
  "ch_pool_destructor A c s = ch_client_free A c s"

definition ch_pool_accept :: "nat \<Rightarrow> bool" where
  "ch_pool_accept c = True"

definition ch_pool_before_release :: "nat \<Rightarrow> 'w vm \<Rightarrow> bool" where
  "ch_pool_before_release c s = (\<not> ch_client_is_broken c s)"

text \<open>
  \<open>ZEND_ASYNC_POOL_RELEASE\<close> on a pool made with these callbacks: the pool asks
  \<open>before_release\<close> first, and runs the destructor on a connection it does not keep.
\<close>

definition pool_release :: "'w ch_api \<Rightarrow> nat \<Rightarrow> nat \<Rightarrow> 'w vm \<Rightarrow> 'w vm" where
  "pool_release A p c s =
     (let keep = ch_pool_before_release c s
      in case ext_call (abi_release A p c keep) s of
           (destroy, s1) \<Rightarrow>
             let s2 = log_call (CRelease p c keep) s1
             in if destroy then ch_pool_destructor A c s2 else s2)"

text \<open>What the code relies on: a connection that \<open>before_release\<close> turned down is destroyed.\<close>

definition abi_honours_verdict :: "'w ch_api \<Rightarrow> bool" where
  "abi_honours_verdict A \<longleftrightarrow> (\<forall>p c x. fst (abi_release A p c False x))"

section \<open>Counting releases\<close>

fun is_release_of :: "nat \<Rightarrow> nat \<Rightarrow> call \<Rightarrow> bool" where
  "is_release_of p c (CRelease p' c' keep) = (p' = p \<and> c' = c)"
| "is_release_of p c x = False"

definition releases :: "nat \<Rightarrow> nat \<Rightarrow> call list \<Rightarrow> nat" where
  "releases p c cs = length (filter (is_release_of p c) cs)"

lemma releases_append [simp]: "releases p c (cs @ ds) = releases p c cs + releases p c ds"
  by (simp add: releases_def)

lemma releases_Nil [simp]: "releases p c [] = 0"
  by (simp add: releases_def)

lemma releases_Cons [simp]:
  "releases p c (x # cs) = (if is_release_of p c x then Suc (releases p c cs) else releases p c cs)"
  by (simp add: releases_def)

lemma releases_none: "(\<And>x. x \<in> set cs \<Longrightarrow> \<not> is_release_of p c x) \<Longrightarrow> releases p c cs = 0"
  by (simp add: releases_def filter_empty_conv)

lemma ch_client_free_calls:
  "\<exists>t. calls (ch_client_free A c s) = calls s @ t \<and> (\<forall>x \<in> set t. \<exists>h. x = CDelete h)"
  by (auto simp: ch_client_free_def Let_def split: option.splits)

lemma pool_release_calls:
  "\<exists>t. calls (pool_release A p c s) = calls s @ CRelease p c (ch_pool_before_release c s) # t
    \<and> (\<forall>x \<in> set t. \<exists>h. x = CDelete h)"
proof -
  obtain d s1 where d: "ext_call (abi_release A p c (ch_pool_before_release c s)) s = (d, s1)"
    by (cases "ext_call (abi_release A p c (ch_pool_before_release c s)) s")
  moreover have "calls s1 = calls s"
    using ext_call_sel(3) [of "abi_release A p c (ch_pool_before_release c s)" s] d by simp
  ultimately show ?thesis
    using ch_client_free_calls [of A c "log_call (CRelease p c (ch_pool_before_release c s)) s1"]
    by (auto simp: pool_release_def ch_pool_destructor_def Let_def)
qed

lemma releases_pool_release:
  "releases p c (calls (pool_release A p c s)) = Suc (releases p c (calls s))"
proof -
  obtain t where t: "calls (pool_release A p c s)
      = calls s @ CRelease p c (ch_pool_before_release c s) # t" "\<forall>x \<in> set t. \<exists>h. x = CDelete h"
    using pool_release_calls by blast
  then have "releases p c t = 0"
    by (intro releases_none) auto
  with t(1) show ?thesis by simp
qed

text \<open>A broken connection does not survive its release.\<close>

lemma ch_client_free_gone: "conns (ch_client_free A c s) c = None"
  by (auto simp: ch_client_free_def Let_def split: option.splits)

lemma pool_release_broken:
  assumes "abi_honours_verdict A" and "ch_client_is_broken c s"
  shows "conns (pool_release A p c s) c = None"
proof -
  obtain d s1 where d: "ext_call (abi_release A p c False) s = (d, s1)"
    by (cases "ext_call (abi_release A p c False) s")
  then have "d"
    using assms(1) unfolding abi_honours_verdict_def ext_call_def
    by (metis (no_types, lifting) case_prod_conv fst_conv surj_pair)
  with d assms(2) show ?thesis
    by (simp add: pool_release_def ch_pool_before_release_def ch_pool_destructor_def
        ch_client_free_gone Let_def)
qed

section \<open>The contract of a handle that pins a connection\<close>

locale pooled_handle =
  fixes release :: "'h \<Rightarrow> 'v \<Rightarrow> 'h \<times> 'v"
    and released :: "'h \<Rightarrow> bool"
    and count :: "'h \<Rightarrow> 'v \<Rightarrow> nat"
  assumes release_noop: "released h \<Longrightarrow> release h v = (h, v)"
    and release_counts: "\<not> released h \<Longrightarrow> release h v = (h', v') \<Longrightarrow>
      released h' \<and> count h' v' = Suc (count h v)"
begin

text \<open>A step that gives the connection back exactly if it flips the flag.\<close>

definition balanced :: "'h \<Rightarrow> 'v \<Rightarrow> 'h \<Rightarrow> 'v \<Rightarrow> bool" where
  "balanced h v h' v' \<longleftrightarrow>
     count h' v' + of_bool (released h) = count h v + of_bool (released h') \<and>
     (released h \<longrightarrow> released h')"

lemma balanced_refl: "balanced h v h v"
  by (simp add: balanced_def)

lemma balanced_same: "count h' v' = count h v \<Longrightarrow> released h' = released h \<Longrightarrow> balanced h v h' v'"
  by (simp add: balanced_def)

lemma balanced_trans: "balanced h v h1 v1 \<Longrightarrow> balanced h1 v1 h2 v2 \<Longrightarrow> balanced h v h2 v2"
  by (simp add: balanced_def)

lemma release_released: "release h v = (h', v') \<Longrightarrow> released h'"
  using release_noop [of h v] release_counts [of h v h' v'] by (cases "released h") auto

lemma release_balanced: "release h v = (h', v') \<Longrightarrow> balanced h v h' v'"
  using release_noop [of h v] release_counts [of h v h' v'] by (cases "released h") (auto simp: balanced_def)

lemma release_twice: "release h v = (h', v') \<Longrightarrow> release h' v' = (h', v')"
  by (intro release_noop release_released)

lemma balanced_once:
  "balanced h v h' v' \<Longrightarrow> \<not> released h \<Longrightarrow> released h' \<Longrightarrow> count h' v' = Suc (count h v)"
  by (simp add: balanced_def)

lemma balanced_held:
  "balanced h v h' v' \<Longrightarrow> \<not> released h' \<Longrightarrow> count h' v' = count h v"
  by (auto simp: balanced_def)

lemma balanced_after:
  "balanced h v h' v' \<Longrightarrow> released h \<Longrightarrow> released h' \<and> count h' v' = count h v"
  by (auto simp: balanced_def)

end

end
