(* ===== verification/Ch_Pool.thy ===== *)
theory Ch_Pool
  imports Ch_Config Ch_Handles
begin

text \<open>
  The hidden connection pool of a Client: \<open>ch_pool_factory\<close>, \<open>ch_pool_ensure\<close>,
  \<open>ch_pool_acquire\<close> and \<open>ch_client_object_free\<close> of \<open>clickhouse_async.cpp\<close>.
\<close>

section \<open>The factory\<close>

text \<open>Index 0 is the primary, \<open>i\<close> the endpoint at \<open>i - 1\<close>.\<close>

definition endpoint_at :: "client_object \<Rightarrow> nat \<Rightarrow> string option \<times> u16" where
  "endpoint_at obj i =
     (if i = 0 then (obj_host obj, obj_port obj)
      else (Some (fst (obj_endpoints obj ! (i - 1))), snd (obj_endpoints obj ! (i - 1))))"

text \<open>The first endpoint to try: the strategy, and the cursor it advances.\<close>

definition choose_start :: "'w ch_api \<Rightarrow> client_object \<Rightarrow> 'w vm \<Rightarrow> nat \<times> client_object \<times> 'w vm" where
  "choose_start A obj s =
     (let n = 1 + length (obj_endpoints obj)
      in if 1 < n \<and> obj_open_strategy obj = 1
         then (unat (obj_conn_seq obj) mod n, obj\<lparr>obj_conn_seq := obj_conn_seq obj + 1\<rparr>, s)
         else if 1 < n \<and> obj_open_strategy obj = 2
         then (case ext_call (mt_rand_range A 0 (of_nat n - 1)) s of
                 (r, s1) \<Rightarrow> (unat r, obj, s1))
         else (0, obj, s))"

definition failover_list :: "client_object \<Rightarrow> nat \<Rightarrow> endpoint list" where
  "failover_list obj start =
     (let n = 1 + length (obj_endpoints obj)
      in map (\<lambda>k. case endpoint_at obj ((start + k) mod n) of
                    (host, port) \<Rightarrow> (or_default host [], port)) [1..<n])"

definition connection_config :: "client_object \<Rightarrow> nat \<Rightarrow> client_config" where
  "connection_config obj start =
     \<lparr>cfg_host = fst (endpoint_at obj start), cfg_port = snd (endpoint_at obj start),
      cfg_database = obj_database obj, cfg_user = obj_user obj, cfg_password = obj_password obj,
      cfg_compression = obj_compression obj, cfg_tls = obj_tls obj,
      cfg_tls_verify = obj_tls_verify obj, cfg_endpoints = failover_list obj start\<rparr>"

definition ch_pool_factory ::
    "'w ch_api \<Rightarrow> client_object \<Rightarrow> 'w vm \<Rightarrow> nat option \<times> client_object \<times> 'w vm" where
  "ch_pool_factory A obj s =
     (case choose_start A obj s of
        (start, obj1, s1) \<Rightarrow>
          (case ch_client_connect A (connection_config obj1 start) s1 of
             (c, s2) \<Rightarrow> (c, obj1, s2)))"

section \<open>The pool\<close>

definition ch_pool_ensure :: "'w ch_api \<Rightarrow> client_object \<Rightarrow> 'w vm \<Rightarrow> bool \<times> client_object \<times> 'w vm" where
  "ch_pool_ensure A obj s =
     (if obj_pool obj \<noteq> None then (True, obj, s)
      else (case ext_call (abi_new_pool A (unat (obj_pool_max obj))) s of
              (None, s1) \<Rightarrow>
                (False, obj,
                 if eg_exception s1 = None
                 then throw_php ConnectionException ''failed to create connection pool'' s1 else s1)
            | (Some p, s1) \<Rightarrow>
                (True, obj\<lparr>obj_pool := Some p\<rparr>, log_call (CNewPool p (unat (obj_pool_max obj))) s1)))"

text \<open>
  \<open>ZEND_ASYNC_POOL_ACQUIRE\<close> with the callbacks of the pool: an idle connection the
  before-acquire callback accepts, or one the factory opens.
\<close>

definition pool_acquire ::
    "'w ch_api \<Rightarrow> nat \<Rightarrow> client_object \<Rightarrow> 'w vm \<Rightarrow> nat option \<times> client_object \<times> 'w vm" where
  "pool_acquire A p obj s =
     (case ext_call (abi_acquire A p ch_pool_accept) s of
        (AcqIdle c, s1) \<Rightarrow> (Some c, obj, log_call (CAcquire p (Some c)) s1)
      | (AcqNew, s1) \<Rightarrow>
          (case ch_pool_factory A obj s1 of
             (c, obj1, s2) \<Rightarrow> (c, obj1, log_call (CAcquire p c) s2))
      | (AcqFail, s1) \<Rightarrow> (None, obj, log_call (CAcquire p None) s1))"

definition ch_pool_acquire ::
    "'w ch_api \<Rightarrow> client_object \<Rightarrow> 'w vm \<Rightarrow> nat option \<times> client_object \<times> 'w vm" where
  "ch_pool_acquire A obj s =
     (case ch_pool_ensure A obj s of
        (ok, obj1, s1) \<Rightarrow>
          (case obj_pool obj1 of
             Some p \<Rightarrow> if ok then pool_acquire A p obj1 s1 else (None, obj1, s1)
           | None \<Rightarrow> (None, obj1, s1)))"

text \<open>\<open>ch_client_object_free\<close>: the wrapper first, then the pool; closing it destroys its idle
  connections.\<close>

definition ch_client_object_free :: "'w ch_api \<Rightarrow> client_object \<Rightarrow> 'w vm \<Rightarrow> 'w vm" where
  "ch_client_object_free A obj s =
     (let s1 = (case obj_pool_wrapper obj of
                  None \<Rightarrow> s
                | Some w \<Rightarrow> log_call (CReleaseWrapper w) (snd (ext_call (abi_obj_release A w) s)))
      in case obj_pool obj of
           None \<Rightarrow> s1
         | Some p \<Rightarrow>
             (case ext_call (abi_close A p) s1 of
                (idle, s2) \<Rightarrow>
                  let s3 = fold (ch_pool_destructor A) idle (log_call (CClosePool p) s2)
                  in log_call (CReleasePool p) (snd (ext_call (abi_pool_event_release A p) s3))))"

section \<open>Which hosts a connection tries\<close>

text \<open>All endpoints of a Client, the primary first; and what one connection tries, in order.\<close>

definition all_endpoints :: "client_object \<Rightarrow> endpoint list" where
  "all_endpoints obj =
     (or_default (obj_host obj) [], obj_port obj) # map (\<lambda>(h, p). (c_str h, p)) (obj_endpoints obj)"

definition tried_endpoints :: "client_object \<Rightarrow> nat \<Rightarrow> endpoint list" where
  "tried_endpoints obj start =
     (or_default (cfg_host (connection_config obj start)) [], cfg_port (connection_config obj start))
       # cfg_endpoints (connection_config obj start)"

lemma length_all_endpoints [simp]: "length (all_endpoints obj) = Suc (length (obj_endpoints obj))"
  by (simp add: all_endpoints_def)

lemma endpoint_at_all:
  "i < length (all_endpoints obj) \<Longrightarrow>
    (case endpoint_at obj i of (h, p) \<Rightarrow> (or_default h [], p)) = all_endpoints obj ! i"
  by (cases i) (simp_all add: endpoint_at_def all_endpoints_def or_default_def case_prod_beta)

lemma tried_endpoints_rotate:
  assumes "start < length (all_endpoints obj)"
  shows "tried_endpoints obj start = rotate start (all_endpoints obj)"
proof (rule nth_equalityI)
  let ?n = "length (all_endpoints obj)"
  show len: "length (tried_endpoints obj start) = length (rotate start (all_endpoints obj))"
    by (simp add: tried_endpoints_def connection_config_def failover_list_def del: upt_Suc)
  fix i assume "i < length (tried_endpoints obj start)"
  with len have i: "i < ?n" by simp
  have "tried_endpoints obj start ! i
      = (case endpoint_at obj ((start + i) mod ?n) of (h, p) \<Rightarrow> (or_default h [], p))"
  proof (cases i)
    case 0
    with assms show ?thesis
      by (simp add: tried_endpoints_def connection_config_def case_prod_beta)
  next
    case (Suc k)
    with i show ?thesis
      by (simp add: tried_endpoints_def connection_config_def failover_list_def Let_def del: upt_Suc)
  qed
  also have "\<dots> = all_endpoints obj ! ((start + i) mod ?n)"
    by (rule endpoint_at_all) simp
  finally show "tried_endpoints obj start ! i = rotate start (all_endpoints obj) ! i"
    using i by (simp add: nth_rotate)
qed

text \<open>Which endpoint comes first.\<close>

lemma choose_start_in_order:
  "obj_open_strategy obj = 0 \<Longrightarrow> choose_start A obj s = (0, obj, s)"
  by (simp add: choose_start_def Let_def)

lemma choose_start_round_robin:
  assumes "obj_open_strategy obj = 1"
  shows "fst (choose_start A obj s) = unat (obj_conn_seq obj) mod length (all_endpoints obj)"
    and "snd (snd (choose_start A obj s)) = s"
    and "obj_endpoints obj \<noteq> [] \<Longrightarrow>
      fst (snd (choose_start A obj s)) = obj\<lparr>obj_conn_seq := obj_conn_seq obj + 1\<rparr>"
  using assms by (auto simp: choose_start_def Let_def)

text \<open>What the code relies on: \<open>php_mt_rand_range\<close> stays in its range.\<close>

definition rand_ok :: "'w ch_api \<Rightarrow> bool" where
  "rand_ok A \<longleftrightarrow> (\<forall>lo hi x r x'. mt_rand_range A lo hi x = (r, x') \<longrightarrow> sint lo \<le> sint hi \<longrightarrow>
     sint lo \<le> sint r \<and> sint r \<le> sint hi)"

lemma rand_okD:
  "rand_ok A \<Longrightarrow> mt_rand_range A lo hi x = (r, x') \<Longrightarrow> sint lo \<le> sint hi \<Longrightarrow>
    sint lo \<le> sint r \<and> sint r \<le> sint hi"
  unfolding rand_ok_def by metis

lemma choose_start_bound:
  assumes "rand_ok A" and "length (obj_endpoints obj) < 2 ^ 62"
  shows "fst (choose_start A obj s) < length (all_endpoints obj)"
proof (cases "obj_endpoints obj \<noteq> [] \<and> obj_open_strategy obj = 2")
  case False
  then show ?thesis
    by (auto simp: choose_start_def Let_def)
next
  case True
  define k where "k = length (obj_endpoints obj)"
  define hi :: s64 where "hi = of_nat k"
  have k: "k < 2 ^ 62" using assms(2) by (simp add: k_def)
  then have hi: "sint hi = int k"
    using sint_word_of_int_s64 [of "int k"] by (simp add: hi_def s64_range_def)
  obtain r x' where rnd: "mt_rand_range A 0 hi (eg_exception s, ext s) = (r, x')"
    by (metis surj_pair)
  from rand_okD [OF assms(1) rnd] hi have r: "0 \<le> sint r" "sint r \<le> int k"
    by simp_all
  have "uint r = sint r"
    using r k by (simp add: uint_sint take_bit_int_eq_self)
  then have "unat r \<le> k"
    using r by (simp add: unat_eq_nat_uint)
  moreover have "fst (choose_start A obj s) = unat r"
    using True by (simp add: choose_start_def Let_def ext_call_def rnd [unfolded hi_def k_def] split: prod.splits)
  ultimately show ?thesis by (simp add: k_def)
qed

text \<open>Opening connections one after the other under round robin.\<close>

fun start_sequence :: "'w ch_api \<Rightarrow> nat \<Rightarrow> client_object \<Rightarrow> 'w vm \<Rightarrow> nat list" where
  "start_sequence A 0 obj s = []"
| "start_sequence A (Suc k) obj s =
     (case choose_start A obj s of (start, obj1, s1) \<Rightarrow> start # start_sequence A k obj1 s1)"

lemma start_sequence_round_robin:
  assumes "obj_open_strategy obj = 1" and "obj_endpoints obj \<noteq> []"
    and "unat (obj_conn_seq obj) + k \<le> 2 ^ 32"
  shows "start_sequence A k obj s
    = map (\<lambda>i. (unat (obj_conn_seq obj) + i) mod length (all_endpoints obj)) [0..<k]"
  using assms
proof (induction k arbitrary: obj s)
  case (Suc k)
  let ?n = "length (all_endpoints obj)"
  let ?obj1 = "obj\<lparr>obj_conn_seq := obj_conn_seq obj + 1\<rparr>"
  have c: "choose_start A obj s = (unat (obj_conn_seq obj) mod ?n, ?obj1, s)"
    using choose_start_round_robin [OF Suc.prems(1), of A s] Suc.prems(2)
    by (metis prod.collapse)
  have all: "length (all_endpoints ?obj1) = ?n" by simp
  show ?case
  proof (cases k)
    case 0
    with c show ?thesis by simp
  next
    case (Suc j)
    with Suc.prems have seq: "unat (obj_conn_seq obj + 1) = Suc (unat (obj_conn_seq obj))"
      using unat_add_lem [of "obj_conn_seq obj" 1] by simp
    have "start_sequence A k ?obj1 s
        = map (\<lambda>i. (unat (obj_conn_seq ?obj1) + i) mod length (all_endpoints ?obj1)) [0..<k]"
      using Suc.prems seq by (intro Suc.IH) simp_all
    also have "\<dots> = map ((\<lambda>i. (unat (obj_conn_seq obj) + i) mod ?n) \<circ> Suc) [0..<k]"
      by (simp add: seq)
    also have "\<dots> = map (\<lambda>i. (unat (obj_conn_seq obj) + i) mod ?n) [1..<Suc k]"
      by (simp only: map_map [symmetric] map_Suc_upt One_nat_def)
    finally show ?thesis
      using c by (simp add: upt_conv_Cons del: upt_Suc)
  qed
qed simp

text \<open>As many connections as there are endpoints start with each of them once.\<close>

lemma start_sequence_covers:
  assumes "obj_open_strategy obj = 1" and "obj_endpoints obj \<noteq> []"
    and "unat (obj_conn_seq obj) + length (all_endpoints obj) \<le> 2 ^ 32"
  shows "map (\<lambda>i. all_endpoints obj ! i) (start_sequence A (length (all_endpoints obj)) obj s)
    = rotate (unat (obj_conn_seq obj)) (all_endpoints obj)"
proof -
  let ?n = "length (all_endpoints obj)" and ?a = "unat (obj_conn_seq obj)"
  have "map (\<lambda>i. all_endpoints obj ! i) (start_sequence A ?n obj s)
      = map (\<lambda>i. all_endpoints obj ! ((?a + i) mod ?n)) [0..<?n]"
    by (simp only: start_sequence_round_robin [OF assms] map_map comp_def)
  also have "\<dots> = rotate ?a (all_endpoints obj)"
    by (rule nth_equalityI) (simp_all add: nth_rotate del: upt_Suc)
  finally show ?thesis .
qed

section \<open>What the factory asks of the library\<close>

lemma choose_start_frame:
  assumes "choose_start A obj s = (start, obj1, s1)"
  shows "calls s1 = calls s \<and> conns s1 = conns s \<and> connection_config obj1 start = connection_config obj start
    \<and> obj_tls obj1 = obj_tls obj"
proof -
  have "connection_config (obj\<lparr>obj_conn_seq := x\<rparr>) start = connection_config obj start" for x
    by (simp add: connection_config_def failover_list_def endpoint_at_def)
  with assms show ?thesis
    by (auto simp: choose_start_def Let_def split: if_splits prod.splits dest: ext_call_frame)
qed

lemma ch_client_connect_calls:
  "\<exists>r. calls (snd (ch_client_connect A cfg s))
     = calls s @ [CConnect (client_options_of cfg) (cfg_tls cfg) (cfg_tls_verify cfg) r]"
proof (cases rule: client_call_cases [of "\<lambda>r. CConnect (client_options_of cfg) (cfg_tls cfg)
      (cfg_tls_verify cfg) (case r of Inl e \<Rightarrow> None | Inr h \<Rightarrow> Some h)"
      "cli_connect A (client_options_of cfg) (cfg_tls cfg) (cfg_tls_verify cfg)" s])
  case (error e s1)
  then show ?thesis by (simp add: ch_client_connect_def Let_def)
next
  case (normal h s1)
  then show ?thesis by (simp add: ch_client_connect_def Let_def new_conn_def)
qed

text \<open>The options name the endpoints that are tried, when no port is 0.\<close>

lemma options_endpoints:
  assumes "start < length (all_endpoints obj)" and "obj_host obj = Some hname"
    and "\<forall>(h, p) \<in> set (all_endpoints obj). p \<noteq> 0"
  shows "(opt_host (client_options_of (connection_config obj start)),
          opt_port (client_options_of (connection_config obj start)))
      # opt_endpoints (client_options_of (connection_config obj start)) = rotate start (all_endpoints obj)"
proof -
  let ?cfg = "connection_config obj start"
  have t: "tried_endpoints obj start = rotate start (all_endpoints obj)"
    by (rule tried_endpoints_rotate [OF assms(1)])
  then have "(or_default (cfg_host ?cfg) [], cfg_port ?cfg) \<in> set (all_endpoints obj)"
    by (metis list.set_intros(1) set_rotate tried_endpoints_def)
  with assms(3) have port: "cfg_port ?cfg \<noteq> 0" by auto
  have host: "or_default (cfg_host ?cfg) d = or_default (cfg_host ?cfg) []" for d
    using assms(2) by (auto simp: connection_config_def endpoint_at_def or_default_def)
  have "map (\<lambda>(h, p). (c_str h, p)) (failover_list obj start) = failover_list obj start"
    using assms(2) by (auto simp: failover_list_def endpoint_at_def or_default_def Let_def)
  then have eps: "map (\<lambda>(h, p). (c_str h, p)) (cfg_endpoints ?cfg) = cfg_endpoints ?cfg"
    by (simp add: connection_config_def)
  show ?thesis
    using port host [of "''127.0.0.1''"] t
    by (simp add: client_options_of_def tried_endpoints_def eps)
qed

lemma factory_connects:
  assumes "rand_ok A" and "length (obj_endpoints obj) < 2 ^ 62"
    and "obj_host obj = Some hname" and "\<forall>(h, p) \<in> set (all_endpoints obj). p \<noteq> 0"
  shows "\<exists>start opts r. start < length (all_endpoints obj)
    \<and> (obj_open_strategy obj = 0 \<longrightarrow> start = 0)
    \<and> calls (snd (snd (ch_pool_factory A obj s)))
        = calls s @ [CConnect opts (obj_tls obj) (obj_tls_verify obj) r]
    \<and> (opt_host opts, opt_port opts) # opt_endpoints opts = rotate start (all_endpoints obj)"
proof -
  obtain start obj1 s1 where c: "choose_start A obj s = (start, obj1, s1)"
    by (metis surj_pair)
  note f = choose_start_frame [OF c]
  let ?cfg = "connection_config obj start"
  obtain co s2 where con: "ch_client_connect A ?cfg s1 = (co, s2)"
    by (metis surj_pair)
  from ch_client_connect_calls [of A ?cfg s1] con f obtain r where
    "calls s2 = calls s @ [CConnect (client_options_of ?cfg) (cfg_tls ?cfg) (cfg_tls_verify ?cfg) r]"
    by auto
  moreover have "start < length (all_endpoints obj)"
    using choose_start_bound [OF assms(1,2), of s] c by simp
  moreover have "snd (snd (ch_pool_factory A obj s)) = s2"
    using c con f by (simp add: ch_pool_factory_def)
  moreover have "obj_open_strategy obj = 0 \<Longrightarrow> start = 0"
    using choose_start_in_order [of obj A s] c by simp
  moreover have "cfg_tls ?cfg = obj_tls obj" "cfg_tls_verify ?cfg = obj_tls_verify obj"
    by (simp_all add: connection_config_def)
  ultimately show ?thesis
    using options_endpoints [OF _ assms(3,4), of start] by auto
qed

end
