(* ===== verification/Ch_Batch.thy ===== *)
theory Ch_Batch
  imports Ch_Handles
begin

text \<open>
  The streaming batch insert of \<open>ch_client.cpp\<close>: rows accumulate in \<open>pending\<close>, each flush
  sends them as one insert, the connection stays pinned until the batch is freed.
\<close>

section \<open>The batch\<close>

record ch_batch =
  bat_conn :: nat
  bat_client :: nat
  bat_pool :: nat
  bat_statement :: string
  bat_names :: "string list"
  bat_pending :: hash_table
  bat_broken :: bool
  bat_released :: bool

definition ch_batch_release :: "'w ch_api \<Rightarrow> ch_batch \<Rightarrow> 'w vm \<Rightarrow> ch_batch \<times> 'w vm" where
  "ch_batch_release A b s =
     (if bat_released b then (b, s)
      else let s1 = (if bat_broken b then set_broken (bat_conn b) s else s)
           in (b\<lparr>bat_released := True\<rparr>, pool_release A (bat_pool b) (bat_conn b) s1))"

definition ch_batch_start ::
    "('a) php_api_scheme \<Rightarrow> nat \<Rightarrow> nat \<Rightarrow> nat \<Rightarrow> string \<Rightarrow> hash_table \<Rightarrow> ch_batch" where
  "ch_batch_start P c h p table columns =
     (case ch_build_insert_statement P table columns of
        (statement, names) \<Rightarrow>
          \<lparr>bat_conn = c, bat_client = h, bat_pool = p, bat_statement = statement,
           bat_names = names, bat_pending = [], bat_broken = False, bat_released = False\<rparr>)"

text \<open>\<open>%u\<close> of a size cast to \<open>unsigned\<close>.\<close>

definition printf_u :: "nat \<Rightarrow> string" where
  "printf_u n = dec_digits (n mod 2 ^ 32)"

definition ch_batch_append :: "ch_batch \<Rightarrow> zval \<Rightarrow> 'w vm \<Rightarrow> bool \<times> ch_batch \<times> 'w vm" where
  "ch_batch_append b row s =
     (case row of
        ZArray cells \<Rightarrow>
          if length cells \<noteq> length (bat_names b)
          then (False, b, throw_php ValueError
                  (''clickhouse: row has '' @ printf_u (length cells)
                     @ '' values but the batch has '' @ printf_u (length (bat_names b)) @ '' columns'') s)
          else (True, b\<lparr>bat_pending := add_next_index (bat_pending b) row\<rparr>, s)
      | _ \<Rightarrow> (False, b, throw_php ValueError ''clickhouse: each insert row must be an array'' s))"

definition ch_batch_flush :: "'w ch_api \<Rightarrow> ch_batch \<Rightarrow> 'w vm \<Rightarrow> bool \<times> ch_batch \<times> 'w vm" where
  "ch_batch_flush A b s =
     (if bat_pending b = [] then (True, b, s)
      else (case ch_send_block A (bat_client b) (bat_statement b) (bat_names b) (bat_pending b)
                   (bat_broken b) s of
              ((True, broken), s1) \<Rightarrow> (True, b\<lparr>bat_broken := broken, bat_pending := []\<rparr>, s1)
            | ((False, broken), s1) \<Rightarrow> (False, b\<lparr>bat_broken := broken\<rparr>, s1)))"

definition ch_batch_count :: "ch_batch \<Rightarrow> u64" where
  "ch_batch_count b = of_nat (length (bat_pending b))"

definition ch_batch_free :: "'w ch_api \<Rightarrow> ch_batch \<Rightarrow> 'w vm \<Rightarrow> 'w vm" where
  "ch_batch_free A b s = snd (ch_batch_release A b s)"

section \<open>The batch as a handle\<close>

interpretation batch: pooled_handle "ch_batch_release A" bat_released
    "\<lambda>b s. releases (bat_pool b) (bat_conn b) (calls s)" for A
proof (unfold_locales, goal_cases)
  case (2 h v h' v')
  then show ?case by (auto simp: ch_batch_release_def Let_def releases_pool_release)
qed (simp add: ch_batch_release_def)

section \<open>Appending and flushing\<close>

text \<open>What \<open>append\<close> accepts, as a predicate on the row.\<close>

definition row_fits :: "ch_batch \<Rightarrow> zval \<Rightarrow> bool" where
  "row_fits b row \<longleftrightarrow> (\<exists>cells. row = ZArray cells \<and> length cells = length (bat_names b))"

lemma ch_batch_append_fits:
  "row_fits b row \<Longrightarrow>
    ch_batch_append b row s = (True, b\<lparr>bat_pending := add_next_index (bat_pending b) row\<rparr>, s)"
  by (auto simp: row_fits_def ch_batch_append_def)

lemma ch_batch_append_rejects:
  "\<not> row_fits b row \<Longrightarrow> \<exists>msg. ch_batch_append b row s = (False, b, throw_php ValueError msg s)"
  by (cases row) (auto simp: row_fits_def ch_batch_append_def)

text \<open>\<open>pending\<close> only ever holds accepted rows, under the keys \<open>0, 1, 2, \<dots>\<close>.\<close>

definition batch_ok :: "ch_batch \<Rightarrow> bool" where
  "batch_ok b \<longleftrightarrow>
     ZArray (bat_pending b) = php_list (hash_values (bat_pending b))
     \<and> list_all (row_fits b) (hash_values (bat_pending b)) \<and> \<not> bat_released b"

lemma row_fits_pending [simp]: "row_fits (b\<lparr>bat_pending := x\<rparr>) = row_fits b"
  by (simp add: row_fits_def fun_eq_iff)

lemma row_fits_broken [simp]: "row_fits (b\<lparr>bat_broken := x\<rparr>) = row_fits b"
  by (simp add: row_fits_def fun_eq_iff)

lemma batch_ok_start: "batch_ok (ch_batch_start P c h p table columns)"
  by (simp add: batch_ok_def ch_batch_start_def php_list_def hash_values_def split: prod.splits)

lemma php_list_snoc:
  "ZArray ht = php_list (hash_values ht) \<Longrightarrow>
    ZArray (add_next_index ht v) = php_list (hash_values (add_next_index ht v))"
  by (simp add: php_list_def add_next_index_def hash_values_def)

lemma batch_ok_append:
  "batch_ok b \<Longrightarrow> ch_batch_append b row s = (ok, b', s') \<Longrightarrow> batch_ok b'"
  using ch_batch_append_fits [of b row s] ch_batch_append_rejects [of b row s]
  by (cases "row_fits b row")
    (auto simp: batch_ok_def php_list_snoc, simp_all add: hash_values_def add_next_index_def)

lemma batch_ok_flush:
  "batch_ok b \<Longrightarrow> ch_batch_flush A b s = (ok, b', s') \<Longrightarrow> batch_ok b'"
  by (auto simp: ch_batch_flush_def batch_ok_def php_list_def hash_values_def
      split: if_splits prod.splits bool.splits)

text \<open>A row that fits has a value for every column: a flush cannot fail on the shape of a row,
  only on a cell.\<close>

lemma enc_members_length:
  "length vs = length fs \<Longrightarrow>
    enc_members many few fs vs = map_res (\<lambda>(f, v). f v) (zip fs vs)"
  by (induction fs vs rule: list_induct2') auto

lemma enc_row_fits:
  assumes "row_fits b row" and "length ts = length (bat_names b)"
  shows "\<exists>cells. row = ZArray cells
    \<and> enc_row E ts row = map_res (\<lambda>(t, v). enc E t v) (zip ts (hash_values cells))"
  using assms
  by (auto simp: row_fits_def enc_row_def enc_members_length zip_map1 map_res_map case_prod_unfold)

text \<open>The two outcomes of a flush that has something to send.\<close>

lemma ch_batch_flush_cases:
  assumes "bat_pending b \<noteq> []"
  obtains (sent) broken s' where "ch_send_block A (bat_client b) (bat_statement b) (bat_names b)
        (bat_pending b) (bat_broken b) s = ((True, broken), s')"
      "ch_batch_flush A b s = (True, b\<lparr>bat_broken := broken, bat_pending := []\<rparr>, s')"
  | (failed) broken s' where "ch_send_block A (bat_client b) (bat_statement b) (bat_names b)
        (bat_pending b) (bat_broken b) s = ((False, broken), s')"
      "ch_batch_flush A b s = (False, b\<lparr>bat_broken := broken\<rparr>, s')"
proof -
  obtain ok broken s' where "ch_send_block A (bat_client b) (bat_statement b) (bat_names b)
      (bat_pending b) (bat_broken b) s = ((ok, broken), s')"
    by (metis surj_pair)
  with assms sent failed show thesis
    by (cases ok) (auto simp: ch_batch_flush_def)
qed

section \<open>The life of a batch\<close>

text \<open>The states a batch goes through: appends and flushes in any order.\<close>

inductive batch_run :: "'w ch_api \<Rightarrow> ch_batch \<Rightarrow> 'w vm \<Rightarrow> ch_batch \<Rightarrow> 'w vm \<Rightarrow> bool"
  for A b s where
  here: "batch_run A b s b s"
| append: "batch_run A b s b1 s1 \<Longrightarrow> ch_batch_append b1 row s1 = (ok, b2, s2) \<Longrightarrow>
    batch_run A b s b2 s2"
| flush: "batch_run A b s b1 s1 \<Longrightarrow> ch_batch_flush A b1 s1 = (ok, b2, s2) \<Longrightarrow>
    batch_run A b s b2 s2"

definition same_batch :: "ch_batch \<Rightarrow> ch_batch \<Rightarrow> bool" where
  "same_batch b b' \<longleftrightarrow>
     bat_conn b' = bat_conn b \<and> bat_client b' = bat_client b \<and> bat_pool b' = bat_pool b
     \<and> bat_statement b' = bat_statement b \<and> bat_names b' = bat_names b
     \<and> bat_released b' = bat_released b"

lemma ch_batch_append_frame:
  assumes "ch_batch_append b row s = (ok, b', s')"
  shows "same_batch b b' \<and> calls s' = calls s \<and> conns s' = conns s \<and> bat_broken b' = bat_broken b"
  using assms ch_batch_append_fits [of b row s] ch_batch_append_rejects [of b row s]
  by (cases "row_fits b row") (auto simp: same_batch_def)

lemma insert_trace_no_release:
  "insert_trace A h stmt names rows s ok t \<Longrightarrow> releases p c t = 0"
  by (rule releases_none) (auto simp: insert_trace_def insert_call_def list_all_iff)

lemma ch_batch_flush_frame:
  assumes "ch_batch_flush A b s = (ok, b', s')"
  shows "same_batch b b' \<and> releases p c (calls s') = releases p c (calls s)
    \<and> (session (bat_client b) (calls s) = SIdle \<longrightarrow> ok \<or> \<not> bat_broken b' \<longrightarrow>
         session (bat_client b) (calls s') = SIdle)
    \<and> (bat_broken b \<longrightarrow> bat_broken b')"
proof (cases "bat_pending b = []")
  case True
  with assms show ?thesis by (auto simp: ch_batch_flush_def same_batch_def)
next
  case False
  then show ?thesis
  proof (cases rule: ch_batch_flush_cases [of b A s])
    case (sent broken s1)
    from ch_send_block_calls [OF sent(1)] insert_trace_no_release
    have "releases p c (calls s1) = releases p c (calls s)" by fastforce
    with sent assms ch_send_block_session [OF sent(1)] ch_send_block_broken [OF sent(1)] show ?thesis
      by (auto simp: same_batch_def)
  next
    case (failed broken s1)
    from ch_send_block_calls [OF failed(1)] insert_trace_no_release
    have "releases p c (calls s1) = releases p c (calls s)" by fastforce
    with failed assms ch_send_block_session [OF failed(1)] ch_send_block_broken [OF failed(1)]
    show ?thesis by (auto simp: same_batch_def)
  qed
qed

lemma batch_run_invariant:
  assumes "batch_run A b s b' s'" and "batch_ok b" and "session (bat_client b) (calls s) = SIdle"
  shows "batch_ok b' \<and> same_batch b b' \<and> releases p c (calls s') = releases p c (calls s)
    \<and> (\<not> bat_broken b' \<longrightarrow> session (bat_client b) (calls s') = SIdle)"
  using assms
proof induction
  case here
  then show ?case by (simp add: same_batch_def)
next
  case (append b1 s1 row ok b2 s2)
  with ch_batch_append_frame [OF append(2)] batch_ok_append [OF _ append(2)] show ?case
    by (auto simp: same_batch_def)
next
  case (flush b1 s1 ok b2 s2)
  with ch_batch_flush_frame [OF flush(2), of p c] batch_ok_flush [OF _ flush(2)] show ?case
    by (auto simp: same_batch_def)
qed

text \<open>Freeing the batch gives the connection back, once, and tells the pool whether it may be
  reused.\<close>

lemma ch_batch_free_release:
  assumes "\<not> bat_released b" and "conns s (bat_conn b) = Some cl"
  shows "\<exists>t. calls (ch_batch_free A b s)
      = calls s @ CRelease (bat_pool b) (bat_conn b) (\<not> bat_broken b \<and> \<not> cl_broken cl) # t
    \<and> (\<forall>x \<in> set t. \<exists>h. x = CDelete h)"
proof -
  define s1 where "s1 = (if bat_broken b then set_broken (bat_conn b) s else s)"
  have "ch_pool_before_release (bat_conn b) s1 = (\<not> bat_broken b \<and> \<not> cl_broken cl)"
    using assms(2) by (simp add: s1_def ch_pool_before_release_def ch_client_is_broken_def)
  moreover have "calls s1 = calls s" by (simp add: s1_def)
  moreover have "ch_batch_free A b s = pool_release A (bat_pool b) (bat_conn b) s1"
    using assms(1) by (simp add: ch_batch_free_def ch_batch_release_def s1_def)
  ultimately show ?thesis
    using pool_release_calls [of A "bat_pool b" "bat_conn b" s1] by simp
qed

end
