(* ===== verification/Ch_Result.thy ===== *)
theory Ch_Result
  imports Ch_Handles
begin

text \<open>
  The lazy query result of \<open>ch_client.cpp\<close>: \<open>ch_param_value\<close> and
  \<open>ch_apply_params_settings\<close>, the handle \<open>ch_result\<close>, and \<open>ch_result_start\<close>,
  \<open>ch_result_next\<close>, \<open>ch_result_get_summary\<close> and \<open>ch_result_free\<close> with the functions they
  share.
\<close>

section \<open>Parameters and settings\<close>

fun ch_param_value :: "('a) php_api_scheme \<Rightarrow> zval \<Rightarrow> string option" where
  "ch_param_value P ZNull = None"
| "ch_param_value P (ZBool b) = Some (if b then ''true'' else ''false'')"
| "ch_param_value P v = Some (zval_get_string P v)"

text \<open>The two loops of \<open>ch_apply_params_settings\<close>: entries with an integer key (no
  \<open>zend_string\<close>) are skipped; a null table is left out.\<close>

fun set_param :: "('a) php_api_scheme \<Rightarrow> query \<Rightarrow> zkey \<times> zval \<Rightarrow> query" where
  "set_param P q (KStr name, value) =
     q\<lparr>q_params := q_params q @ [(name, ch_param_value P value)]\<rparr>"
| "set_param P q (KLong n, value) = q"

fun set_setting :: "('a) php_api_scheme \<Rightarrow> query \<Rightarrow> zkey \<times> zval \<Rightarrow> query" where
  "set_setting P q (KStr name, value) =
     q\<lparr>q_settings := q_settings q @ [(name, zval_get_string P value)]\<rparr>"
| "set_setting P q (KLong n, value) = q"

definition ch_apply_params_settings ::
    "('a) php_api_scheme \<Rightarrow> query \<Rightarrow> hash_table option \<Rightarrow> hash_table option \<Rightarrow> query" where
  "ch_apply_params_settings P q params settings =
     (let q1 = (case params of None \<Rightarrow> q | Some ht \<Rightarrow> foldl (set_param P) q ht)
      in (case settings of None \<Rightarrow> q1 | Some ht \<Rightarrow> foldl (set_setting P) q1 ht))"

lemma foldl_set_param:
  "q_params (foldl (set_param P) q ht) = q_params q @ [(k, ch_param_value P v). (KStr k, v) \<leftarrow> ht]
   \<and> q_settings (foldl (set_param P) q ht) = q_settings q \<and> q_text (foldl (set_param P) q ht) = q_text q"
proof (induction ht arbitrary: q)
  case (Cons e ht)
  then show ?case by (cases e; cases "fst e") auto
qed simp

lemma foldl_set_setting:
  "q_settings (foldl (set_setting P) q ht) = q_settings q @ [(k, zval_get_string P v). (KStr k, v) \<leftarrow> ht]
   \<and> q_params (foldl (set_setting P) q ht) = q_params q \<and> q_text (foldl (set_setting P) q ht) = q_text q"
proof (induction ht arbitrary: q)
  case (Cons e ht)
  then show ?case by (cases e; cases "fst e") auto
qed simp

lemma apply_params_settings_eq:
  "q_params (ch_apply_params_settings P q (Some params) settings)
      = q_params q @ [(k, ch_param_value P v). (KStr k, v) \<leftarrow> params]
   \<and> q_settings (ch_apply_params_settings P q params' (Some sets))
      = q_settings q @ [(k, zval_get_string P v). (KStr k, v) \<leftarrow> sets]
   \<and> q_text (ch_apply_params_settings P q params' settings) = q_text q"
  by (auto simp: ch_apply_params_settings_def foldl_set_param foldl_set_setting split: option.split)

section \<open>The handle\<close>

record ch_summary =
  read_rows :: u64
  read_bytes :: u64
  written_rows :: u64
  written_bytes :: u64
  total_rows_to_read :: u64
  sum_rows_before_limit :: u64
  has_rows_before_limit :: bool
  elapsed :: double

definition empty_summary :: ch_summary where
  "empty_summary =
     \<lparr>read_rows = 0, read_bytes = 0, written_rows = 0, written_bytes = 0, total_rows_to_read = 0,
      sum_rows_before_limit = 0, has_rows_before_limit = False, elapsed = Double 0\<rparr>"

text \<open>\<open>struct ch_result\<close>; \<open>res_cols\<close> and \<open>res_keys\<close> are the cached column references and
  name keys of the current block.\<close>

record ch_result =
  res_conn :: nat
  res_client :: nat
  res_pool :: nat
  res_cols :: "(ch_type \<times> col) list"
  res_keys :: "string list"
  res_row :: nat
  res_rows :: nat
  res_done :: bool
  res_broken :: bool
  res_released :: bool
  res_summary :: ch_summary
  res_started :: nat

text \<open>The \<open>OnProgress\<close> and \<open>OnProfile\<close> callbacks.\<close>

fun on_packet :: "packet \<Rightarrow> ch_summary \<Rightarrow> ch_summary" where
  "on_packet (Progress rows bytes wrows wbytes tot) m =
     m\<lparr>read_rows := read_rows m + rows, read_bytes := read_bytes m + bytes,
       written_rows := written_rows m + wrows, written_bytes := written_bytes m + wbytes,
       total_rows_to_read :=
         (if total_rows_to_read m < tot then tot else total_rows_to_read m)\<rparr>"
| "on_packet (Profile calculated rows) m =
     (if calculated then m\<lparr>sum_rows_before_limit := rows, has_rows_before_limit := True\<rparr> else m)"

definition deliver :: "packet list \<Rightarrow> ch_result \<Rightarrow> ch_result" where
  "deliver pks r = r\<lparr>res_summary := fold on_packet pks (res_summary r)\<rparr>"

section \<open>Releasing and finishing\<close>

definition ch_result_release :: "'w ch_api \<Rightarrow> ch_result \<Rightarrow> 'w vm \<Rightarrow> ch_result \<times> 'w vm" where
  "ch_result_release A r s =
     (if res_released r then (r, s)
      else let s1 = (if res_broken r then set_broken (res_conn r) s else s)
           in (r\<lparr>res_released := True\<rparr>, pool_release A (res_pool r) (res_conn r) s1))"

definition ch_result_finish :: "'w ch_api \<Rightarrow> ch_result \<Rightarrow> 'w vm \<Rightarrow> ch_result \<times> 'w vm" where
  "ch_result_finish A r s =
     (let r1 = (if res_done r then r
                else r\<lparr>res_done := True,
                       res_summary := (res_summary r)
                         \<lparr>elapsed := elapsed_seconds A (res_started r) (steady_now A (ext s))\<rparr>\<rparr>)
      in ch_result_release A r1 s)"

text \<open>The \<open>catch\<close> block of \<open>ch_result_start\<close> and of \<open>ch_result_next\<close>.\<close>

definition result_failed ::
    "'w ch_api \<Rightarrow> cxx_exn \<Rightarrow> ch_result \<Rightarrow> 'w vm \<Rightarrow> ch_result \<times> 'w vm" where
  "result_failed A e r s =
     (case ch_result_finish A (r\<lparr>res_broken := ch_exception_poisons_connection e\<rparr>) s of
        (r1, s1) \<Rightarrow> (r1, throw_cxx e s1))"

section \<open>Pulling blocks\<close>

definition ch_result_load_block :: "block \<Rightarrow> ch_result \<Rightarrow> ch_result" where
  "ch_result_load_block b r =
     r\<lparr>res_rows := blk_rows b, res_row := 0,
       res_cols := map (\<lambda>(n, t, c). (t, c)) (blk_cols b),
       res_keys := map (\<lambda>(n, t, c). n) (blk_cols b)\<rparr>"

fun next_outcome :: "cxx_exn + block option \<Rightarrow> next_outcome" where
  "next_outcome (Inl e) = NextFailed (exn_class e)"
| "next_outcome (Inr None) = NextEnd"
| "next_outcome (Inr (Some b)) = NextRows"

text \<open>\<open>r->client->NextBlock()\<close>, the packets it delivers on the way included.\<close>

definition next_block ::
    "'w ch_api \<Rightarrow> ch_result \<Rightarrow> 'w vm \<Rightarrow> (cxx_exn + block option) \<times> ch_result \<times> 'w vm" where
  "next_block A r s =
     (case ext_call (cli_next_block A (res_client r)) s of
        ((pks, res), s1) \<Rightarrow>
          (res, deliver pks r, log_call (CNextBlock (res_client r) (next_outcome res)) s1))"

text \<open>
  The priming loop of \<open>ch_result_start\<close>: empty blocks are skipped, the first block with rows is
  adopted, the end of the stream finishes the result. The library may deliver empty blocks for
  ever: not returning is \<open>None\<close>.
\<close>

partial_function (option) prime_loop ::
    "'w ch_api \<Rightarrow> ch_result \<Rightarrow> 'w vm \<Rightarrow> ((cxx_exn + unit) \<times> ch_result \<times> 'w vm) option" where
  [code]: "prime_loop A r s =
     (case next_block A r s of
        (Inl e, r1, s1) \<Rightarrow> Some (Inl e, r1, s1)
      | (Inr None, r1, s1) \<Rightarrow> Some (Inr (), ch_result_finish A r1 s1)
      | (Inr (Some b), r1, s1) \<Rightarrow>
          if 0 < blk_rows b then Some (Inr (), ch_result_load_block b r1, s1)
          else prime_loop A r1 s1)"

definition new_result :: "'w ch_api \<Rightarrow> nat \<Rightarrow> nat \<Rightarrow> nat \<Rightarrow> 'w vm \<Rightarrow> ch_result" where
  "new_result A c h p s =
     \<lparr>res_conn = c, res_client = h, res_pool = p, res_cols = [], res_keys = [], res_row = 0,
      res_rows = 0, res_done = False, res_broken = False, res_released = False,
      res_summary = empty_summary, res_started = steady_now A (ext s)\<rparr>"

text \<open>\<open>BeginExecute\<close>, with the packets it delivers.\<close>

definition begin_execute ::
    "'w ch_api \<Rightarrow> query \<Rightarrow> ch_result \<Rightarrow> 'w vm \<Rightarrow> (cxx_exn + unit) \<times> ch_result \<times> 'w vm" where
  "begin_execute A q r s =
     (case ext_call (cli_begin_execute A (res_client r) q) s of
        ((pks, res), s1) \<Rightarrow>
          (res, deliver pks r,
           log_call (CBeginExecute (res_client r) q
             (case res of Inl e \<Rightarrow> Some (exn_class e) | Inr u \<Rightarrow> None)) s1))"

definition ch_result_start ::
    "'w ch_api \<Rightarrow> nat \<Rightarrow> nat \<Rightarrow> nat \<Rightarrow> string \<Rightarrow> hash_table option \<Rightarrow> hash_table option \<Rightarrow> 'w vm
      \<Rightarrow> (ch_result option \<times> 'w vm) option" where
  "ch_result_start A c h p sql params settings s =
     (let q = ch_apply_params_settings A \<lparr>q_text = c_str sql, q_params = [], q_settings = []\<rparr>
                params settings
      in case begin_execute A q (new_result A c h p s) s of
           (Inl e, r1, s1) \<Rightarrow> Some (None, snd (result_failed A e r1 s1))
         | (Inr u, r1, s1) \<Rightarrow>
             (case prime_loop A r1 s1 of
                None \<Rightarrow> None
              | Some (Inl e, r2, s2) \<Rightarrow> Some (None, snd (result_failed A e r2 s2))
              | Some (Inr v, r2, s2) \<Rightarrow> Some (Some r2, s2)))"

section \<open>Pulling rows\<close>

text \<open>The column loop of \<open>ch_result_next\<close>: one row as an array keyed by column name.\<close>

definition read_row ::
    "('a) php_api_scheme \<Rightarrow> string list \<Rightarrow> (ch_type \<times> col) list \<Rightarrow> nat \<Rightarrow> cxx_exn + hash_table" where
  "read_row P keys cols row =
     fold_res (\<lambda>(key, t, c) out. rbind (column_value_to_zval P t c row) (\<lambda>value.
         Inr (zend_hash_update out (KStr key) value)))
       (zip keys cols) []"

partial_function (option) ch_result_next ::
    "'w ch_api \<Rightarrow> ch_result \<Rightarrow> 'w vm \<Rightarrow> (zval option \<times> ch_result \<times> 'w vm) option" where
  [code]: "ch_result_next A r s =
     (if res_row r < res_rows r then
        (case read_row A (res_keys r) (res_cols r) (res_row r) of
           Inl e \<Rightarrow> Some (None, result_failed A e r s)
         | Inr ht \<Rightarrow> Some (Some (ZArray ht), r\<lparr>res_row := Suc (res_row r)\<rparr>, s))
      else if res_done r then Some (None, r, s)
      else
        (case next_block A r s of
           (Inl e, r1, s1) \<Rightarrow> Some (None, result_failed A e r1 s1)
         | (Inr None, r1, s1) \<Rightarrow> Some (None, ch_result_finish A r1 s1)
         | (Inr (Some b), r1, s1) \<Rightarrow> ch_result_next A (ch_result_load_block b r1) s1))"

definition ch_result_get_summary :: "ch_result \<Rightarrow> ch_summary" where
  "ch_result_get_summary r = res_summary r"

text \<open>\<open>ch_result_free\<close>: a result that was abandoned before the end of its stream has a dirty
  connection.\<close>

definition ch_result_free :: "'w ch_api \<Rightarrow> ch_result \<Rightarrow> 'w vm \<Rightarrow> 'w vm" where
  "ch_result_free A r s =
     (if res_released r then s
      else let r1 = (if res_done r then r else r\<lparr>res_broken := True\<rparr>)
           in snd (ch_result_release A r1 s))"

end
