(* ===== verification/Row_Source.thy ===== *)
theory Row_Source
  imports Main
begin

text \<open>
  The contract between a producer of rows (\<open>ch_result_next\<close>) and its consumers
  (\<open>Result::fetchAll\<close>, a \<open>foreach\<close> over the result, a \<open>fetch\<close> loop), with the loop
  that drains a producer. A producer may fail to return (\<open>None\<close>); the contract promises it
  does.
\<close>

text \<open>\<open>while (next(&row)) list.push(row)\<close>.\<close>

partial_function (option) drain ::
    "('st \<Rightarrow> ('row option \<times> 'st) option) \<Rightarrow> 'st \<Rightarrow> 'row list \<Rightarrow> ('row list \<times> 'st) option" where
  [code]: "drain pull st acc =
     (case pull st of
        None \<Rightarrow> None
      | Some (None, st') \<Rightarrow> Some (acc, st')
      | Some (Some x, st') \<Rightarrow> drain pull st' (acc @ [x]))"

text \<open>A relation that every pull keeps and that is transitive holds between start and end.\<close>

lemma drain_rel:
  assumes "drain pull st acc = Some (xs, st')"
    and pull: "\<And>st r st'. pull st = Some (r, st') \<Longrightarrow> R st st'"
    and trans: "\<And>a b c. R a b \<Longrightarrow> R b c \<Longrightarrow> R a c"
  shows "R st st'"
proof -
  have "pull' = pull \<longrightarrow> R st (snd y)" if "drain pull' st acc = Some y" for pull' st acc y
    using that
  proof (induction pull' st acc y rule: drain.raw_induct [rotated 1, consumes 1, case_names call])
    case (call f pull' st acc y)
    note step = call(2) and ih = call(1)
    show ?case
    proof
      assume p: "pull' = pull"
      with step obtain r st1 where n: "pull st = Some (r, st1)" by (auto split: option.splits)
      show "R st (snd y)"
      proof (cases r)
        case None
        with step p n pull [OF n] show ?thesis by auto
      next
        case (Some x)
        with step p n have "f pull st1 (acc @ [x]) = Some y" by simp
        from ih [OF this] pull [OF n] trans show ?thesis by blast
      qed
    qed
  qed
  from this [OF assms(1)] show ?thesis by simp
qed

text \<open>A drain ends if every row it takes brings the producer closer to its end.\<close>

lemma drain_returns:
  assumes "wf R" and "I st"
    and step: "\<And>st. I st \<Longrightarrow> \<exists>r st'. pull st = Some (r, st') \<and> (r = None \<or> I st' \<and> (st', st) \<in> R)"
  shows "\<exists>xs st1 st'. drain pull st acc = Some (xs, st') \<and> I st1 \<and> pull st1 = Some (None, st')"
  using assms(1,2)
proof (induction st arbitrary: acc rule: wf_induct_rule)
  case (less st)
  from step [OF less.prems] obtain r st' where
    r: "pull st = Some (r, st')" "r = None \<or> I st' \<and> (st', st) \<in> R" by blast
  show ?case
  proof (cases r)
    case None
    with r less.prems show ?thesis by (subst drain.simps) auto
  next
    case (Some x)
    with r have "drain pull st acc = drain pull st' (acc @ [x])" by (subst drain.simps) simp
    with less.IH [of st' "acc @ [x]"] r(2) Some show ?thesis by simp
  qed
qed

locale row_source =
  fixes pull :: "'st \<Rightarrow> ('row option \<times> 'st) option"
    and yields :: "'st \<Rightarrow> 'row list \<Rightarrow> bool"
  assumes pull_row: "yields st (x # xs) \<Longrightarrow> \<exists>st'. pull st = Some (Some x, st') \<and> yields st' xs"
    and pull_end: "yields st [] \<Longrightarrow> \<exists>st'. pull st = Some (None, st') \<and> yields st' []"
begin

lemma drain_yields:
  assumes "yields st xs"
  shows "\<exists>st'. drain pull st acc = Some (acc @ xs, st') \<and> yields st' []"
  using assms
proof (induction xs arbitrary: st acc)
  case Nil
  then obtain st' where "pull st = Some (None, st')" "yields st' []"
    using pull_end by blast
  then show ?case by (subst drain.simps) simp
next
  case (Cons x xs)
  then obtain st' where n: "pull st = Some (Some x, st')" and y: "yields st' xs"
    using pull_row by blast
  from Cons.IH [OF y, of "acc @ [x]"] n show ?case
    by (subst drain.simps) simp
qed

text \<open>The loop ends where the producer said it has no more.\<close>

lemma drain_ends:
  assumes "yields st xs"
  shows "\<exists>st1 st'. drain pull st acc = Some (acc @ xs, st') \<and> yields st' [] \<and> pull st1 = Some (None, st')"
  using assms
proof (induction xs arbitrary: st acc)
  case Nil
  then obtain st' where "pull st = Some (None, st')" "yields st' []"
    using pull_end by blast
  then show ?case by (intro exI [of _ st] exI [of _ st']) (simp add: drain.simps)
next
  case (Cons x xs)
  then obtain st' where n: "pull st = Some (Some x, st')" and y: "yields st' xs"
    using pull_row by blast
  from Cons.IH [OF y, of "acc @ [x]"] n show ?case
    by (subst drain.simps) simp
qed

text \<open>An exhausted producer stays exhausted.\<close>

lemma drain_again:
  "yields st xs \<Longrightarrow> \<exists>st1 st2. drain pull st [] = Some (xs, st1) \<and> drain pull st1 [] = Some ([], st2)"
  using drain_yields [of st xs "[]"] drain_yields [of _ "[]" "[]"] by fastforce

text \<open>Taking \<open>k\<close> rows one by one and then draining gives the same rows.\<close>

fun take_rows :: "nat \<Rightarrow> 'st \<Rightarrow> ('row list \<times> 'st) option" where
  "take_rows 0 st = Some ([], st)"
| "take_rows (Suc k) st =
     (case pull st of
        Some (Some x, st') \<Rightarrow> map_option (\<lambda>(xs, st''). (x # xs, st'')) (take_rows k st')
      | Some (None, st') \<Rightarrow> Some ([], st')
      | None \<Rightarrow> None)"

lemma take_rows_yields:
  assumes "yields st xs"
  shows "\<exists>st'. take_rows k st = Some (take k xs, st') \<and> yields st' (drop k xs)"
  using assms
proof (induction k arbitrary: st xs)
  case (Suc k)
  show ?case
  proof (cases xs)
    case Nil
    with Suc.prems pull_end [of st] show ?thesis by auto
  next
    case (Cons x ys)
    with Suc.prems obtain st' where "pull st = Some (Some x, st')" "yields st' ys"
      using pull_row by blast
    with Suc.IH [of st' ys] Cons show ?thesis by auto
  qed
qed simp

end

end
