(* ===== verification/Ch_Stream.thy ===== *)
theory Ch_Stream
  imports Ch_Result Row_Source
begin

text \<open>
  What the result layer guarantees: the connection is given back exactly once and not touched
  afterwards, and the rows that come out are the rows of the delivered blocks, in order.
\<close>

section \<open>The result as a handle\<close>

abbreviation result_count :: "ch_result \<Rightarrow> 'w vm \<Rightarrow> nat" where
  "result_count r s \<equiv> releases (res_pool r) (res_conn r) (calls s)"

interpretation result: pooled_handle "ch_result_release A" res_released result_count for A
proof (unfold_locales, goal_cases)
  case (2 h v h' v')
  then show ?case by (auto simp: ch_result_release_def Let_def releases_pool_release)
qed (simp add: ch_result_release_def)

lemma deliver_sel [simp]:
  "res_conn (deliver pks r) = res_conn r" "res_client (deliver pks r) = res_client r"
  "res_pool (deliver pks r) = res_pool r" "res_cols (deliver pks r) = res_cols r"
  "res_keys (deliver pks r) = res_keys r" "res_row (deliver pks r) = res_row r"
  "res_rows (deliver pks r) = res_rows r" "res_done (deliver pks r) = res_done r"
  "res_broken (deliver pks r) = res_broken r" "res_released (deliver pks r) = res_released r"
  "res_summary (deliver pks r) = fold on_packet pks (res_summary r)"
  by (simp_all add: deliver_def)

lemma load_block_sel [simp]:
  "res_conn (ch_result_load_block b r) = res_conn r"
  "res_client (ch_result_load_block b r) = res_client r"
  "res_pool (ch_result_load_block b r) = res_pool r"
  "res_row (ch_result_load_block b r) = 0"
  "res_rows (ch_result_load_block b r) = blk_rows b"
  "res_done (ch_result_load_block b r) = res_done r"
  "res_broken (ch_result_load_block b r) = res_broken r"
  "res_released (ch_result_load_block b r) = res_released r"
  "res_summary (ch_result_load_block b r) = res_summary r"
  by (simp_all add: ch_result_load_block_def)

text \<open>What \<open>finish\<close> and the failure path do to the handle.\<close>

lemma ch_result_release_fst: "fst (ch_result_release A r s) = r\<lparr>res_released := True\<rparr>"
  by (cases r) (simp add: ch_result_release_def Let_def)

definition finished :: "'w ch_api \<Rightarrow> 'w vm \<Rightarrow> ch_result \<Rightarrow> ch_result" where
  "finished A s r =
     (if res_done r then r
      else r\<lparr>res_done := True,
             res_summary := (res_summary r)
               \<lparr>elapsed := elapsed_seconds A (res_started r) (steady_now A (ext s))\<rparr>\<rparr>)"

lemma finished_sel [simp]:
  "res_conn (finished A s r) = res_conn r" "res_client (finished A s r) = res_client r"
  "res_pool (finished A s r) = res_pool r" "res_cols (finished A s r) = res_cols r"
  "res_keys (finished A s r) = res_keys r" "res_row (finished A s r) = res_row r"
  "res_rows (finished A s r) = res_rows r" "res_done (finished A s r)"
  "res_broken (finished A s r) = res_broken r" "res_released (finished A s r) = res_released r"
  "(res_summary (finished A s r))\<lparr>elapsed := x\<rparr> = (res_summary r)\<lparr>elapsed := x\<rparr>"
  by (simp_all add: finished_def)

lemma ch_result_finish_eq: "ch_result_finish A r s = ch_result_release A (finished A s r) s"
  by (simp add: ch_result_finish_def finished_def)

lemma ch_result_finish_fst:
  "ch_result_finish A r s = (r', s') \<Longrightarrow> r' = (finished A s r)\<lparr>res_released := True\<rparr>"
  using ch_result_release_fst [of A "finished A s r" s] by (simp add: ch_result_finish_eq)

lemma result_failed_cases:
  assumes "result_failed A e r s = (r', s')"
  obtains s1 where
    "ch_result_finish A (r\<lparr>res_broken := ch_exception_poisons_connection e\<rparr>) s = (r', s1)"
    "s' = throw_cxx e s1"
    "r' = (finished A s (r\<lparr>res_broken := ch_exception_poisons_connection e\<rparr>))\<lparr>res_released := True\<rparr>"
proof -
  obtain r1 s1 where
    f: "ch_result_finish A (r\<lparr>res_broken := ch_exception_poisons_connection e\<rparr>) s = (r1, s1)"
    by (metis surj_pair)
  with assms have "r' = r1" "s' = throw_cxx e s1"
    by (simp_all add: result_failed_def)
  with f ch_result_finish_fst [OF f] show thesis
    by (intro that) simp_all
qed

lemma ch_result_finish_balanced:
  assumes "ch_result_finish A r s = (r', s')"
  shows "result.balanced r s r' s'"
proof -
  from assms have "result.balanced (finished A s r) s r' s'"
    by (intro result.release_balanced [of A]) (simp add: ch_result_finish_eq)
  then show ?thesis by (simp add: result.balanced_def)
qed

lemma result_failed_balanced:
  assumes "result_failed A e r s = (r', s')"
  shows "result.balanced r s r' s'"
  using assms
proof (cases rule: result_failed_cases)
  case (1 s1)
  from ch_result_finish_balanced [OF 1(1)] 1(2) show ?thesis
    by (simp add: result.balanced_def)
qed

lemma next_block_cases:
  obtains pks res s1 where "next_block A r s = (res, deliver pks r, s1)"
    "calls s1 = calls s @ [CNextBlock (res_client r) (next_outcome res)]" "conns s1 = conns s"
    "cli_next_block A (res_client r) (eg_exception s, ext s)
       = ((pks, res), (eg_exception s1, ext s1))"
proof -
  obtain pks res s0 where x: "ext_call (cli_next_block A (res_client r)) s = ((pks, res), s0)"
    by (metis surj_pair)
  with ext_call_sel [of "cli_next_block A (res_client r)" s] show thesis
    by (intro that [of res pks "log_call (CNextBlock (res_client r) (next_outcome res)) s0"])
      (auto simp: next_block_def ext_call_def split: prod.splits)
qed

lemma next_block_given:
  assumes "cli_next_block A (res_client r) (eg_exception s, ext s) = ((pks, res), x')"
  obtains s1 where "next_block A r s = (res, deliver pks r, s1)" "x' = (eg_exception s1, ext s1)"
  using assms by (cases rule: next_block_cases [of A r s]) auto

lemma next_block_balanced:
  "next_block A r s = (res, r1, s1) \<Longrightarrow> result.balanced r s r1 s1"
  by (rule next_block_cases [of A r s]) (auto intro: result.balanced_same)

text \<open>An induction rule for a call of \<open>ch_result_next\<close> that returns: one case per path.\<close>

lemma ch_result_next_induct [consumes 1, case_names row bad_row exhausted failed finished more]:
  assumes "ch_result_next A r s = Some (out, r', s')"
    and row: "\<And>r s ht. res_row r < res_rows r \<Longrightarrow>
      read_row A (res_keys r) (res_cols r) (res_row r) = Inr ht \<Longrightarrow>
      P r s (Some (ZArray ht)) (r\<lparr>res_row := Suc (res_row r)\<rparr>) s"
    and bad_row: "\<And>r s e r' s'. res_row r < res_rows r \<Longrightarrow>
      read_row A (res_keys r) (res_cols r) (res_row r) = Inl e \<Longrightarrow>
      result_failed A e r s = (r', s') \<Longrightarrow> P r s None r' s'"
    and exhausted: "\<And>r s. \<not> res_row r < res_rows r \<Longrightarrow> res_done r \<Longrightarrow> P r s None r s"
    and failed: "\<And>r s e r1 s1 r' s'. \<not> res_row r < res_rows r \<Longrightarrow> \<not> res_done r \<Longrightarrow>
      next_block A r s = (Inl e, r1, s1) \<Longrightarrow> result_failed A e r1 s1 = (r', s') \<Longrightarrow> P r s None r' s'"
    and finished: "\<And>r s r1 s1 r' s'. \<not> res_row r < res_rows r \<Longrightarrow> \<not> res_done r \<Longrightarrow>
      next_block A r s = (Inr None, r1, s1) \<Longrightarrow> ch_result_finish A r1 s1 = (r', s') \<Longrightarrow>
      P r s None r' s'"
    and more: "\<And>r s b r1 s1 out r' s'. \<not> res_row r < res_rows r \<Longrightarrow> \<not> res_done r \<Longrightarrow>
      next_block A r s = (Inr (Some b), r1, s1) \<Longrightarrow>
      P (ch_result_load_block b r1) s1 out r' s' \<Longrightarrow> P r s out r' s'"
  shows "P r s out r' s'"
proof -
  have "case y of (out, r', s') \<Rightarrow> A' = A \<longrightarrow> P r s out r' s'"
    if "ch_result_next A' r s = Some y" for A' y r s
    using that
  proof (induction A' r s y rule: ch_result_next.raw_induct [rotated 1, consumes 1, case_names call])
    case (call f A' r s y)
    note step = call(2) and ih = call(1)
    show ?case
    proof (cases "A' = A")
      case A: True
      show ?thesis
      proof (cases "res_row r < res_rows r")
        case True
        with step A show ?thesis
          by (auto split: sum.splits intro: row bad_row)
      next
        case no_row: False
        show ?thesis
        proof (cases "res_done r")
          case True
          with no_row step show ?thesis by (auto intro: exhausted)
        next
          case False
          obtain res r1 s1 where nb: "next_block A r s = (res, r1, s1)"
            by (metis surj_pair)
          show ?thesis
          proof (cases "next_outcome res")
            case NextRows
            then obtain b where "res = Inr (Some b)"
              by (cases res rule: next_outcome.cases) auto
            with nb no_row False step A ih [of A "ch_result_load_block b r1" s1 y] show ?thesis
              by (auto intro: more)
          next
            case NextEnd
            then have "res = Inr None"
              by (cases res rule: next_outcome.cases) auto
            with nb no_row False step A show ?thesis by (auto intro: finished)
          next
            case (NextFailed c)
            then obtain e where "res = Inl e"
              by (cases res rule: next_outcome.cases) auto
            with nb no_row False step A show ?thesis by (auto intro: failed)
          qed
        qed
      qed
    qed auto
  qed
  from this [OF assms(1)] show ?thesis by simp
qed

text \<open>The same for the priming loop.\<close>

lemma prime_loop_induct [consumes 1, case_names failed finished rows more]:
  assumes "prime_loop A r s = Some (out, r', s')"
    and failed: "\<And>r s e r1 s1. next_block A r s = (Inl e, r1, s1) \<Longrightarrow> P r s (Inl e) r1 s1"
    and finished: "\<And>r s r1 s1 r' s'. next_block A r s = (Inr None, r1, s1) \<Longrightarrow>
      ch_result_finish A r1 s1 = (r', s') \<Longrightarrow> P r s (Inr ()) r' s'"
    and rows: "\<And>r s b r1 s1. next_block A r s = (Inr (Some b), r1, s1) \<Longrightarrow> 0 < blk_rows b \<Longrightarrow>
      P r s (Inr ()) (ch_result_load_block b r1) s1"
    and more: "\<And>r s b r1 s1 out r' s'. next_block A r s = (Inr (Some b), r1, s1) \<Longrightarrow>
      blk_rows b = 0 \<Longrightarrow> P r1 s1 out r' s' \<Longrightarrow> P r s out r' s'"
  shows "P r s out r' s'"
proof -
  have "case y of (out, r', s') \<Rightarrow> A' = A \<longrightarrow> P r s out r' s'"
    if "prime_loop A' r s = Some y" for A' y r s
    using that
  proof (induction A' r s y rule: prime_loop.raw_induct [rotated 1, consumes 1, case_names call])
    case (call f A' r s y)
    note step = call(2) and ih = call(1)
    obtain res r1 s1 where nb: "next_block A r s = (res, r1, s1)"
      by (metis surj_pair)
    show ?case
    proof (cases "A' = A")
      case A: True
      show ?thesis
      proof (cases "next_outcome res")
        case NextRows
        then obtain b where "res = Inr (Some b)"
          by (cases res rule: next_outcome.cases) auto
        with nb step A ih [of A r1 s1 y] show ?thesis
          by (auto split: if_splits intro: more rows)
      next
        case NextEnd
        then have "res = Inr None"
          by (cases res rule: next_outcome.cases) auto
        with nb step A show ?thesis by (auto intro: finished)
      next
        case (NextFailed c)
        then obtain e where "res = Inl e"
          by (cases res rule: next_outcome.cases) auto
        with nb step A show ?thesis by (auto intro: failed)
      qed
    qed auto
  qed
  from this [OF assms(1)] show ?thesis by simp
qed

section \<open>One release, and none of the connection after it\<close>

lemma deliver_balanced [simp]: "result.balanced r s (deliver pks r) s"
  by (rule result.balanced_same) simp_all

lemma load_block_balanced [simp]: "result.balanced r s (ch_result_load_block b r) s"
  by (rule result.balanced_same) simp_all

lemma ch_result_next_balanced:
  assumes "ch_result_next A r s = Some (out, r', s')"
  shows "result.balanced r s r' s'"
  using assms
proof (induction rule: ch_result_next_induct)
  case (row r s ht)
  then show ?case by (auto intro: result.balanced_same)
next
  case (bad_row r s e r' s')
  then show ?case by (simp add: result_failed_balanced)
next
  case (exhausted r s)
  show ?case by (rule result.balanced_refl)
next
  case (failed r s e r1 s1 r' s')
  then show ?case
    by (blast intro: result.balanced_trans next_block_balanced result_failed_balanced)
next
  case (finished r s r1 s1 r' s')
  then show ?case
    by (blast intro: result.balanced_trans next_block_balanced ch_result_finish_balanced)
next
  case (more r s b r1 s1 out r' s')
  from result.balanced_trans [OF next_block_balanced [OF more(3)]
      result.balanced_trans [OF load_block_balanced more(4)]]
  show ?case .
qed

lemma prime_loop_balanced:
  assumes "prime_loop A r s = Some (out, r', s')"
  shows "result.balanced r s r' s'"
  using assms
proof (induction rule: prime_loop_induct)
  case (failed r s e r1 s1)
  then show ?case by (rule next_block_balanced)
next
  case (finished r s r1 s1 r' s')
  then show ?case
    by (blast intro: result.balanced_trans next_block_balanced ch_result_finish_balanced)
next
  case (rows r s b r1 s1)
  from result.balanced_trans [OF next_block_balanced [OF rows(1)] load_block_balanced]
  show ?case .
next
  case (more r s b r1 s1 out r' s')
  from result.balanced_trans [OF next_block_balanced [OF more(1)] more(3)] show ?case .
qed

text \<open>The handle's connection, client and pool never change; a released handle is done.\<close>

definition same_handle :: "ch_result \<Rightarrow> ch_result \<Rightarrow> bool" where
  "same_handle r r' \<longleftrightarrow>
     res_conn r' = res_conn r \<and> res_client r' = res_client r \<and> res_pool r' = res_pool r"

definition live_ok :: "ch_result \<Rightarrow> bool" where
  "live_ok r \<longleftrightarrow> (res_released r = res_done r) \<and> res_row r \<le> res_rows r"

lemma same_handle_trans [trans]: "same_handle r r1 \<Longrightarrow> same_handle r1 r2 \<Longrightarrow> same_handle r r2"
  by (simp add: same_handle_def)

lemma next_block_frame:
  assumes "next_block A r s = (res, r1, s1)"
  shows "same_handle r r1 \<and> res_released r1 = res_released r \<and> res_done r1 = res_done r
    \<and> res_row r1 = res_row r \<and> res_rows r1 = res_rows r \<and> conns s1 = conns s
    \<and> res_broken r1 = res_broken r \<and> calls s1 = calls s @ [CNextBlock (res_client r) (next_outcome res)]"
  using assms by (cases rule: next_block_cases [of A r s]) (auto simp: same_handle_def)

lemma finish_frame:
  assumes "ch_result_finish A r s = (r', s')"
  shows "same_handle r r' \<and> res_released r' \<and> res_done r' \<and> res_row r' = res_row r
    \<and> res_rows r' = res_rows r"
  using ch_result_finish_fst [OF assms] by (simp add: same_handle_def)

lemma failed_frame:
  assumes "result_failed A e r s = (r', s')"
  shows "same_handle r r' \<and> res_released r' \<and> res_done r' \<and> res_row r' = res_row r
    \<and> res_rows r' = res_rows r \<and> eg_exception s' \<noteq> None"
  using assms by (cases rule: result_failed_cases) (simp add: same_handle_def)

lemma ch_result_next_frame:
  assumes "ch_result_next A r s = Some (out, r', s')"
  shows "same_handle r r' \<and> (live_ok r \<longrightarrow> live_ok r') \<and> (res_done r \<longrightarrow> res_done r')
    \<and> (out = None \<longrightarrow> res_done r')"
  using assms
proof (induction rule: ch_result_next_induct)
  case (more r s b r1 s1 out r' s')
  from next_block_frame [OF more(3)] more(2,4) show ?case
    by (auto simp: same_handle_def live_ok_def)
qed (auto simp: live_ok_def same_handle_def dest!: next_block_frame finish_frame failed_frame)

lemma prime_loop_frame:
  assumes "prime_loop A r s = Some (out, r', s')"
  shows "same_handle r r' \<and> (is_ok out \<longrightarrow> \<not> res_done r \<longrightarrow> live_ok r \<longrightarrow> live_ok r')
    \<and> (\<not> is_ok out \<longrightarrow> res_done r' = res_done r \<and> res_released r' = res_released r)"
  using assms
proof (induction rule: prime_loop_induct)
  case (more r s b r1 s1 out r' s')
  from next_block_frame [OF more(1)] more(3) show ?case
    by (auto simp: same_handle_def live_ok_def)
qed (auto simp: live_ok_def same_handle_def dest!: next_block_frame finish_frame)

text \<open>A finished result makes no call on the connection or the pool, whatever it is asked.\<close>

lemma ch_result_next_done:
  assumes "ch_result_next A r s = Some (out, r', s')" and "res_done r" and "res_released r"
  shows "calls s' = calls s \<and> conns s' = conns s \<and> ext s' = ext s"
  using assms
proof (induction rule: ch_result_next_induct)
  case (bad_row r s e r' s')
  then show ?case
    by (cases rule: result_failed_cases [OF bad_row(3)])
      (auto simp: ch_result_finish_def ch_result_release_def)
qed auto

section \<open>The life of a result\<close>

lemma begin_execute_frame:
  assumes "begin_execute A q r s = (res, r1, s1)"
  shows "\<exists>pks. r1 = deliver pks r"
    and "calls s1 = calls s @ [CBeginExecute (res_client r) q
           (case res of Inl e \<Rightarrow> Some (exn_class e) | Inr u \<Rightarrow> None)]"
    and "conns s1 = conns s"
proof -
  obtain pks x s0 where "ext_call (cli_begin_execute A (res_client r) q) s = ((pks, x), s0)"
    by (metis surj_pair)
  with assms ext_call_sel [of "cli_begin_execute A (res_client r) q" s]
  show "\<exists>pks. r1 = deliver pks r"
    and "calls s1 = calls s @ [CBeginExecute (res_client r) q
           (case res of Inl e \<Rightarrow> Some (exn_class e) | Inr u \<Rightarrow> None)]"
    and "conns s1 = conns s"
    by (auto simp: begin_execute_def)
qed

lemma begin_execute_balanced:
  assumes "begin_execute A q r s = (res, r1, s1)"
  shows "result.balanced r s r1 s1"
  using begin_execute_frame [OF assms] by (auto intro: result.balanced_same)

lemma new_result_sel [simp]:
  "res_conn (new_result A c h p s) = c" "res_client (new_result A c h p s) = h"
  "res_pool (new_result A c h p s) = p" "\<not> res_released (new_result A c h p s)"
  "\<not> res_done (new_result A c h p s)" "\<not> res_broken (new_result A c h p s)"
  "res_row (new_result A c h p s) = 0" "res_rows (new_result A c h p s) = 0"
  "res_summary (new_result A c h p s) = empty_summary"
  by (simp_all add: new_result_def)

lemma ch_result_start_cases:
  assumes "ch_result_start A c h p sql params settings s = Some (out, s')"
  obtains (failed) e r1 s1 r2 where "out = None" "result_failed A e r1 s1 = (r2, s')"
      "result.balanced (new_result A c h p s) s r1 s1" "same_handle (new_result A c h p s) r1"
      "\<not> res_released r1"
  | (started) r where "out = Some r" "result.balanced (new_result A c h p s) s r s'"
      "same_handle (new_result A c h p s) r" "live_ok r"
proof -
  define q where "q = ch_apply_params_settings A \<lparr>q_text = c_str sql, q_params = [], q_settings = []\<rparr>
    params settings"
  obtain res r1 s1 where b: "begin_execute A q (new_result A c h p s) s = (res, r1, s1)"
    by (metis surj_pair)
  from begin_execute_frame(1) [OF b] have r1: "same_handle (new_result A c h p s) r1"
    "\<not> res_released r1" "\<not> res_done r1" "live_ok r1"
    by (auto simp: same_handle_def live_ok_def)
  note bal = begin_execute_balanced [OF b]
  show thesis
  proof (cases res)
    case (Inl e)
    obtain r2 where "result_failed A e r1 s1 = (r2, s')"
      using assms b Inl by (cases "result_failed A e r1 s1") (simp add: ch_result_start_def q_def)
    with assms b Inl show thesis
      by (intro failed [OF _ _ bal r1(1,2)]) (simp_all add: ch_result_start_def q_def)
  next
    case (Inr u)
    with assms b obtain res2 r2 s2 where l: "prime_loop A r1 s1 = Some (res2, r2, s2)"
      by (auto simp: ch_result_start_def q_def split: option.splits)
    note bal2 = result.balanced_trans [OF bal prime_loop_balanced [OF l]]
    from prime_loop_frame [OF l] r1 have r2: "same_handle (new_result A c h p s) r2"
      by (simp add: same_handle_def)
    show thesis
    proof (cases res2)
      case (Inl e)
      obtain r3 where "result_failed A e r2 s2 = (r3, s')"
        using assms b l Inl \<open>res = Inr u\<close>
        by (cases "result_failed A e r2 s2") (simp add: ch_result_start_def q_def)
      with assms b l Inl \<open>res = Inr u\<close> prime_loop_frame [OF l] r1 show thesis
        by (intro failed [OF _ _ bal2 r2]) (simp_all add: ch_result_start_def q_def)
    next
      case (Inr v)
      with assms b l \<open>res = Inr u\<close> have "out = Some r2" "s' = s2"
        by (simp_all add: ch_result_start_def q_def)
      with Inr prime_loop_frame [OF l] r1 bal2 r2 show thesis
        by (intro started [of r2]) simp_all
    qed
  qed
qed

text \<open>The states a started result goes through until it is freed.\<close>

inductive result_run :: "'w ch_api \<Rightarrow> ch_result \<Rightarrow> 'w vm \<Rightarrow> ch_result \<Rightarrow> 'w vm \<Rightarrow> bool"
  for A r s where
  here: "result_run A r s r s"
| pull: "result_run A r s r1 s1 \<Longrightarrow> ch_result_next A r1 s1 = Some (out, r2, s2) \<Longrightarrow>
    result_run A r s r2 s2"

lemma result_run_balanced:
  assumes "result_run A r s r' s'"
  shows "result.balanced r s r' s' \<and> same_handle r r' \<and> (live_ok r \<longrightarrow> live_ok r')"
  using assms
proof induction
  case here
  show ?case by (simp add: result.balanced_refl same_handle_def)
next
  case (pull r1 s1 out r2 s2)
  then show ?case
    using ch_result_next_balanced [OF pull(2)] ch_result_next_frame [OF pull(2)]
    by (auto intro: result.balanced_trans same_handle_trans)
qed

lemma ch_result_free_release:
  obtains r1 r2 where "ch_result_release A r1 s = (r2, ch_result_free A r s)"
    "res_released r1 = res_released r" "res_conn r1 = res_conn r" "res_pool r1 = res_pool r"
    "res_broken r1 = (res_broken r \<or> \<not> res_done r \<and> \<not> res_released r)"
proof (cases "res_released r")
  case True
  then show thesis
    by (intro that [of r r]) (simp_all add: ch_result_free_def ch_result_release_def)
next
  case False
  define r1 where "r1 = (if res_done r then r else r\<lparr>res_broken := True\<rparr>)"
  with False show thesis
    by (intro that [of r1 "fst (ch_result_release A r1 s)"])
      (auto simp: ch_result_free_def Let_def)
qed

text \<open>The verdict that goes with the release: only a result that was read to its end, on a
  connection nobody marked, may be reused.\<close>

lemma ch_result_release_calls:
  assumes "\<not> res_released r" and "conns s (res_conn r) = Some cl"
  shows "\<exists>t. calls (snd (ch_result_release A r s))
      = calls s @ CRelease (res_pool r) (res_conn r) (\<not> res_broken r \<and> \<not> cl_broken cl) # t
    \<and> (\<forall>x \<in> set t. \<exists>h. x = CDelete h)"
proof -
  define s1 where "s1 = (if res_broken r then set_broken (res_conn r) s else s)"
  have "ch_pool_before_release (res_conn r) s1 = (\<not> res_broken r \<and> \<not> cl_broken cl)"
    using assms(2) by (simp add: s1_def ch_pool_before_release_def ch_client_is_broken_def)
  moreover have "calls s1 = calls s" by (simp add: s1_def)
  moreover have "snd (ch_result_release A r s) = pool_release A (res_pool r) (res_conn r) s1"
    using assms(1) by (simp add: ch_result_release_def s1_def)
  ultimately show ?thesis
    using pool_release_calls [of A "res_pool r" "res_conn r" s1] by simp
qed

lemma ch_result_free_calls:
  assumes "\<not> res_released r" and "conns s (res_conn r) = Some cl"
  shows "\<exists>t. calls (ch_result_free A r s) = calls s
      @ CRelease (res_pool r) (res_conn r) (res_done r \<and> \<not> res_broken r \<and> \<not> cl_broken cl) # t
    \<and> (\<forall>x \<in> set t. \<exists>h. x = CDelete h)"
proof (cases "res_done r")
  case True
  with ch_result_release_calls [OF assms, of A] assms(1) show ?thesis
    by (simp add: ch_result_free_def)
next
  case False
  with ch_result_release_calls [of "r\<lparr>res_broken := True\<rparr>" s cl A] assms show ?thesis
    by (simp add: ch_result_free_def)
qed

lemma result_failed_calls:
  assumes "result_failed A e r s = (r', s')" and "\<not> res_released r"
    and "conns s (res_conn r) = Some cl"
  shows "\<exists>t. calls s' = calls s
      @ CRelease (res_pool r) (res_conn r) (\<not> ch_exception_poisons_connection e \<and> \<not> cl_broken cl) # t
    \<and> (\<forall>x \<in> set t. \<exists>h. x = CDelete h)"
  using assms(1)
proof (cases rule: result_failed_cases)
  case (1 s1)
  let ?r = "r\<lparr>res_broken := ch_exception_poisons_connection e\<rparr>"
  have "s1 = snd (ch_result_release A (finished A s ?r) s)"
    using 1(1) by (simp add: ch_result_finish_eq)
  with ch_result_release_calls [of "finished A s ?r" s cl A] assms(2,3) 1(2) show ?thesis
    by simp
qed

text \<open>A connection that was abandoned, or that failed in a way that poisons it, is gone.\<close>

lemma ch_result_free_abandoned:
  assumes "abi_honours_verdict A" and "\<not> res_released r" and "\<not> res_done r"
    and "conns s (res_conn r) = Some cl"
  shows "conns (ch_result_free A r s) (res_conn r) = None"
proof -
  have "ch_client_is_broken (res_conn r) (set_broken (res_conn r) s)"
    using assms(4) by (simp add: ch_client_is_broken_def)
  from pool_release_broken [OF assms(1) this] assms(2,3) show ?thesis
    by (simp add: ch_result_free_def ch_result_release_def Let_def)
qed

lemma result_life_one_release:
  assumes "ch_result_start A c h p sql params settings s = Some (Some r, s1)"
    and "result_run A r s1 r' s2"
  shows "releases p c (calls (ch_result_free A r' s2)) = Suc (releases p c (calls s))"
  using assms(1)
proof (cases rule: ch_result_start_cases)
  case (started r0)
  from result_run_balanced [OF assms(2)] started
  have b: "result.balanced (new_result A c h p s) s r' s2" and h: "same_handle (new_result A c h p s) r'"
    by (auto intro: result.balanced_trans same_handle_trans)
  obtain r1 r2 where f: "ch_result_release A r1 s2 = (r2, ch_result_free A r' s2)"
    and r1: "res_released r1 = res_released r'" "res_conn r1 = res_conn r'" "res_pool r1 = res_pool r'"
    by (rule ch_result_free_release [of A s2 r'])
  from b r1 have "result.balanced (new_result A c h p s) s r1 s2"
    by (simp add: result.balanced_def)
  from result.balanced_once [OF result.balanced_trans [OF this result.release_balanced [OF f]]]
    result.release_released [OF f] ch_result_release_fst [of A r1 s2] f r1 h
  show ?thesis by (simp add: same_handle_def)
qed simp

lemma result_failed_start_one_release:
  assumes "ch_result_start A c h p sql params settings s = Some (None, s')"
  shows "releases p c (calls s') = Suc (releases p c (calls s)) \<and> eg_exception s' \<noteq> None"
  using assms
proof (cases rule: ch_result_start_cases)
  case (failed e r1 s1 r2)
  from result.balanced_once [OF result.balanced_trans [OF failed(3) result_failed_balanced [OF failed(2)]]]
    failed_frame [OF failed(2)] failed(4)
  show ?thesis by (simp add: same_handle_def)
qed simp

end
