(* ===== verification/Ch_Rows.thy ===== *)
theory Ch_Rows
  imports Ch_Stream
begin

text \<open>
  Functional correctness of the result: the rows that \<open>ch_result_next\<close> hands out are the rows
  of the blocks the library delivers, decoded, in order; the statistics are the sums over the
  packets; the end of the stream gives the connection back.
\<close>

section \<open>Specification\<close>

text \<open>The blocks and packets the library delivers, up to the end of the stream.\<close>

inductive delivers ::
    "'w ch_api \<Rightarrow> nat \<Rightarrow> 'w io_state \<Rightarrow> block list \<Rightarrow> packet list \<Rightarrow> bool" for A h where
  no_more: "cli_next_block A h x = ((pks, Inr None), x') \<Longrightarrow> delivers A h x [] pks"
| one_more: "cli_next_block A h x = ((pks, Inr (Some b)), x') \<Longrightarrow> delivers A h x' bs pks' \<Longrightarrow>
    delivers A h x (b # bs) (pks @ pks')"

inductive_cases delivers_NilE: "delivers A h x [] pks"
inductive_cases delivers_ConsE: "delivers A h x (b # bs) pks"

text \<open>A row of a block as an array keyed by column name, from the decoded cells.\<close>

definition block_row :: "('a) php_api_scheme \<Rightarrow> block \<Rightarrow> nat \<Rightarrow> cxx_exn + zval" where
  "block_row P b i =
     rbind (map_res (\<lambda>(n, t, c). dec P t (col_cells t c ! i)) (blk_cols b)) (\<lambda>vs.
       Inr (ZArray (foldl (\<lambda>ht (n, v). zend_hash_update ht (KStr n) v) []
             (zip (map fst (blk_cols b)) vs))))"

definition block_values :: "('a) php_api_scheme \<Rightarrow> block \<Rightarrow> cxx_exn + zval list" where
  "block_values P b = map_res (block_row P b) [0..<blk_rows b]"

definition wf_block :: "block \<Rightarrow> bool" where
  "wf_block b \<longleftrightarrow> list_all (\<lambda>(n, t, c). sized_type t \<and> wf_col t (blk_rows b) c) (blk_cols b)"

text \<open>With distinct column names a row is the list of pairs of name and value.\<close>

lemma block_row_distinct:
  assumes "distinct (map fst (blk_cols b))"
  shows "block_row P b i =
     rbind (map_res (\<lambda>(n, t, c). dec P t (col_cells t c ! i)) (blk_cols b)) (\<lambda>vs.
       Inr (ZArray (zip (map (\<lambda>(n, t, c). KStr n) (blk_cols b)) vs)))"
proof (cases "map_res (\<lambda>(n, t, c). dec P t (col_cells t c ! i)) (blk_cols b)")
  case (Inr vs)
  then have len: "length vs = length (blk_cols b)"
    by (simp add: map_res_Inr_iff list_all2_lengthD)
  let ?zs = "zip (map fst (blk_cols b)) vs"
  have zs: "map (\<lambda>(n, v). (KStr n, v)) ?zs = zip (map (\<lambda>(n, t, c). KStr n) (blk_cols b)) vs"
    by (simp add: zip_map1 case_prod_unfold)
  have "map fst (map (\<lambda>(n, v). (KStr n, v)) ?zs) = map KStr (map fst ?zs)"
    by (simp add: case_prod_unfold)
  also have "map fst ?zs = map fst (blk_cols b)"
    using len by simp
  finally have "distinct (map fst (map (\<lambda>(n, v). (KStr n, v)) ?zs))"
    using assms by (simp only: distinct_map) (auto intro: inj_onI)
  from foldl_zend_hash_update_distinct [OF this, of "[]"]
  have "foldl (\<lambda>ht (n, v). zend_hash_update ht n v) [] (map (\<lambda>(n, v). (KStr n, v)) ?zs)
      = map (\<lambda>(n, v). (KStr n, v)) ?zs"
    by simp
  moreover have "foldl (\<lambda>ht (n, v). zend_hash_update ht n v) [] (map (\<lambda>(n, v). (KStr n, v)) ?zs)
      = foldl (\<lambda>ht (n, v). zend_hash_update ht (KStr n) v) [] ?zs"
    by (simp add: foldl_map case_prod_unfold)
  ultimately show ?thesis
    by (simp add: block_row_def Inr zs)
qed (simp add: block_row_def)

section \<open>Reading one row\<close>

lemma read_row_fold:
  assumes "\<And>n t c. (n, t, c) \<in> set cols \<Longrightarrow> column_value_to_zval P t c i = dec P t (col_cells t c ! i)"
  shows "fold_res (\<lambda>(key, t, c) out. rbind (column_value_to_zval P t c i) (\<lambda>value.
           Inr (zend_hash_update out (KStr key) value))) cols acc
     = rbind (map_res (\<lambda>(n, t, c). dec P t (col_cells t c ! i)) cols) (\<lambda>vs.
         Inr (foldl (\<lambda>ht (n, v). zend_hash_update ht (KStr n) v) acc (zip (map fst cols) vs)))"
  using assms
proof (induction cols arbitrary: acc)
  case (Cons x cols)
  obtain n t c where x: "x = (n, t, c)" by (cases x)
  with Cons.prems [of n t c] have e: "column_value_to_zval P t c i = dec P t (col_cells t c ! i)"
    by simp
  from Cons.prems have "column_value_to_zval P t c i = dec P t (col_cells t c ! i)"
    if "(n, t, c) \<in> set cols" for n t c
    using that by (meson list.set_intros(2))
  note ih = Cons.IH [OF this]
  show ?case
  proof (cases "dec P t (col_cells t c ! i)")
    case (Inr v)
    with e x ih show ?thesis
      by (cases "map_res (\<lambda>(n, t, c). dec P t (col_cells t c ! i)) cols") simp_all
  qed (simp add: x e)
qed simp

lemma read_row_block:
  assumes "wf_block b" and "i < blk_rows b"
  shows "read_row P (map (\<lambda>(n, t, c). n) (blk_cols b)) (map (\<lambda>(n, t, c). (t, c)) (blk_cols b)) i
     = rbind (map_res (\<lambda>(n, t, c). dec P t (col_cells t c ! i)) (blk_cols b)) (\<lambda>vs.
         Inr (foldl (\<lambda>ht (n, v). zend_hash_update ht (KStr n) v) []
               (zip (map fst (blk_cols b)) vs)))"
proof -
  have "zip (map (\<lambda>(n, t, c). n) cs) (map (\<lambda>(n, t, c). (t, c)) cs) = cs"
    for cs :: "block_column list"
    by (induction cs) auto
  moreover have "column_value_to_zval P t c i = dec P t (col_cells t c ! i)"
    if "(n, t, c) \<in> set (blk_cols b)" for n t c
    using assms that by (intro column_value_refines) (auto simp: wf_block_def list_all_iff)
  ultimately show ?thesis
    unfolding read_row_def by (simp add: read_row_fold)
qed

section \<open>The rest of a stream\<close>

text \<open>The summary without the wall-clock time, which the callbacks do not touch.\<close>

definition statistics :: "ch_summary \<Rightarrow> ch_summary" where
  "statistics m = m\<lparr>elapsed := Double 0\<rparr>"

lemma on_packet_statistics: "statistics (on_packet p m) = on_packet p (statistics m)"
  by (cases p) (simp_all add: statistics_def)

lemma on_packets_statistics: "statistics (fold on_packet pks m) = fold on_packet pks (statistics m)"
  by (induction pks arbitrary: m) (simp_all add: on_packet_statistics)

text \<open>
  \<open>result_yields A m\<close>: the rows that are left in the current block followed by those of the
  blocks still to come; \<open>m\<close> are the statistics at the end.
\<close>

definition rows_left :: "('a) php_api_scheme \<Rightarrow> ch_result \<Rightarrow> cxx_exn + zval list" where
  "rows_left P r =
     map_res (\<lambda>i. rbind (read_row P (res_keys r) (res_cols r) i) (\<lambda>ht. Inr (ZArray ht)))
       [res_row r..<res_rows r]"

definition stream_yields ::
    "'w ch_api \<Rightarrow> ch_result \<Rightarrow> 'w vm \<Rightarrow> block list \<Rightarrow> packet list \<Rightarrow> zval list \<Rightarrow> bool" where
  "stream_yields A r s bs pks xs \<longleftrightarrow>
     delivers A (res_client r) (eg_exception s, ext s) bs pks \<and> list_all wf_block bs
     \<and> (\<exists>ws. map_res (block_values A) bs = Inr ws \<and> xs = concat ws)"

definition result_yields ::
    "'w ch_api \<Rightarrow> ch_summary \<Rightarrow> ch_result \<times> 'w vm \<Rightarrow> zval list \<Rightarrow> bool" where
  "result_yields A m st xs \<longleftrightarrow>
     (case st of (r, s) \<Rightarrow>
        live_ok r \<and>
        (\<exists>vs. rows_left A r = Inr vs \<and>
          (if res_done r then xs = vs \<and> statistics (res_summary r) = m
           else \<exists>bs pks ys. stream_yields A r s bs pks ys \<and> xs = vs @ ys
             \<and> fold on_packet pks (statistics (res_summary r)) = m)))"

lemma result_yieldsI:
  assumes "live_ok r" and "\<not> res_done r" and "rows_left A r = Inr vs"
    and "stream_yields A r s bs pks ys" and "fold on_packet pks (statistics (res_summary r)) = m"
  shows "result_yields A m (r, s) (vs @ ys)"
  using assms unfolding result_yields_def by auto

lemma stream_yields_row [simp]:
  "stream_yields A (r\<lparr>res_row := k\<rparr>) s bs pks ys = stream_yields A r s bs pks ys"
  by (simp add: stream_yields_def)

lemma rows_left_load_block:
  assumes "wf_block b"
  shows "rows_left P (ch_result_load_block b r) = block_values P b"
proof -
  have "rbind (read_row P (map (\<lambda>(n, t, c). n) (blk_cols b)) (map (\<lambda>(n, t, c). (t, c)) (blk_cols b)) i)
      (\<lambda>ht. Inr (ZArray ht)) = block_row P b i" if "i < blk_rows b" for i
    using read_row_block [OF assms that, of P]
    by (cases "map_res (\<lambda>(n, t, c). dec P t (col_cells t c ! i)) (blk_cols b)")
      (simp_all add: block_row_def)
  then show ?thesis
    by (auto simp: rows_left_def block_values_def ch_result_load_block_def intro!: map_res_cong)
qed

lemma rows_left_Suc:
  assumes "res_row r < res_rows r" and "rows_left P r = Inr vs"
  obtains ht vs' where "read_row P (res_keys r) (res_cols r) (res_row r) = Inr ht"
    "vs = ZArray ht # vs'" "rows_left P (r\<lparr>res_row := Suc (res_row r)\<rparr>) = Inr vs'"
  using assms by (auto simp: rows_left_def upt_conv_Cons)

lemma rows_left_none: "\<not> res_row r < res_rows r \<Longrightarrow> rows_left P r = Inr []"
  by (simp add: rows_left_def)

text \<open>Where \<open>ch_result_next\<close> arrives when no block is left, and when one is.\<close>

lemma ch_result_next_at_end:
  assumes "\<not> res_row r < res_rows r" and "\<not> res_done r" and "live_ok r"
    and "stream_yields A r s [] pks ys"
  shows "\<exists>r' s'. ch_result_next A r s = Some (None, r', s') \<and> live_ok r' \<and> res_done r'
    \<and> rows_left A r' = Inr [] \<and> statistics (res_summary r') = fold on_packet pks (statistics (res_summary r))"
proof -
  from assms(4) obtain x' where
    n: "cli_next_block A (res_client r) (eg_exception s, ext s) = ((pks, Inr None), x')"
    by (auto simp: stream_yields_def elim: delivers_NilE)
  from n obtain s1 where nb: "next_block A r s = (Inr None, deliver pks r, s1)"
    by (rule next_block_given)
  obtain r' s' where f: "ch_result_finish A (deliver pks r) s1 = (r', s')"
    by (metis surj_pair)
  have "ch_result_next A r s = Some (None, r', s')"
    using assms(1,2) nb f by (subst ch_result_next.simps) simp
  moreover have "rows_left A r' = Inr []" "live_ok r'" "res_done r'"
    using assms(1,3) ch_result_finish_fst [OF f] by (simp_all add: rows_left_def live_ok_def)
  moreover have "statistics (res_summary r') = fold on_packet pks (statistics (res_summary r))"
    using ch_result_finish_fst [OF f] by (simp add: statistics_def [symmetric] on_packets_statistics)
      (simp add: statistics_def on_packets_statistics [unfolded statistics_def])
  ultimately show ?thesis by blast
qed

lemma ch_result_next_at_block:
  assumes "\<not> res_row r < res_rows r" and "\<not> res_done r" and "live_ok r"
    and "stream_yields A r s (b # bs) pks ys"
  shows "\<exists>r1 s1 vs ys' pks'. ch_result_next A r s = ch_result_next A r1 s1 \<and> live_ok r1 \<and> \<not> res_done r1
    \<and> rows_left A r1 = Inr vs \<and> stream_yields A r1 s1 bs pks' ys' \<and> ys = vs @ ys'
    \<and> fold on_packet pks' (statistics (res_summary r1)) = fold on_packet pks (statistics (res_summary r))"
proof -
  from assms(4) obtain pks1 pks2 x' where
    n: "cli_next_block A (res_client r) (eg_exception s, ext s) = ((pks1, Inr (Some b)), x')"
    and d: "delivers A (res_client r) x' bs pks2" "pks = pks1 @ pks2"
    by (auto simp: stream_yields_def elim: delivers_ConsE)
  from assms(4) obtain vs ws where v: "block_values A b = Inr vs" "map_res (block_values A) bs = Inr ws"
    "ys = vs @ concat ws" "wf_block b" "list_all wf_block bs"
    by (auto simp: stream_yields_def)
  from n obtain s1 where nb: "next_block A r s = (Inr (Some b), deliver pks1 r, s1)"
    and x': "x' = (eg_exception s1, ext s1)"
    by (rule next_block_given)
  let ?r1 = "ch_result_load_block b (deliver pks1 r)"
  have "ch_result_next A r s = ch_result_next A ?r1 s1"
    using assms(1,2) nb by (subst ch_result_next.simps) simp
  moreover have "live_ok ?r1" "\<not> res_done ?r1"
    using assms(2,3) by (simp_all add: live_ok_def)
  moreover have "rows_left A ?r1 = Inr vs"
    by (simp add: rows_left_load_block v(1,4))
  moreover have "stream_yields A ?r1 s1 bs pks2 (concat ws)"
    using d(1) v(2,5) x' by (simp add: stream_yields_def)
  moreover have "fold on_packet pks2 (statistics (res_summary ?r1))
      = fold on_packet pks (statistics (res_summary r))"
    by (simp add: on_packets_statistics d(2))
  ultimately show ?thesis using v(3) by blast
qed

text \<open>One call of \<open>ch_result_next\<close> on a stream with rows left, and on one without.\<close>

lemma ch_result_next_pull:
  assumes "live_ok r" and "\<not> res_done r" and "rows_left A r = Inr vs"
    and "stream_yields A r s bs pks ys" and "fold on_packet pks (statistics (res_summary r)) = m"
  shows "\<exists>r' s'. ch_result_next A r s
      = Some (case vs @ ys of [] \<Rightarrow> None | x # xs \<Rightarrow> Some x, r', s')
    \<and> result_yields A m (r', s') (tl (vs @ ys))"
  using assms
proof (induction bs arbitrary: r s vs ys pks)
  case Nil
  show ?case
  proof (cases "res_row r < res_rows r")
    case True
    from rows_left_Suc [OF True Nil.prems(3)] obtain ht vs' where
      row: "read_row A (res_keys r) (res_cols r) (res_row r) = Inr ht" "vs = ZArray ht # vs'"
        "rows_left A (r\<lparr>res_row := Suc (res_row r)\<rparr>) = Inr vs'" .
    have "ch_result_next A r s = Some (Some (ZArray ht), r\<lparr>res_row := Suc (res_row r)\<rparr>, s)"
      using True row(1) by (subst ch_result_next.simps) simp
    moreover have "result_yields A m (r\<lparr>res_row := Suc (res_row r)\<rparr>, s) (vs' @ ys)"
      using Nil.prems row(3) True by (intro result_yieldsI) (auto simp: live_ok_def)
    ultimately show ?thesis using row(2) by simp
  next
    case False
    from rows_left_none [OF False, of A] Nil.prems(3,4) have "vs = []" "ys = []"
      by (auto simp: stream_yields_def)
    with ch_result_next_at_end [OF False Nil.prems(2,1,4)] Nil.prems(5) show ?thesis
      by (auto simp: result_yields_def)
  qed
next
  case (Cons b bs)
  show ?case
  proof (cases "res_row r < res_rows r")
    case True
    from rows_left_Suc [OF True Cons.prems(3)] obtain ht vs' where
      row: "read_row A (res_keys r) (res_cols r) (res_row r) = Inr ht" "vs = ZArray ht # vs'"
        "rows_left A (r\<lparr>res_row := Suc (res_row r)\<rparr>) = Inr vs'" .
    have "ch_result_next A r s = Some (Some (ZArray ht), r\<lparr>res_row := Suc (res_row r)\<rparr>, s)"
      using True row(1) by (subst ch_result_next.simps) simp
    moreover have "result_yields A m (r\<lparr>res_row := Suc (res_row r)\<rparr>, s) (vs' @ ys)"
      using Cons.prems row(3) True by (intro result_yieldsI) (auto simp: live_ok_def)
    ultimately show ?thesis using row(2) by simp
  next
    case False
    from ch_result_next_at_block [OF False Cons.prems(2,1,4)] obtain r1 s1 vs1 ys1 pks1 where
      n: "ch_result_next A r s = ch_result_next A r1 s1" and p: "live_ok r1" "\<not> res_done r1"
        "rows_left A r1 = Inr vs1" "stream_yields A r1 s1 bs pks1 ys1" and ys: "ys = vs1 @ ys1"
      and m: "fold on_packet pks1 (statistics (res_summary r1)) = fold on_packet pks (statistics (res_summary r))"
      by blast
    from Cons.IH [OF p] m Cons.prems(5) n ys rows_left_none [OF False, of A] Cons.prems(3)
    show ?thesis by simp
  qed
qed

lemma result_yields_step:
  assumes "result_yields A m (r, s) xs"
  shows "\<exists>r' s'. ch_result_next A r s = Some (case xs of [] \<Rightarrow> None | x # ys \<Rightarrow> Some x, r', s')
    \<and> result_yields A m (r', s') (tl xs)"
proof (cases "res_done r")
  case False
  with assms obtain vs bs pks ys where "live_ok r" "rows_left A r = Inr vs"
    "stream_yields A r s bs pks ys" "xs = vs @ ys" "fold on_packet pks (statistics (res_summary r)) = m"
    by (auto simp: result_yields_def)
  with ch_result_next_pull [of r A vs s bs pks ys m] False show ?thesis by simp
next
  case True
  with assms have y: "live_ok r" "rows_left A r = Inr xs" "statistics (res_summary r) = m"
    by (auto simp: result_yields_def)
  show ?thesis
  proof (cases "res_row r < res_rows r")
    case row: True
    from rows_left_Suc [OF row y(2)] obtain ht vs' where
      r: "read_row A (res_keys r) (res_cols r) (res_row r) = Inr ht" "xs = ZArray ht # vs'"
        "rows_left A (r\<lparr>res_row := Suc (res_row r)\<rparr>) = Inr vs'" .
    have "ch_result_next A r s = Some (Some (ZArray ht), r\<lparr>res_row := Suc (res_row r)\<rparr>, s)"
      using row r(1) by (subst ch_result_next.simps) simp
    moreover have "result_yields A m (r\<lparr>res_row := Suc (res_row r)\<rparr>, s) vs'"
      using y r True row by (simp add: result_yields_def live_ok_def)
    ultimately show ?thesis using r(2) by simp
  next
    case False
    with y rows_left_none [OF False, of A] have "xs = []" by simp
    moreover have "ch_result_next A r s = Some (None, r, s)"
      using False True by (subst ch_result_next.simps) simp
    ultimately show ?thesis using assms by simp
  qed
qed

text \<open>The result layer provides the contract of a row source.\<close>

interpretation rows: row_source "\<lambda>(r, s). ch_result_next A r s" "result_yields A m" for A m
proof unfold_locales
  fix st x xs assume "result_yields A m st (x # xs)"
  with result_yields_step [of A m "fst st" "snd st" "x # xs"]
  show "\<exists>st'. (case st of (r, s) \<Rightarrow> ch_result_next A r s) = Some (Some x, st')
      \<and> result_yields A m st' xs"
    by (auto simp: case_prod_beta)
next
  fix st assume "result_yields A m st []"
  with result_yields_step [of A m "fst st" "snd st" "[]"]
  show "\<exists>st'. (case st of (r, s) \<Rightarrow> ch_result_next A r s) = Some (None, st')
      \<and> result_yields A m st' []"
    by (auto simp: case_prod_beta)
qed

section \<open>From the start of a query\<close>

lemma prime_loop_yields:
  assumes "res_row r = 0" and "res_rows r = 0" and "\<not> res_done r" and "\<not> res_released r"
    and "stream_yields A r s bs pks ys" and "fold on_packet pks (statistics (res_summary r)) = m"
  shows "\<exists>r' s'. prime_loop A r s = Some (Inr (), r', s') \<and> result_yields A m (r', s') ys"
  using assms
proof (induction bs arbitrary: r s pks ys)
  case Nil
  have "\<not> res_row r < res_rows r" "live_ok r"
    using Nil.prems by (simp_all add: live_ok_def)
  from Nil.prems(5) obtain x' where
    n: "cli_next_block A (res_client r) (eg_exception s, ext s) = ((pks, Inr None), x')"
    and ys: "ys = []"
    by (auto simp: stream_yields_def elim: delivers_NilE)
  from n obtain s1 where nb: "next_block A r s = (Inr None, deliver pks r, s1)"
    by (rule next_block_given)
  obtain r' s' where f: "ch_result_finish A (deliver pks r) s1 = (r', s')"
    by (metis surj_pair)
  have "prime_loop A r s = Some (Inr (), r', s')"
    using nb f by (subst prime_loop.simps) simp
  moreover have "statistics (res_summary r') = statistics (res_summary (deliver pks r))"
    using ch_result_finish_fst [OF f] by (simp add: statistics_def)
  then have "result_yields A m (r', s') ys"
    using ch_result_finish_fst [OF f] Nil.prems ys
    by (simp add: result_yields_def rows_left_def live_ok_def on_packets_statistics)
  ultimately show ?case by blast
next
  case (Cons b bs)
  from Cons.prems(5) obtain pks1 pks2 x' where
    n: "cli_next_block A (res_client r) (eg_exception s, ext s) = ((pks1, Inr (Some b)), x')"
    and d: "delivers A (res_client r) x' bs pks2" "pks = pks1 @ pks2"
    by (auto simp: stream_yields_def elim: delivers_ConsE)
  from Cons.prems(5) obtain vs ws where v: "block_values A b = Inr vs" "map_res (block_values A) bs = Inr ws"
    "ys = vs @ concat ws" "wf_block b" "list_all wf_block bs"
    by (auto simp: stream_yields_def)
  from n obtain s1 where nb: "next_block A r s = (Inr (Some b), deliver pks1 r, s1)"
    and x': "x' = (eg_exception s1, ext s1)"
    by (rule next_block_given)
  have rest: "stream_yields A (deliver pks1 r) s1 bs pks2 (concat ws)"
    using d(1) v(2,5) x' by (simp add: stream_yields_def)
  have m: "fold on_packet pks2 (statistics (res_summary (deliver pks1 r))) = m"
    using Cons.prems(6) by (simp add: on_packets_statistics d(2))
  show ?case
  proof (cases "blk_rows b = 0")
    case True
    with v(1,3) have "ys = concat ws"
      by (simp add: block_values_def)
    moreover have "prime_loop A r s = prime_loop A (deliver pks1 r) s1"
      using nb True by (subst prime_loop.simps) simp
    ultimately show ?thesis
      using Cons.IH [of "deliver pks1 r" s1 pks2 "concat ws"] Cons.prems(1-4) rest m by simp
  next
    case False
    let ?r1 = "ch_result_load_block b (deliver pks1 r)"
    have "prime_loop A r s = Some (Inr (), ?r1, s1)"
      using nb False by (subst prime_loop.simps) simp
    moreover have "result_yields A m (?r1, s1) (vs @ concat ws)"
    proof (rule result_yieldsI)
      show "rows_left A ?r1 = Inr vs" by (simp add: rows_left_load_block v(1,4))
      show "stream_yields A ?r1 s1 bs pks2 (concat ws)"
        using rest by (simp add: stream_yields_def)
      show "fold on_packet pks2 (statistics (res_summary ?r1)) = m"
        using m by simp
    qed (use Cons.prems in \<open>simp_all add: live_ok_def\<close>)
    ultimately show ?thesis using v(3) by blast
  qed
qed

lemma ch_result_start_yields:
  assumes "cli_begin_execute A h (ch_apply_params_settings A
        \<lparr>q_text = c_str sql, q_params = [], q_settings = []\<rparr> params settings) (eg_exception s, ext s)
      = ((pks0, Inr ()), x1)"
    and "delivers A h x1 bs pks" and "list_all wf_block bs"
    and "map_res (block_values A) bs = Inr ws"
  shows "\<exists>r s'. ch_result_start A c h p sql params settings s = Some (Some r, s')
    \<and> result_yields A (fold on_packet (pks0 @ pks) empty_summary) (r, s') (concat ws)"
proof -
  define q where "q = ch_apply_params_settings A \<lparr>q_text = c_str sql, q_params = [], q_settings = []\<rparr>
    params settings"
  let ?r0 = "new_result A c h p s"
  define s1 where "s1 = log_call (CBeginExecute h q None) (s\<lparr>eg_exception := fst x1, ext := snd x1\<rparr>)"
  have b: "begin_execute A q ?r0 s = (Inr (), deliver pks0 ?r0, s1)"
    using assms(1)
    by (simp add: begin_execute_def ext_call_def q_def [symmetric] s1_def split: prod.splits)
  have x1: "x1 = (eg_exception s1, ext s1)"
    by (simp add: s1_def)
  have y: "stream_yields A (deliver pks0 ?r0) s1 bs pks (concat ws)"
    using assms(2-4) x1 by (simp add: stream_yields_def)
  have m: "fold on_packet pks (statistics (res_summary (deliver pks0 ?r0)))
      = fold on_packet (pks0 @ pks) empty_summary"
    by (simp add: on_packets_statistics) (simp add: statistics_def empty_summary_def)
  from prime_loop_yields [OF _ _ _ _ y m] obtain r s' where
    "prime_loop A (deliver pks0 ?r0) s1 = Some (Inr (), r, s')"
    "result_yields A (fold on_packet (pks0 @ pks) empty_summary) (r, s') (concat ws)"
    by auto
  with b show ?thesis
    by (simp add: ch_result_start_def q_def)
qed

text \<open>A drained result has given its connection back.\<close>

lemma result_yields_drained:
  assumes "result_yields A m (r, s) xs" and "drain (\<lambda>(r, s). ch_result_next A r s) (r, s) [] = Some (ys, r', s')"
  shows "ys = xs \<and> result_yields A m (r', s') []"
  using rows.drain_yields [OF assms(1), of "[]"] assms(2) by auto

section \<open>The statistics\<close>

text \<open>What the callbacks have counted: the counters are the sums over the progress packets, modulo
  \<open>2 ^ 64\<close>, the total is the largest one reported, and the last profile packet with a calculated
  count decides the rows before the limit.\<close>

lemma on_packets_sums:
  "read_rows (fold on_packet pks m) = read_rows m + sum_list (map p_rows (filter is_Progress pks))"
  "read_bytes (fold on_packet pks m) = read_bytes m + sum_list (map p_bytes (filter is_Progress pks))"
  "written_rows (fold on_packet pks m)
     = written_rows m + sum_list (map p_written_rows (filter is_Progress pks))"
  "written_bytes (fold on_packet pks m)
     = written_bytes m + sum_list (map p_written_bytes (filter is_Progress pks))"
proof (induction pks arbitrary: m)
  case (Cons p pks)
  {
    case 1 then show ?case using Cons.IH by (cases p) (simp_all add: ac_simps)
  next
    case 2 then show ?case using Cons.IH by (cases p) (simp_all add: ac_simps)
  next
    case 3 then show ?case using Cons.IH by (cases p) (simp_all add: ac_simps)
  next
    case 4 then show ?case using Cons.IH by (cases p) (simp_all add: ac_simps)
  }
qed simp_all

lemma on_packets_total_rows:
  "total_rows_to_read (fold on_packet pks m)
     = fold max (map p_total_rows (filter is_Progress pks)) (total_rows_to_read m)"
proof (induction pks arbitrary: m)
  case (Cons p pks)
  have "total_rows_to_read (on_packet p m)
      = (if is_Progress p then max (p_total_rows p) (total_rows_to_read m) else total_rows_to_read m)"
    by (cases p) (auto simp: max_def not_less)
  with Cons show ?case by simp
qed simp

definition limit_counts :: "packet list \<Rightarrow> u64 list" where
  "limit_counts pks = [n. Profile calculated n \<leftarrow> pks, calculated]"

lemma on_packets_limit:
  "(has_rows_before_limit (fold on_packet pks m) = (has_rows_before_limit m \<or> limit_counts pks \<noteq> []))
   \<and> sum_rows_before_limit (fold on_packet pks m)
      = (if limit_counts pks = [] then sum_rows_before_limit m else last (limit_counts pks))"
proof (induction pks arbitrary: m)
  case (Cons p pks)
  then show ?case by (cases p) (simp_all add: limit_counts_def)
qed (simp add: limit_counts_def)

end
