(* ===== verification/Ch_Api.thy ===== *)
theory Ch_Api
  imports Ch_Pool Ch_Batch Ch_Rows
begin

text \<open>
  The PHP classes of \<open>clickhouse_async.cpp\<close>: the \<open>Result\<close> and \<open>Batch\<close> objects with
  their methods, and the methods of \<open>Client\<close>. The value of a method is what its body puts into
  \<open>return_value\<close>; whether it reaches the caller is for \<open>php_return\<close> to say, because the engine
  destroys it when an exception is pending. A method that may not return (a server that
  sends empty blocks for ever) gives an option.
\<close>

section \<open>The Client and its references\<close>

text \<open>One Client object with its reference count: the user's reference and one per Result or
  Batch that keeps it alive. \<open>OBJ_RELEASE\<close> frees it at zero.\<close>

record 'w app =
  app_client :: client_object
  app_refs :: nat
  app_vm :: "'w vm"

definition obj_release :: "'w ch_api \<Rightarrow> 'w app \<Rightarrow> 'w app" where
  "obj_release A a =
     (if app_refs a = 1
      then a\<lparr>app_refs := 0, app_vm := ch_client_object_free A (app_client a) (app_vm a)\<rparr>
      else a\<lparr>app_refs := app_refs a - 1\<rparr>)"

section \<open>Result\<close>

record result_object =
  ro_result :: "ch_result option"
  ro_client :: bool
  ro_current :: "zval option"
  ro_pos :: s64
  ro_valid :: bool
  ro_started :: bool

definition ch_result_object_create :: result_object where
  "ch_result_object_create =
     \<lparr>ro_result = None, ro_client = False, ro_current = None, ro_pos = - 1, ro_valid = False,
      ro_started = False\<rparr>"

text \<open>\<open>obj->result != NULL && ch_result_next(obj->result, &row)\<close>.\<close>

definition pull_row ::
    "'w ch_api \<Rightarrow> result_object \<Rightarrow> 'w vm \<Rightarrow> (zval option \<times> result_object \<times> 'w vm) option" where
  "pull_row A obj s =
     (case ro_result obj of
        None \<Rightarrow> Some (None, obj, s)
      | Some r \<Rightarrow>
          (case ch_result_next A r s of
             None \<Rightarrow> None
           | Some (row, r', s') \<Rightarrow> Some (row, obj\<lparr>ro_result := Some r'\<rparr>, s')))"

definition ch_result_object_advance ::
    "'w ch_api \<Rightarrow> result_object \<Rightarrow> 'w vm \<Rightarrow> (result_object \<times> 'w vm) option" where
  "ch_result_object_advance A obj s =
     (case pull_row A (obj\<lparr>ro_current := None\<rparr>) s of
        None \<Rightarrow> None
      | Some (Some row, obj', s') \<Rightarrow>
          Some (obj'\<lparr>ro_current := Some row, ro_valid := True, ro_pos := ro_pos obj' + 1\<rparr>, s')
      | Some (None, obj', s') \<Rightarrow> Some (obj'\<lparr>ro_valid := False\<rparr>, s'))"

definition result_fetch ::
    "'w ch_api \<Rightarrow> result_object \<Rightarrow> 'w vm \<Rightarrow> (zval \<times> result_object \<times> 'w vm) option" where
  "result_fetch A obj s =
     (case pull_row A obj s of
        None \<Rightarrow> None
      | Some (Some row, obj', s') \<Rightarrow> Some (row, obj', s')
      | Some (None, obj', s') \<Rightarrow> Some (ZNull, obj', s'))"

definition result_fetchAll ::
    "'w ch_api \<Rightarrow> result_object \<Rightarrow> 'w vm \<Rightarrow> (zval \<times> result_object \<times> 'w vm) option" where
  "result_fetchAll A obj s =
     (case ro_result obj of
        None \<Rightarrow> Some (php_list [], obj, s)
      | Some r \<Rightarrow>
          (case drain (\<lambda>(r, s). ch_result_next A r s) (r, s) [] of
             None \<Rightarrow> None
           | Some (rows, r', s') \<Rightarrow> Some (php_list rows, obj\<lparr>ro_result := Some r'\<rparr>, s')))"

text \<open>\<open>fetchOne\<close>: the entry at index 0, else the entry at the internal pointer, which is the
  first.\<close>

definition first_value :: "hash_table \<Rightarrow> zval" where
  "first_value ht =
     (case zend_hash_find ht (KLong 0) of
        Some v \<Rightarrow> v
      | None \<Rightarrow> (case hash_values ht of v # vs \<Rightarrow> v | [] \<Rightarrow> ZNull))"

definition result_fetchOne ::
    "'w ch_api \<Rightarrow> result_object \<Rightarrow> 'w vm \<Rightarrow> (zval \<times> result_object \<times> 'w vm) option" where
  "result_fetchOne A obj s =
     (case pull_row A obj s of
        None \<Rightarrow> None
      | Some (Some (ZArray ht), obj', s') \<Rightarrow> Some (first_value ht, obj', s')
      | Some (_, obj', s') \<Rightarrow> Some (ZNull, obj', s'))"

definition object_summary :: "result_object \<Rightarrow> ch_summary" where
  "object_summary obj =
     (case ro_result obj of None \<Rightarrow> empty_summary | Some r \<Rightarrow> ch_result_get_summary r)"

definition result_affectedRows :: "result_object \<Rightarrow> s64" where
  "result_affectedRows obj = written_rows (object_summary obj)"

text \<open>\<open>ch_make_summary\<close>: the properties of a \<open>Summary\<close> object; \<open>None\<close> is PHP's null.\<close>

record summary_object =
  so_readRows :: s64
  so_readBytes :: s64
  so_writtenRows :: s64
  so_writtenBytes :: s64
  so_totalRowsToRead :: s64
  so_rowsBeforeLimit :: "s64 option"
  so_elapsed :: double

definition ch_make_summary :: "result_object \<Rightarrow> summary_object" where
  "ch_make_summary obj =
     (let m = object_summary obj
      in \<lparr>so_readRows = read_rows m, so_readBytes = read_bytes m, so_writtenRows = written_rows m,
          so_writtenBytes = written_bytes m, so_totalRowsToRead = total_rows_to_read m,
          so_rowsBeforeLimit =
            (if has_rows_before_limit m then Some (sum_rows_before_limit m) else None),
          so_elapsed = elapsed m\<rparr>)"

definition result_summary :: "result_object \<Rightarrow> summary_object" where
  "result_summary obj = ch_make_summary obj"

text \<open>The \<open>Iterator\<close> methods.\<close>

definition result_rewind ::
    "'w ch_api \<Rightarrow> result_object \<Rightarrow> 'w vm \<Rightarrow> (result_object \<times> 'w vm) option" where
  "result_rewind A obj s =
     (if ro_started obj then Some (obj, s)
      else ch_result_object_advance A (obj\<lparr>ro_started := True\<rparr>) s)"

definition result_valid :: "result_object \<Rightarrow> bool" where
  "result_valid obj = ro_valid obj"

definition result_current :: "result_object \<Rightarrow> zval" where
  "result_current obj =
     (if ro_valid obj then (case ro_current obj of Some v \<Rightarrow> v | None \<Rightarrow> ZNull) else ZNull)"

definition result_key :: "result_object \<Rightarrow> s64" where
  "result_key obj = ro_pos obj"

definition result_next ::
    "'w ch_api \<Rightarrow> result_object \<Rightarrow> 'w vm \<Rightarrow> (result_object \<times> 'w vm) option" where
  "result_next A obj s = ch_result_object_advance A obj s"

text \<open>The connection first, the reference to the Client after it.\<close>

definition ch_result_object_free :: "'w ch_api \<Rightarrow> result_object \<Rightarrow> 'w app \<Rightarrow> 'w app" where
  "ch_result_object_free A obj a =
     (let a1 = (case ro_result obj of
                  None \<Rightarrow> a
                | Some r \<Rightarrow> a\<lparr>app_vm := ch_result_free A r (app_vm a)\<rparr>)
      in if ro_client obj then obj_release A a1 else a1)"

section \<open>Batch\<close>

record batch_object =
  bo_batch :: "ch_batch option"
  bo_client :: bool

definition ch_batch_object_create :: batch_object where
  "ch_batch_object_create = \<lparr>bo_batch = None, bo_client = False\<rparr>"

definition ch_batch_object_free :: "'w ch_api \<Rightarrow> batch_object \<Rightarrow> 'w app \<Rightarrow> 'w app" where
  "ch_batch_object_free A obj a =
     (let a1 = (case bo_batch obj of
                  None \<Rightarrow> a
                | Some b \<Rightarrow> a\<lparr>app_vm := ch_batch_free A b (app_vm a)\<rparr>)
      in if bo_client obj then obj_release A a1 else a1)"

definition not_constructed :: string where
  "not_constructed =
     ns @ ''Batch cannot be constructed directly; use Client::insertBatch()''"

text \<open>\<open>ch_batch_this\<close>: an object without a batch throws an \<open>Error\<close>.\<close>

definition ch_batch_this :: "batch_object \<Rightarrow> 'w vm \<Rightarrow> ch_batch option \<times> 'w vm" where
  "ch_batch_this obj s =
     (case bo_batch obj of
        None \<Rightarrow> (None, throw_php PhpError not_constructed s)
      | Some b \<Rightarrow> (Some b, s))"

definition batch_append :: "batch_object \<Rightarrow> hash_table \<Rightarrow> 'w vm \<Rightarrow> batch_object \<times> 'w vm" where
  "batch_append obj row s =
     (case ch_batch_this obj s of
        (None, s1) \<Rightarrow> (obj, s1)
      | (Some b, s1) \<Rightarrow>
          (case ch_batch_append b (ZArray row) s1 of
             (ok, b', s2) \<Rightarrow> (obj\<lparr>bo_batch := Some b'\<rparr>, s2)))"

definition batch_flush :: "'w ch_api \<Rightarrow> batch_object \<Rightarrow> 'w vm \<Rightarrow> batch_object \<times> 'w vm" where
  "batch_flush A obj s =
     (case ch_batch_this obj s of
        (None, s1) \<Rightarrow> (obj, s1)
      | (Some b, s1) \<Rightarrow>
          (case ch_batch_flush A b s1 of
             (ok, b', s2) \<Rightarrow> (obj\<lparr>bo_batch := Some b'\<rparr>, s2)))"

text \<open>\<open>None\<close> is the thrown error.\<close>

definition batch_count :: "batch_object \<Rightarrow> 'w vm \<Rightarrow> s64 option \<times> 'w vm" where
  "batch_count obj s =
     (case ch_batch_this obj s of
        (None, s1) \<Rightarrow> (None, s1)
      | (Some b, s1) \<Rightarrow> (Some (ch_batch_count b), s1))"

section \<open>Client\<close>

definition query_settings :: "hash_table option \<Rightarrow> hash_table option" where
  "query_settings options =
     (case options of
        None \<Rightarrow> None
      | Some ht \<Rightarrow> (case zend_hash_find ht (KStr ''settings'') of Some (ZArray t) \<Rightarrow> Some t | _ \<Rightarrow> None))"

text \<open>The common prologue of the methods: a connection, its library client and the pool. The code
  dereferences the connection it was given; one that does not exist has no counterpart there, and
  \<open>idle_lives\<close> excludes it.\<close>

definition with_connection ::
    "'w ch_api \<Rightarrow> 'w app \<Rightarrow> (nat \<times> nat \<times> nat) option \<times> 'w app" where
  "with_connection A a =
     (case ch_pool_acquire A (app_client a) (app_vm a) of
        (c, obj1, s1) \<Rightarrow>
          let a1 = a\<lparr>app_client := obj1, app_vm := s1\<rparr>
          in (case (c, obj_pool obj1) of
                (Some c, Some p) \<Rightarrow>
                  (case conns s1 c of
                     Some cl \<Rightarrow> (Some (c, cl_client cl, p), a1)
                   | None \<Rightarrow> (None, a1))
              | _ \<Rightarrow> (None, a1)))"

definition client_query ::
    "'w ch_api \<Rightarrow> string \<Rightarrow> hash_table option \<Rightarrow> hash_table option \<Rightarrow> 'w app
      \<Rightarrow> (result_object option \<times> 'w app) option" where
  "client_query A sql params options a =
     (case with_connection A a of
        (None, a1) \<Rightarrow> Some (None, a1)
      | (Some (c, h, p), a1) \<Rightarrow>
          (case ch_result_start A c h p sql params (query_settings options) (app_vm a1) of
             None \<Rightarrow> None
           | Some (None, s2) \<Rightarrow> Some (None, a1\<lparr>app_vm := s2\<rparr>)
           | Some (Some r, s2) \<Rightarrow>
               Some (Some (ch_result_object_create\<lparr>ro_result := Some r, ro_client := True\<rparr>),
                     a1\<lparr>app_vm := s2, app_refs := app_refs a1 + 1\<rparr>)))"

text \<open>\<open>Client::insert\<close> gives whether it succeeded.\<close>

definition client_insert ::
    "'w ch_api \<Rightarrow> string \<Rightarrow> hash_table \<Rightarrow> hash_table \<Rightarrow> 'w app \<Rightarrow> bool \<times> 'w app" where
  "client_insert A table columns rows a =
     (case with_connection A a of
        (None, a1) \<Rightarrow> (False, a1)
      | (Some (c, h, p), a1) \<Rightarrow>
          (case ch_client_insert A c table columns rows (app_vm a1) of
             (ok, s2) \<Rightarrow> (ok, a1\<lparr>app_vm := pool_release A p c s2\<rparr>)))"

definition client_insertBatch ::
    "'w ch_api \<Rightarrow> string \<Rightarrow> hash_table \<Rightarrow> 'w app \<Rightarrow> batch_object option \<times> 'w app" where
  "client_insertBatch A table columns a =
     (case with_connection A a of
        (None, a1) \<Rightarrow> (None, a1)
      | (Some (c, h, p), a1) \<Rightarrow>
          (Some (ch_batch_object_create
             \<lparr>bo_batch := Some (ch_batch_start A c h p table columns), bo_client := True\<rparr>),
           a1\<lparr>app_refs := app_refs a1 + 1\<rparr>))"

definition client_getPool :: "'w ch_api \<Rightarrow> 'w app \<Rightarrow> nat option \<times> 'w app" where
  "client_getPool A a =
     (case ch_pool_ensure A (app_client a) (app_vm a) of
        (ok, obj1, s1) \<Rightarrow>
          let a1 = a\<lparr>app_client := obj1, app_vm := s1\<rparr>
          in if \<not> ok then (None, a1)
             else (case obj_pool_wrapper obj1 of
                     Some w \<Rightarrow> (Some w, a1)
                   | None \<Rightarrow>
                       (case obj_pool obj1 of
                          None \<Rightarrow> (None, a1)
                        | Some p \<Rightarrow>
                            (case ext_call (abi_new_pool_obj A p) s1 of
                               (None, s2) \<Rightarrow>
                                 (None, a1\<lparr>app_vm := throw_php ClickHouseException
                                              ''failed to create pool wrapper'' s2\<rparr>)
                             | (Some w, s2) \<Rightarrow>
                                 (Some w, a1\<lparr>app_client := obj1\<lparr>obj_pool_wrapper := Some w\<rparr>,
                                             app_vm := s2\<rparr>)))))"

section \<open>Consuming a result\<close>

lemma pull_row_yields:
  assumes "ro_result obj = Some r" and "result_yields A m (r, s) xs"
  shows "\<exists>r' s'. pull_row A obj s
      = Some (case xs of [] \<Rightarrow> None | x # ys \<Rightarrow> Some x, obj\<lparr>ro_result := Some r'\<rparr>, s')
    \<and> result_yields A m (r', s') (tl xs)"
  using result_yields_step [OF assms(2)] assms(1) by (auto simp: pull_row_def)

lemma fetchAll_yields:
  assumes "ro_result obj = Some r" and "result_yields A m (r, s) xs"
  shows "\<exists>r' s'. result_fetchAll A obj s = Some (php_list xs, obj\<lparr>ro_result := Some r'\<rparr>, s')
    \<and> result_yields A m (r', s') []"
  using rows.drain_yields [OF assms(2), of "[]"] assms(1) by (auto simp: result_fetchAll_def)

text \<open>\<open>foreach ($result as $key => $row)\<close> as the engine runs it over the methods.\<close>

partial_function (option) foreach_loop ::
    "'w ch_api \<Rightarrow> result_object \<Rightarrow> 'w vm \<Rightarrow> (s64 \<times> zval) list
      \<Rightarrow> ((s64 \<times> zval) list \<times> result_object \<times> 'w vm) option" where
  [code]: "foreach_loop A obj s acc =
     (if \<not> result_valid obj then Some (acc, obj, s)
      else
        (case result_next A obj s of
           None \<Rightarrow> None
         | Some (obj', s') \<Rightarrow>
             foreach_loop A obj' s' (acc @ [(result_key obj, result_current obj)])))"

definition foreach_result ::
    "'w ch_api \<Rightarrow> result_object \<Rightarrow> 'w vm \<Rightarrow> ((s64 \<times> zval) list \<times> result_object \<times> 'w vm) option" where
  "foreach_result A obj s =
     (case result_rewind A obj s of
        None \<Rightarrow> None
      | Some (obj', s') \<Rightarrow> foreach_loop A obj' s' [])"

text \<open>The state of the iterator between two rows: the row it holds, and the rows to come.\<close>

definition iterator_at ::
    "'w ch_api \<Rightarrow> ch_summary \<Rightarrow> result_object \<Rightarrow> 'w vm \<Rightarrow> nat \<Rightarrow> zval list \<Rightarrow> bool" where
  "iterator_at A m obj s k xs \<longleftrightarrow>
     (\<exists>r. ro_result obj = Some r \<and> result_yields A m (r, s) (tl xs)) \<and>
     (case xs of
        [] \<Rightarrow> \<not> ro_valid obj
      | x # ys \<Rightarrow> ro_valid obj \<and> ro_current obj = Some x \<and> ro_pos obj = of_nat k)"

lemma advance_iterator:
  assumes "ro_result obj = Some r" and "result_yields A m (r, s) xs" and "ro_pos obj + 1 = of_nat k"
  shows "\<exists>obj' s'. ch_result_object_advance A obj s = Some (obj', s') \<and> iterator_at A m obj' s' k xs
    \<and> ro_started obj' = ro_started obj"
proof -
  have "ro_result (obj\<lparr>ro_current := None\<rparr>) = Some r" using assms(1) by simp
  from pull_row_yields [OF this assms(2)] assms(3) show ?thesis
    by (cases xs) (auto simp: ch_result_object_advance_def iterator_at_def)
qed

lemma foreach_loop_rows:
  assumes "iterator_at A m obj s k xs"
  shows "\<exists>obj' s'. foreach_loop A obj s acc
      = Some (acc @ zip (map of_nat [k..<k + length xs]) xs, obj', s')
    \<and> iterator_at A m obj' s' (k + length xs) [] \<and> ro_started obj' = ro_started obj"
  using assms
proof (induction xs arbitrary: obj s k acc)
  case Nil
  then show ?case
    by (subst foreach_loop.simps) (auto simp: iterator_at_def result_valid_def)
next
  case (Cons x xs)
  then obtain r where r: "ro_result obj = Some r" "result_yields A m (r, s) xs"
    and o: "ro_valid obj" "ro_current obj = Some x" "ro_pos obj = of_nat k"
    by (auto simp: iterator_at_def)
  have "ro_pos obj + 1 = of_nat (Suc k)" using o(3) by simp
  from advance_iterator [OF r this] obtain obj1 s1 where
    n: "ch_result_object_advance A obj s = Some (obj1, s1)" "ro_started obj1 = ro_started obj"
    and i: "iterator_at A m obj1 s1 (Suc k) xs"
    by blast
  from Cons.IH [OF i, of "acc @ [(of_nat k, x)]"] n o show ?case
    by (subst foreach_loop.simps)
      (simp add: result_valid_def result_next_def result_key_def result_current_def
        upt_conv_Cons del: upt_Suc)
qed

lemma foreach_yields:
  assumes "ro_result obj = Some r" and "result_yields A m (r, s) xs"
    and "\<not> ro_started obj" and "ro_pos obj = - 1"
  shows "\<exists>obj' s'. foreach_result A obj s = Some (zip (map of_nat [0..<length xs]) xs, obj', s')
    \<and> iterator_at A m obj' s' (length xs) [] \<and> ro_started obj'"
proof -
  have "ro_result (obj\<lparr>ro_started := True\<rparr>) = Some r" "ro_pos (obj\<lparr>ro_started := True\<rparr>) + 1 = of_nat 0"
    using assms by simp_all
  from advance_iterator [OF this(1) assms(2) this(2)] obtain obj1 s1 where
    "ch_result_object_advance A (obj\<lparr>ro_started := True\<rparr>) s = Some (obj1, s1)"
    "iterator_at A m obj1 s1 0 xs" "ro_started obj1" by auto
  with foreach_loop_rows [of A m obj1 s1 0 xs "[]"] assms(3) show ?thesis
    by (simp add: foreach_result_def result_rewind_def)
qed

text \<open>An exhausted result.\<close>

lemma fetchAll_drained:
  assumes "ro_result obj = Some r" and "result_yields A m (r, s) xs"
  shows "\<exists>r' s'. result_fetchAll A obj s = Some (php_list xs, obj\<lparr>ro_result := Some r'\<rparr>, s')
    \<and> res_done r' \<and> res_released r' \<and> statistics (res_summary r') = m"
proof -
  from rows.drain_ends [OF assms(2), of "[]"] obtain st st' where
    d: "drain (\<lambda>(r, s). ch_result_next A r s) (r, s) [] = Some (xs, st')"
    and y: "result_yields A m st' []" and l: "(\<lambda>(r, s). ch_result_next A r s) st = Some (None, st')"
    by auto
  obtain r' s' where st': "st' = (r', s')" by (cases st')
  from l st' have "res_done r'"
    using ch_result_next_frame [of A "fst st" "snd st" None r' s'] by (simp add: case_prod_beta)
  with y d st' assms(1) show ?thesis
    by (auto simp: result_yields_def live_ok_def result_fetchAll_def)
qed

lemma foreach_twice:
  assumes "ro_result obj = Some r" and "result_yields A m (r, s) xs"
    and "\<not> ro_started obj" and "ro_pos obj = - 1"
  shows "\<exists>obj' s'. foreach_result A obj s = Some (zip (map of_nat [0..<length xs]) xs, obj', s')
    \<and> foreach_result A obj' s' = Some ([], obj', s')"
proof -
  from foreach_yields [OF assms] obtain obj' s' where
    f: "foreach_result A obj s = Some (zip (map of_nat [0..<length xs]) xs, obj', s')"
    and i: "\<not> ro_valid obj'" "ro_started obj'" by (auto simp: iterator_at_def)
  then have "foreach_result A obj' s' = Some ([], obj', s')"
    by (simp add: foreach_result_def result_rewind_def foreach_loop.simps result_valid_def)
  with f show ?thesis by blast
qed

text \<open>The first column of a row, when its name occurs once.\<close>

lemma first_value_row:
  assumes "distinct (map fst (blk_cols b))" and "blk_cols b = (n, t, c) # cols"
    and "block_row P b i = Inr (ZArray ht)"
  shows "dec P t (col_cells t c ! i) = Inr (first_value ht)"
proof -
  from assms(3) [unfolded block_row_distinct [OF assms(1)]] assms(2) obtain v vs where
    v: "dec P t (col_cells t c ! i) = Inr v"
    and ht: "ht = zip (map (\<lambda>(n, t, c). KStr n) (blk_cols b)) (v # vs)"
    by auto
  have "zend_hash_find ht (KLong 0) = None"
    by (auto simp: ht zend_hash_find_def map_of_eq_None_iff dest!: set_zip_leftD)
  with v ht assms(2) show ?thesis
    by (simp add: first_value_def hash_values_def)
qed

section \<open>Keeping the pool alive\<close>

text \<open>Freeing a Result gives its connection back before the Client, and with it the pool, can go
  away.\<close>

fun is_teardown :: "call \<Rightarrow> bool" where
  "is_teardown (CDelete h) = True"
| "is_teardown (CClosePool p) = True"
| "is_teardown (CReleasePool p) = True"
| "is_teardown (CReleaseWrapper w) = True"
| "is_teardown x = False"

definition only_teardown :: "'w vm \<Rightarrow> 'w vm \<Rightarrow> bool" where
  "only_teardown s s' \<longleftrightarrow> (\<exists>t. calls s' = calls s @ t \<and> list_all is_teardown t)"

lemma only_teardown_refl [simp]: "only_teardown s s"
  by (simp add: only_teardown_def)

lemma only_teardown_trans: "only_teardown s s1 \<Longrightarrow> only_teardown s1 s2 \<Longrightarrow> only_teardown s s2"
  by (auto simp: only_teardown_def)

lemma only_teardown_call: "is_teardown c \<Longrightarrow> only_teardown s (log_call c (snd (ext_call f s)))"
  by (simp add: only_teardown_def)

lemma only_teardown_destructor: "only_teardown s (ch_pool_destructor A c s)"
  by (auto simp: ch_pool_destructor_def ch_client_free_def only_teardown_def Let_def
      split: option.splits)

lemma only_teardown_destructors: "only_teardown s (fold (ch_pool_destructor A) cs s)"
proof (induction cs arbitrary: s)
  case (Cons c cs)
  from only_teardown_trans [OF only_teardown_destructor Cons] show ?case by simp
qed simp

lemma ch_client_object_free_teardown: "only_teardown s (ch_client_object_free A obj s)"
proof -
  define s1 where "s1 = (case obj_pool_wrapper obj of
      None \<Rightarrow> s
    | Some w \<Rightarrow> log_call (CReleaseWrapper w) (snd (ext_call (abi_obj_release A w) s)))"
  have s1: "only_teardown s s1"
    by (simp add: s1_def only_teardown_call split: option.split)
  show ?thesis
  proof (cases "obj_pool obj")
    case None
    with s1 show ?thesis by (simp add: ch_client_object_free_def s1_def)
  next
    case (Some p)
    obtain idle s2 where c: "ext_call (abi_close A p) s1 = (idle, s2)"
      by (metis surj_pair)
    define s3 where "s3 = fold (ch_pool_destructor A) idle (log_call (CClosePool p) s2)"
    have "only_teardown s1 (log_call (CClosePool p) s2)"
      using only_teardown_call [of "CClosePool p" s1 "abi_close A p"] c by simp
    then have "only_teardown s s3"
      unfolding s3_def using s1 only_teardown_destructors by (blast intro: only_teardown_trans)
    from only_teardown_trans [OF this only_teardown_call [of "CReleasePool p" s3]] show ?thesis
      by (simp add: ch_client_object_free_def s1_def [symmetric] Some c s3_def [symmetric] Let_def)
  qed
qed

lemma obj_release_teardown: "only_teardown (app_vm a) (app_vm (obj_release A a))"
  by (simp add: obj_release_def ch_client_object_free_teardown)

lemma result_object_free_order:
  assumes "ro_result obj = Some r" and "\<not> res_released r"
    and "conns (app_vm a) (res_conn r) = Some cl"
  shows "\<exists>t. calls (app_vm (ch_result_object_free A obj a))
      = calls (app_vm a)
        @ CRelease (res_pool r) (res_conn r) (res_done r \<and> \<not> res_broken r \<and> \<not> cl_broken cl) # t
    \<and> list_all is_teardown t"
proof -
  let ?a1 = "a\<lparr>app_vm := ch_result_free A r (app_vm a)\<rparr>"
  from ch_result_free_calls [OF assms(2,3), of A] obtain t where
    t: "calls (app_vm ?a1) = calls (app_vm a)
      @ CRelease (res_pool r) (res_conn r) (res_done r \<and> \<not> res_broken r \<and> \<not> cl_broken cl) # t"
    "\<forall>x \<in> set t. \<exists>h. x = CDelete h" by auto
  moreover from t(2) have "list_all is_teardown t"
    by (auto simp: list_all_iff)
  moreover have "ch_result_object_free A obj a = (if ro_client obj then obj_release A ?a1 else ?a1)"
    by (simp add: ch_result_object_free_def assms(1))
  ultimately show ?thesis
    using obj_release_teardown [of ?a1 A] by (auto simp: only_teardown_def)
qed

end
