(* ===== verification/Ch_Transport.thy ===== *)
theory Ch_Transport
  imports Ch_Engine
begin

text \<open>
  The transport of \<open>ch_transport.cpp\<close>: waiting for a socket through the reactor, the
  non-blocking \<open>recv\<close>/\<open>send\<close> loops of the plaintext streams, the TLS streams over
  \<open>php_stream\<close>, and the socket factory, on both platforms the shims know.
\<close>

section \<open>The platform\<close>

text \<open>\<open>PHP_WIN32\<close> and the shims it selects: the error codes, and the type of the length that
  \<open>recv\<close> and \<open>send\<close> take, which is an \<open>int\<close> on Windows.\<close>

datatype platform = Posix | Win32

datatype sock_error = EINTR | EAGAIN | EWOULDBLOCK | WSAEINTR | WSAEWOULDBLOCK | EOther int

fun CH_SOCK_EINTR :: "platform \<Rightarrow> sock_error" where
  "CH_SOCK_EINTR Win32 = WSAEINTR"
| "CH_SOCK_EINTR Posix = EINTR"

fun CH_SOCK_EAGAIN :: "platform \<Rightarrow> sock_error" where
  "CH_SOCK_EAGAIN Win32 = WSAEWOULDBLOCK"
| "CH_SOCK_EAGAIN Posix = EAGAIN"

fun CH_SOCK_EWOULDBLOCK :: "platform \<Rightarrow> sock_error" where
  "CH_SOCK_EWOULDBLOCK Win32 = WSAEWOULDBLOCK"
| "CH_SOCK_EWOULDBLOCK Posix = EWOULDBLOCK"

fun CH_SOCK_IOLEN :: "platform \<Rightarrow> nat \<Rightarrow> int" where
  "CH_SOCK_IOLEN Win32 len = sint (word_of_nat len :: s32)"
| "CH_SOCK_IOLEN Posix len = int len"

text \<open>Narrowing never makes the length longer; below 2 GiB it is exact.\<close>

lemma signed_take_bit_le: "0 \<le> k \<Longrightarrow> signed_take_bit n k \<le> (k :: int)"
proof (cases "k < 2 ^ n")
  case True
  moreover assume "0 \<le> k"
  ultimately show ?thesis by (simp add: signed_take_bit_int_eq_self)
next
  case False
  then show ?thesis using signed_take_bit_int_less_eq [of n k] by (simp add: order_trans)
qed

lemma of_nat_sint32: "sint (word_of_nat len :: s32) = signed_take_bit 31 (int len)"
  by (simp add: signed_of_nat)

lemma CH_SOCK_IOLEN_le: "CH_SOCK_IOLEN p len \<le> int len"
  by (cases p) (simp_all add: of_nat_sint32 signed_take_bit_le)

lemma CH_SOCK_IOLEN_exact: "len < 2 ^ 31 \<Longrightarrow> CH_SOCK_IOLEN p len = int len"
  by (cases p) (simp_all add: of_nat_sint32 signed_take_bit_int_eq_self)

section \<open>The foreign calls\<close>

datatype poll_events = ASYNC_READABLE | ASYNC_WRITABLE

text \<open>The log of the transport: what was created, released, handed over, and moved.\<close>

datatype net_call =
    NNewEvent "nat option"
  | NEventRelease nat
  | NWakerNew
  | NResumeWhen nat
  | NWakerClean
  | NSuspend bool
  | NRecv int
  | NSend "u8 list" int
  | NSetFl int
  | NSetNonblock

record 'w net =
  n_eg :: "php_exn option"
  n_ext :: 'w
  n_log :: "net_call list"

text \<open>
  The platform, the reactor calls of the TrueAsync ABI, \<open>recv\<close>, \<open>send\<close>, \<open>fcntl\<close> and
  \<open>ioctlsocket\<close> with \<open>FIONBIO\<close>, and the stream functions of PHP. \<open>recv\<close> takes the length the
  platform passes and gives its return value, the bytes it stored and what
  \<open>CH_SOCK_LAST_ERROR\<close> reads after it; \<open>send\<close> takes what the pointer points to and the length,
  and gives its return value and that error. \<open>xport_create\<close> gives the stream, if any, and the
  error text, if any.
\<close>

record 'w net_api =
  os :: platform
  abi_current_coroutine :: "'w \<Rightarrow> nat option"
  abi_new_socket_event :: "nat \<Rightarrow> poll_events \<Rightarrow> ('w, nat option) io"
  abi_event_release :: "nat \<Rightarrow> ('w, unit) io"
  abi_waker_new :: "nat \<Rightarrow> nat \<Rightarrow> ('w, unit) io"
  abi_resume_when :: "nat \<Rightarrow> nat \<Rightarrow> ('w, unit) io"
  abi_waker_clean :: "nat \<Rightarrow> ('w, unit) io"
  abi_suspend :: "('w, bool) io"
  sys_recv :: "nat \<Rightarrow> int \<Rightarrow> ('w, int \<times> u8 list \<times> sock_error) io"
  sys_send :: "nat \<Rightarrow> u8 list \<Rightarrow> int \<Rightarrow> ('w, int \<times> sock_error) io"
  sys_getfl :: "nat \<Rightarrow> ('w, int) io"
  sys_setfl :: "nat \<Rightarrow> int \<Rightarrow> ('w, unit) io"
  sys_ioctl_nonblocking :: "nat \<Rightarrow> ('w, unit) io"
  o_nonblock :: int
  stream_read :: "nat \<Rightarrow> nat \<Rightarrow> ('w, int \<times> u8 list) io"
  stream_write :: "nat \<Rightarrow> u8 list \<Rightarrow> ('w, int) io"
  stream_close :: "nat \<Rightarrow> ('w, unit) io"
  xport_create :: "string \<Rightarrow> bool \<Rightarrow> bool \<Rightarrow> ('w, nat option \<times> string option) io"

definition net_call :: "('a \<Rightarrow> net_call) \<Rightarrow> ('w, 'a) io \<Rightarrow> 'w net \<Rightarrow> 'a \<times> 'w net" where
  "net_call c f s =
     (case f (n_eg s, n_ext s) of
        (x, eg, w) \<Rightarrow> (x, \<lparr>n_eg = eg, n_ext = w, n_log = n_log s @ [c x]\<rparr>))"

lemma net_call_cases:
  obtains x s' where "net_call c f s = (x, s')" "n_log s' = n_log s @ [c x]"
    "f (n_eg s, n_ext s) = (x, n_eg s', n_ext s')"
proof -
  obtain x eg w where f: "f (n_eg s, n_ext s) = (x, eg, w)"
    by (cases "f (n_eg s, n_ext s)")
  then show thesis
    by (intro that [of x "\<lparr>n_eg = eg, n_ext = w, n_log = n_log s @ [c x]\<rparr>"])
      (simp_all add: net_call_def)
qed

section \<open>Waiting for a socket\<close>

definition ch_await_socket ::
    "'w net_api \<Rightarrow> nat \<Rightarrow> poll_events \<Rightarrow> nat \<Rightarrow> 'w net \<Rightarrow> bool \<times> 'w net" where
  "ch_await_socket N fd events timeout s =
     (case abi_current_coroutine N (n_ext s) of
        None \<Rightarrow> (False, s)
      | Some coroutine \<Rightarrow>
          (case net_call NNewEvent (abi_new_socket_event N fd events) s of
             (None, s1) \<Rightarrow> (False, s1)
           | (Some ev, s1) \<Rightarrow>
               if n_eg s1 \<noteq> None then (False, s1)
               else
                 let s2 = snd (net_call (\<lambda>_. NWakerNew) (abi_waker_new N coroutine timeout) s1)
                 in if n_eg s2 \<noteq> None
                    then (False, snd (net_call (\<lambda>_. NEventRelease ev) (abi_event_release N ev) s2))
                    else
                      let s3 = snd (net_call (\<lambda>_. NResumeWhen ev) (abi_resume_when N coroutine ev) s2)
                      in if n_eg s3 \<noteq> None
                         then (False, snd (net_call (\<lambda>_. NWakerClean) (abi_waker_clean N coroutine) s3))
                         else
                           (case net_call NSuspend (abi_suspend N) s3 of
                              (suspended, s4) \<Rightarrow>
                                let s5 = snd (net_call (\<lambda>_. NWakerClean) (abi_waker_clean N coroutine) s4)
                                in (suspended \<and> n_eg s5 = None, s5))))"

section \<open>Plaintext streams\<close>

text \<open>\<open>AsyncInput::DoRead\<close> and \<open>AsyncOutput::DoWrite\<close>. The loops may spin on \<open>EINTR\<close>:
  not returning is \<open>None\<close>. \<open>DoWrite\<close> is given what is left to send and what was sent.\<close>

partial_function (option) async_do_read ::
    "'w net_api \<Rightarrow> nat \<Rightarrow> nat \<Rightarrow> 'w net \<Rightarrow> ((cxx_exn + u8 list) \<times> 'w net) option" where
  [code]: "async_do_read N fd len s =
     (case net_call (\<lambda>(n, _). NRecv n) (sys_recv N fd (CH_SOCK_IOLEN (os N) len)) s of
        ((n, bytes, err), s1) \<Rightarrow>
          if 0 < n then Some (Inr (take (nat n) bytes), s1)
          else if n = 0 then Some (Inl (connection_error ''clickhouse: connection closed by peer''), s1)
          else if err = CH_SOCK_EINTR (os N) then async_do_read N fd len s1
          else if err = CH_SOCK_EAGAIN (os N) \<or> err = CH_SOCK_EWOULDBLOCK (os N)
          then (case ch_await_socket N fd ASYNC_READABLE 0 s1 of
                  (ready, s2) \<Rightarrow>
                    if \<not> ready
                    then Some (Inl (connection_error ''clickhouse: read interrupted''), s2)
                    else async_do_read N fd len s2)
          else Some (Inl (connection_error ''clickhouse: recv failed''), s1))"

partial_function (option) async_write_loop ::
    "'w net_api \<Rightarrow> nat \<Rightarrow> u8 list \<Rightarrow> nat \<Rightarrow> 'w net \<Rightarrow> ((cxx_exn + nat) \<times> 'w net) option" where
  [code]: "async_write_loop N fd data sent s =
     (if sent < length data then
        (case net_call (\<lambda>(n, _). NSend (drop sent data) n) (sys_send N fd (drop sent data) (CH_SOCK_IOLEN (os N) (length data - sent))) s of
           ((n, err), s1) \<Rightarrow>
             if 0 < n then async_write_loop N fd data (sent + nat n) s1
             else if err = CH_SOCK_EINTR (os N) then async_write_loop N fd data sent s1
             else if err = CH_SOCK_EAGAIN (os N) \<or> err = CH_SOCK_EWOULDBLOCK (os N)
             then (case ch_await_socket N fd ASYNC_WRITABLE 0 s1 of
                  (ready, s2) \<Rightarrow>
                    if \<not> ready
                    then Some (Inl (connection_error ''clickhouse: write interrupted''), s2)
                    else async_write_loop N fd data sent s2)
             else Some (Inl (connection_error ''clickhouse: send failed''), s1))
      else Some (Inr (length data), s))"

definition async_do_write ::
    "'w net_api \<Rightarrow> nat \<Rightarrow> u8 list \<Rightarrow> 'w net \<Rightarrow> ((cxx_exn + nat) \<times> 'w net) option" where
  "async_do_write N fd data s = async_write_loop N fd data 0 s"

text \<open>\<open>AsyncSocket::set_nonblocking\<close>.\<close>

definition set_nonblocking :: "'w net_api \<Rightarrow> nat \<Rightarrow> 'w net \<Rightarrow> 'w net" where
  "set_nonblocking N fd s =
     (case os N of
        Win32 \<Rightarrow> snd (net_call (\<lambda>_. NSetNonblock) (sys_ioctl_nonblocking N fd) s)
      | Posix \<Rightarrow>
          (case sys_getfl N fd (n_eg s, n_ext s) of
             (flags, eg, w) \<Rightarrow>
               let s1 = s\<lparr>n_eg := eg, n_ext := w\<rparr>
               in if 0 \<le> flags
                  then snd (net_call (\<lambda>_. NSetFl (or flags (o_nonblock N)))
                              (sys_setfl N fd (or flags (o_nonblock N))) s1)
                  else s1))"

text \<open>The two constructors of \<open>AsyncSocket\<close>: the base class connects (\<open>socket_ctor\<close>, with or
  without timeouts) and gives the descriptor, which is then made non-blocking.\<close>

definition async_socket_new ::
    "'w net_api \<Rightarrow> ('w net \<Rightarrow> (cxx_exn + nat) \<times> 'w net) \<Rightarrow> 'w net \<Rightarrow> (cxx_exn + nat) \<times> 'w net" where
  "async_socket_new N socket_ctor s =
     (case socket_ctor s of
        (Inl e, s1) \<Rightarrow> (Inl e, s1)
      | (Inr fd, s1) \<Rightarrow> (Inr fd, set_nonblocking N fd s1))"

section \<open>TLS streams\<close>

definition tls_do_read :: "'w net_api \<Rightarrow> nat \<Rightarrow> nat \<Rightarrow> 'w net \<Rightarrow> (cxx_exn + u8 list) \<times> 'w net" where
  "tls_do_read N stream len s =
     (case net_call (\<lambda>(n, _). NRecv n) (stream_read N stream len) s of
        ((n, bytes), s1) \<Rightarrow>
          if n \<le> 0 then (Inl (connection_error ''clickhouse: tls connection closed''), s1)
          else (Inr (take (nat n) bytes), s1))"

function tls_write_loop ::
    "'w net_api \<Rightarrow> nat \<Rightarrow> u8 list \<Rightarrow> nat \<Rightarrow> 'w net \<Rightarrow> (cxx_exn + nat) \<times> 'w net" where
  "tls_write_loop N stream data sent s =
     (if sent < length data then
        (case net_call (NSend (drop sent data)) (stream_write N stream (drop sent data)) s of
           (n, s1) \<Rightarrow>
             if n \<le> 0 then (Inl (connection_error ''clickhouse: tls write failed''), s1)
             else tls_write_loop N stream data (sent + nat n) s1)
      else (Inr (length data), s))"
  by pat_completeness auto
termination
  by (relation "measure (\<lambda>(N, stream, data, sent, s). length data - sent)") auto

declare tls_write_loop.simps [simp del]

definition tls_do_write :: "'w net_api \<Rightarrow> nat \<Rightarrow> u8 list \<Rightarrow> 'w net \<Rightarrow> (cxx_exn + nat) \<times> 'w net" where
  "tls_do_write N stream data s = tls_write_loop N stream data 0 s"

text \<open>The constructor and destructor of \<open>TlsSocket\<close>; \<open>verify\<close> sets both options of the
  context.\<close>

definition tls_url :: "string \<Rightarrow> u16 \<Rightarrow> string" where
  "tls_url host port = ''ssl://'' @ host @ '':'' @ dec_digits (unat port)"

definition tls_connect ::
    "'w net_api \<Rightarrow> string \<Rightarrow> u16 \<Rightarrow> bool \<Rightarrow> 'w net \<Rightarrow> (cxx_exn + nat) \<times> 'w net" where
  "tls_connect N host port verify s =
     (case xport_create N (tls_url host port) verify verify (n_eg s, n_ext s) of
        ((stream, errstr), eg, w) \<Rightarrow>
          let s1 = s\<lparr>n_eg := eg, n_ext := w\<rparr>;
              error = (case errstr of Some e \<Rightarrow> e | None \<Rightarrow> ''tls connect failed'')
          in (case stream of
                None \<Rightarrow> (Inl (connection_error (''clickhouse: '' @ error)), s1)
              | Some st \<Rightarrow> (Inr st, s1)))"

definition tls_close :: "'w net_api \<Rightarrow> nat option \<Rightarrow> 'w net \<Rightarrow> 'w net" where
  "tls_close N stream s =
     (case stream of
        None \<Rightarrow> s
      | Some st \<Rightarrow> (case stream_close N st (n_eg s, n_ext s) of (u, eg, w) \<Rightarrow> s\<lparr>n_eg := eg, n_ext := w\<rparr>))"

section \<open>Sockets and their streams\<close>

text \<open>A connected socket is a file descriptor or a stream; it makes streams of the matching
  classes, whose virtual methods move the bytes. \<open>Skip\<close> is not supported by either.\<close>

datatype ch_socket = AsyncSocket nat | TlsSocket nat

datatype input_stream = AsyncInput nat | TlsInput nat

datatype output_stream = AsyncOutput nat | TlsOutput nat

definition async_makeInputStream :: "nat \<Rightarrow> input_stream" where
  "async_makeInputStream fd = AsyncInput fd"

definition async_makeOutputStream :: "nat \<Rightarrow> output_stream" where
  "async_makeOutputStream fd = AsyncOutput fd"

definition tls_makeInputStream :: "nat \<Rightarrow> input_stream" where
  "tls_makeInputStream st = TlsInput st"

definition tls_makeOutputStream :: "nat \<Rightarrow> output_stream" where
  "tls_makeOutputStream st = TlsOutput st"

fun makeInputStream :: "ch_socket \<Rightarrow> input_stream" where
  "makeInputStream (AsyncSocket fd) = async_makeInputStream fd"
| "makeInputStream (TlsSocket st) = tls_makeInputStream st"

fun makeOutputStream :: "ch_socket \<Rightarrow> output_stream" where
  "makeOutputStream (AsyncSocket fd) = async_makeOutputStream fd"
| "makeOutputStream (TlsSocket st) = tls_makeOutputStream st"

fun DoRead ::
    "'w net_api \<Rightarrow> input_stream \<Rightarrow> nat \<Rightarrow> 'w net \<Rightarrow> ((cxx_exn + u8 list) \<times> 'w net) option" where
  "DoRead N (AsyncInput fd) len s = async_do_read N fd len s"
| "DoRead N (TlsInput st) len s = Some (tls_do_read N st len s)"

fun DoWrite ::
    "'w net_api \<Rightarrow> output_stream \<Rightarrow> u8 list \<Rightarrow> 'w net \<Rightarrow> ((cxx_exn + nat) \<times> 'w net) option" where
  "DoWrite N (AsyncOutput fd) data s = async_do_write N fd data s"
| "DoWrite N (TlsOutput st) data s = Some (tls_do_write N st data s)"

definition async_Skip :: "nat \<Rightarrow> nat \<Rightarrow> bool" where
  "async_Skip fd bytes = False"

definition tls_Skip :: "nat \<Rightarrow> nat \<Rightarrow> bool" where
  "tls_Skip st bytes = False"

fun Skip :: "input_stream \<Rightarrow> nat \<Rightarrow> bool" where
  "Skip (AsyncInput fd) bytes = async_Skip fd bytes"
| "Skip (TlsInput st) bytes = tls_Skip st bytes"

text \<open>Reading and writing through the streams of a socket.\<close>

definition socket_write ::
    "'w net_api \<Rightarrow> ch_socket \<Rightarrow> u8 list \<Rightarrow> 'w net \<Rightarrow> ((cxx_exn + nat) \<times> 'w net) option" where
  "socket_write N sock data s = DoWrite N (makeOutputStream sock) data s"

definition socket_read ::
    "'w net_api \<Rightarrow> ch_socket \<Rightarrow> nat \<Rightarrow> 'w net \<Rightarrow> ((cxx_exn + u8 list) \<times> 'w net) option" where
  "socket_read N sock len s = DoRead N (makeInputStream sock) len s"

lemma socket_write_simps [simp]:
  "socket_write N (AsyncSocket fd) data s = async_do_write N fd data s"
  "socket_write N (TlsSocket st) data s = Some (tls_do_write N st data s)"
  by (simp_all add: socket_write_def async_makeOutputStream_def tls_makeOutputStream_def)

lemma socket_read_simps [simp]:
  "socket_read N (AsyncSocket fd) len s = async_do_read N fd len s"
  "socket_read N (TlsSocket st) len s = Some (tls_do_read N st len s)"
  by (simp_all add: socket_read_def async_makeInputStream_def tls_makeInputStream_def)

section \<open>The socket factory\<close>

text \<open>
  \<open>AsyncSocketFactory\<close> with its two flags. \<open>connect_plain\<close> is
  \<open>NonSecureSocketFactory::connect\<close>, which resolves the endpoint and calls back \<open>doConnect\<close>
  with an address, for which the base class connects.
\<close>

record socket_factory =
  fac_tls :: bool
  fac_verify :: bool

definition ch_make_async_socket_factory :: "bool \<Rightarrow> bool \<Rightarrow> socket_factory" where
  "ch_make_async_socket_factory tls verify = \<lparr>fac_tls = tls, fac_verify = verify\<rparr>"

definition do_connect ::
    "'w net_api \<Rightarrow> ('w net \<Rightarrow> (cxx_exn + nat) \<times> 'w net) \<Rightarrow> 'w net \<Rightarrow> (cxx_exn + ch_socket) \<times> 'w net" where
  "do_connect N socket_ctor s =
     (case async_socket_new N socket_ctor s of
        (Inl e, s1) \<Rightarrow> (Inl e, s1)
      | (Inr fd, s1) \<Rightarrow> (Inr (AsyncSocket fd), s1))"

definition factory_connect ::
    "'w net_api \<Rightarrow> socket_factory \<Rightarrow> (endpoint \<Rightarrow> 'w net \<Rightarrow> (cxx_exn + ch_socket) \<times> 'w net)
      \<Rightarrow> endpoint \<Rightarrow> 'w net \<Rightarrow> (cxx_exn + ch_socket) \<times> 'w net" where
  "factory_connect N fac connect_plain endpoint s =
     (if fac_tls fac
      then (case tls_connect N (fst endpoint) (snd endpoint) (fac_verify fac) s of
              (Inl e, s1) \<Rightarrow> (Inl e, s1)
            | (Inr st, s1) \<Rightarrow> (Inr (TlsSocket st), s1))
      else connect_plain endpoint s)"

section \<open>Bytes\<close>

text \<open>What the peer was given: the accepted part of every \<open>send\<close>, in order.\<close>

fun sent_by :: "net_call \<Rightarrow> u8 list" where
  "sent_by (NSend bs n) = take (nat n) bs"
| "sent_by x = []"

definition sent_bytes :: "'w net \<Rightarrow> u8 list" where
  "sent_bytes s = concat (map sent_by (n_log s))"

text \<open>What the code relies on: \<open>send\<close> and \<open>php_stream_write\<close> accept no more than they are
  given, and \<open>recv\<close> and \<open>php_stream_read\<close> say how many bytes they stored.\<close>

definition net_ok :: "'w net_api \<Rightarrow> bool" where
  "net_ok N \<longleftrightarrow>
     (\<forall>fd bs len x n err x'. sys_send N fd bs len x = ((n, err), x') \<longrightarrow> 0 < n \<longrightarrow> n \<le> len) \<and>
     (\<forall>st bs x n x'. stream_write N st bs x = (n, x') \<longrightarrow> n \<le> int (length bs)) \<and>
     (\<forall>fd len x n bs err x'. sys_recv N fd len x = ((n, bs, err), x') \<longrightarrow> 0 < n \<longrightarrow>
        nat n = length bs \<and> n \<le> len) \<and>
     (\<forall>st len x n bs x'. stream_read N st len x = ((n, bs), x') \<longrightarrow>
        nat n = length bs \<and> length bs \<le> len)"

lemma net_okD:
  assumes "net_ok N"
  shows "sys_send N fd bs len x = ((n, err), x') \<Longrightarrow> 0 < n \<Longrightarrow> n \<le> len"
    and "stream_write N st bs x = (n, x') \<Longrightarrow> n \<le> int (length bs)"
    and "sys_recv N fd len x = ((n, bs, err), x') \<Longrightarrow> 0 < n \<Longrightarrow> nat n = length bs \<and> n \<le> len"
    and "stream_read N st k x = ((n, bs), x') \<Longrightarrow> nat n = length bs \<and> length bs \<le> k"
proof -
  note n = assms [unfolded net_ok_def]
  show "sys_send N fd bs len x = ((n, err), x') \<Longrightarrow> 0 < n \<Longrightarrow> n \<le> len"
    using n by metis
  show "stream_write N st bs x = (n, x') \<Longrightarrow> n \<le> int (length bs)"
    using n by metis
  show "sys_recv N fd len x = ((n, bs, err), x') \<Longrightarrow> 0 < n \<Longrightarrow> nat n = length bs \<and> n \<le> len"
    using n by metis
  show "stream_read N st k x = ((n, bs), x') \<Longrightarrow> nat n = length bs \<and> length bs \<le> k"
    using n by metis
qed

text \<open>What \<open>send\<close> and \<open>recv\<close> moved fits the buffer they were given.\<close>

lemma send_fits:
  assumes "net_ok N" and "sys_send N fd bs (CH_SOCK_IOLEN (os N) len) x = ((n, err), x')" and "0 < n"
  shows "nat n \<le> len"
  using net_okD(1) [OF assms] CH_SOCK_IOLEN_le [of "os N" len] by linarith

lemma recv_fits:
  assumes "net_ok N" and "sys_recv N fd (CH_SOCK_IOLEN (os N) len) x = ((n, bs, err), x')" and "0 < n"
  shows "nat n = length bs \<and> length bs \<le> len"
  using net_okD(3) [OF assms] CH_SOCK_IOLEN_le [of "os N" len] by linarith

text \<open>Waiting moves no bytes.\<close>

lemma ch_await_socket_log:
  assumes "ch_await_socket N fd ev t s = (b, s')"
  shows "\<exists>l. n_log s' = n_log s @ l \<and> concat (map sent_by l) = []"
  using assms
  by (auto simp: ch_await_socket_def net_call_def Let_def split: option.splits prod.splits if_splits)

lemma ch_await_socket_sent: "ch_await_socket N fd ev t s = (b, s') \<Longrightarrow> sent_bytes s' = sent_bytes s"
  using ch_await_socket_log by (fastforce simp: sent_bytes_def)

section \<open>The contract of a byte sink\<close>

locale byte_sink =
  fixes kernel_ok :: bool
    and do_write :: "u8 list \<Rightarrow> 'st \<Rightarrow> ((cxx_exn + nat) \<times> 'st) option"
    and accepted :: "'st \<Rightarrow> u8 list"
  assumes write_all: "kernel_ok \<Longrightarrow> do_write data st = Some (Inr n, st') \<Longrightarrow>
      n = length data \<and> accepted st' = accepted st @ data"
    and write_part: "kernel_ok \<Longrightarrow> do_write data st = Some (Inl e, st') \<Longrightarrow>
      ch_exception_poisons_connection e
      \<and> (\<exists>k < length data. accepted st' = accepted st @ take k data)"
begin

text \<open>A sequence of writes that stops at the first exception.\<close>

fun write_seq :: "u8 list list \<Rightarrow> 'st \<Rightarrow> ((cxx_exn + unit) \<times> 'st) option" where
  "write_seq [] st = Some (Inr (), st)"
| "write_seq (d # ds) st =
     (case do_write d st of
        None \<Rightarrow> None
      | Some (Inl e, st') \<Rightarrow> Some (Inl e, st')
      | Some (Inr n, st') \<Rightarrow> write_seq ds st')"

lemma write_seq_all:
  "kernel_ok \<Longrightarrow> write_seq ds st = Some (Inr u, st') \<Longrightarrow> accepted st' = accepted st @ concat ds"
  by (induction ds arbitrary: st) (auto split: option.splits sum.splits dest: write_all)

lemma write_seq_part:
  "kernel_ok \<Longrightarrow> write_seq ds st = Some (Inl e, st') \<Longrightarrow>
    ch_exception_poisons_connection e
    \<and> (\<exists>k < length (concat ds). accepted st' = accepted st @ take k (concat ds))"
proof (induction ds arbitrary: st)
  case (Cons d ds)
  then obtain r st1 where w: "do_write d st = Some (r, st1)"
    by (auto split: option.splits)
  show ?case
  proof (cases r)
    case (Inl e')
    with w Cons.prems have e: "e' = e" "st1 = st'" by simp_all
    with w Inl write_part [of d st e st'] Cons.prems(1) obtain k where
      "ch_exception_poisons_connection e" "k < length d" "accepted st' = accepted st @ take k d"
      by auto
    then show ?thesis by (intro conjI exI [of _ k]) simp_all
  next
    case (Inr n)
    with w Cons.prems have "write_seq ds st1 = Some (Inl e, st')" by simp
    from Cons.IH [OF Cons.prems(1) this] write_all [OF Cons.prems(1) w [unfolded Inr]] obtain k where
      "ch_exception_poisons_connection e" "k < length (concat ds)"
      "accepted st' = accepted st @ d @ take k (concat ds)"
      by auto
    then show ?thesis
      by (auto intro!: exI [of _ "length d + k"])
  qed
qed simp

end

lemma take_drop_split:
  "take a (drop i xs) @ drop (i + a) xs = drop i xs"
  "take a (drop i xs) @ take k (drop (i + a) xs) = take (a + k) (drop i xs)"
  by (metis add.commute append_take_drop_id drop_drop, metis add.commute drop_drop take_add)

text \<open>
  How a write that still has \<open>rest\<close> to send ends: all of it sent and the total returned, or a
  poisoning exception after a proper part of it.
\<close>

definition write_ends :: "nat \<Rightarrow> u8 list \<Rightarrow> 'w net \<Rightarrow> (cxx_exn + nat) \<times> 'w net \<Rightarrow> bool" where
  "write_ends tot rest s out \<longleftrightarrow>
     (case out of
        (Inr n, s') \<Rightarrow> n = tot \<and> sent_bytes s' = sent_bytes s @ rest
      | (Inl e, s') \<Rightarrow> ch_exception_poisons_connection e
          \<and> (\<exists>k < length rest. sent_bytes s' = sent_bytes s @ take k rest))"

lemma write_ends_step:
  assumes "write_ends tot (drop (i + a) xs) s1 out" and "i + a \<le> length xs"
    and "sent_bytes s1 = sent_bytes s @ take a (drop i xs)"
  shows "write_ends tot (drop i xs) s out"
proof -
  obtain r s' where out: "out = (r, s')" by (cases out)
  show ?thesis
  proof (cases r)
    case (Inl e)
    with assms(1) out obtain k where "ch_exception_poisons_connection e" "k < length xs - (i + a)"
      "sent_bytes s' = sent_bytes s1 @ take k (drop (i + a) xs)"
      by (auto simp: write_ends_def)
    with assms(2,3) out Inl show ?thesis
      by (auto simp: write_ends_def take_drop_split intro!: exI [of _ "a + k"])
  next
    case (Inr n)
    with assms out show ?thesis by (simp add: write_ends_def take_drop_split)
  qed
qed

lemma write_ends_same:
  "write_ends tot rest s1 out \<Longrightarrow> sent_bytes s1 = sent_bytes s \<Longrightarrow> write_ends tot rest s out"
  by (auto simp: write_ends_def split: prod.splits sum.splits)

lemma write_ends_now: "write_ends tot [] s (Inr tot, s)"
  by (simp add: write_ends_def)

lemma write_ends_failed:
  "rest \<noteq> [] \<Longrightarrow> sent_bytes s' = sent_bytes s \<Longrightarrow>
    write_ends tot rest s (Inl (connection_error w), s')"
  by (auto simp: write_ends_def intro!: exI [of _ 0])

text \<open>The plaintext loop: whatever the socket accepts piece by piece, the pieces add up.\<close>

lemma async_write_loop_sent:
  assumes "net_ok N" and "async_write_loop N fd data sent s = Some out" and "sent \<le> length data"
  shows "write_ends (length data) (drop sent data) s out"
proof -
  have "N' = N \<longrightarrow> sent \<le> length data \<longrightarrow> write_ends (length data) (drop sent data) s y"
    if "async_write_loop N' fd data sent s = Some y" for N' fd data sent s y
    using that
  proof (induction N' fd data sent s y
      rule: async_write_loop.raw_induct [rotated 1, consumes 1, case_names call])
    case (call f N' fd data sent s y)
    show ?case
    proof (cases "N' = N \<and> sent < length data")
      case False
      with call(2) show ?thesis by (auto intro: write_ends_now)
    next
      case True
      note t = this
      obtain n err s1 where c: "net_call (\<lambda>(n, _). NSend (drop sent data) n)
            (sys_send N fd (drop sent data) (CH_SOCK_IOLEN (os N) (length data - sent))) s = ((n, err), s1)"
        and l: "n_log s1 = n_log s @ [NSend (drop sent data) n]"
        and f: "sys_send N fd (drop sent data) (CH_SOCK_IOLEN (os N) (length data - sent)) (n_eg s, n_ext s) = ((n, err), n_eg s1, n_ext s1)"
        by (rule net_call_cases [of "\<lambda>(n, _). NSend (drop sent data) n"
              "sys_send N fd (drop sent data) (CH_SOCK_IOLEN (os N) (length data - sent))" s]) auto
      have sent: "sent_bytes s1 = sent_bytes s @ take (nat n) (drop sent data)"
        by (simp add: sent_bytes_def l)
      have rest: "drop sent data \<noteq> []" using t by simp
      show ?thesis
      proof (cases "0 < n")
        case True
        have le: "sent + nat n \<le> length data"
          using send_fits [OF assms(1) f True] t by linarith
        have "f N fd data (sent + nat n) s1 = Some y"
          using call(2) t c True by simp
        from call(1) [OF this] le write_ends_step [OF _ le sent] show ?thesis by simp
      next
        case False
        then have same: "sent_bytes s1 = sent_bytes s"
          using sent by simp
        obtain ready s2 where w: "ch_await_socket N fd ASYNC_WRITABLE 0 s1 = (ready, s2)"
          by (metis surj_pair)
        with ch_await_socket_sent [OF w] same have same2: "sent_bytes s2 = sent_bytes s" by simp
        consider (again) "f N fd data sent s1 = Some y" | (ready) "f N fd data sent s2 = Some y"
          | (stop) msg where "y = (Inl (connection_error msg), s1)"
          | (interrupted) msg where "y = (Inl (connection_error msg), s2)"
          using call(2) t c False w by (auto split: if_splits)
        then show ?thesis
        proof cases
          case again
          from call(1) [OF this] show ?thesis by (blast intro: write_ends_same [OF _ same])
        next
          case ready
          from call(1) [OF this] show ?thesis by (blast intro: write_ends_same [OF _ same2])
        qed (simp_all add: write_ends_failed [OF rest] same same2)
      qed
    qed
  qed
  from this [OF assms(2)] assms(3) show ?thesis by simp
qed

lemma tls_write_loop_sent:
  assumes "net_ok N" and "sent \<le> length data"
  shows "write_ends (length data) (drop sent data) s (tls_write_loop N st data sent s)"
  using assms(2)
proof (induction "length data - sent" arbitrary: sent s rule: less_induct)
  case less
  show ?case
  proof (cases "sent < length data")
    case False
    with less.prems show ?thesis
      by (subst tls_write_loop.simps) (simp add: write_ends_now)
  next
    case True
    obtain n s1 where c: "net_call (NSend (drop sent data)) (stream_write N st (drop sent data)) s = (n, s1)"
      and l: "n_log s1 = n_log s @ [NSend (drop sent data) n]"
      and f: "stream_write N st (drop sent data) (n_eg s, n_ext s) = (n, n_eg s1, n_ext s1)"
      by (rule net_call_cases)
    have sent: "sent_bytes s1 = sent_bytes s @ take (nat n) (drop sent data)"
      by (simp add: sent_bytes_def l)
    show ?thesis
    proof (cases "n \<le> 0")
      case neg: True
      with True c sent show ?thesis
        by (subst tls_write_loop.simps) (simp add: write_ends_failed)
    next
      case False
      have le: "sent + nat n \<le> length data"
        using net_okD(2) [OF assms(1) f] True by auto
      have step: "tls_write_loop N st data sent s = tls_write_loop N st data (sent + nat n) s1"
        using True c False by (subst tls_write_loop.simps) simp
      have "length data - (sent + nat n) < length data - sent"
        using True False by simp
      from write_ends_step [OF less.hyps [OF this le] le sent] show ?thesis
        by (simp add: step)
    qed
  qed
qed

text \<open>Both streams are byte sinks.\<close>

lemma socket_write_sent:
  assumes "net_ok N" and "socket_write N sock data s = Some out"
  shows "write_ends (length data) data s out"
proof (cases sock)
  case (AsyncSocket fd)
  with async_write_loop_sent [OF assms(1), of fd data 0 s out] assms(2) show ?thesis
    by (simp add: async_do_write_def)
next
  case (TlsSocket st)
  with tls_write_loop_sent [OF assms(1), of 0 data s st] assms(2) show ?thesis
    by (simp add: tls_do_write_def)
qed

interpretation socket: byte_sink "net_ok N" "socket_write N sock" sent_bytes for N sock
proof (unfold_locales, goal_cases)
  case (1 data st n st')
  from socket_write_sent [OF 1] show ?case by (simp add: write_ends_def)
next
  case (2 data st e st')
  from socket_write_sent [OF 2] show ?case by (simp add: write_ends_def)
qed

section \<open>Reading\<close>

text \<open>A read that returns gives between one and \<open>len\<close> bytes; any other end poisons the
  connection.\<close>

definition read_ends :: "nat \<Rightarrow> cxx_exn + u8 list \<Rightarrow> bool" where
  "read_ends len r \<longleftrightarrow>
     (case r of Inr bs \<Rightarrow> 0 < length bs \<and> length bs \<le> len | Inl e \<Rightarrow> ch_exception_poisons_connection e)"

lemma read_ends_error [simp]: "read_ends len (Inl (connection_error w))"
  by (simp add: read_ends_def)

lemma async_do_read_ends:
  assumes "net_ok N" and "async_do_read N fd len s = Some (r, s')"
  shows "read_ends len r"
proof -
  have "N' = N \<longrightarrow> read_ends len (fst y)"
    if "async_do_read N' fd len s = Some y" for N' fd len s y
    using that
  proof (induction N' fd len s y rule: async_do_read.raw_induct [rotated 1, consumes 1, case_names call])
    case (call f N' fd len s y)
    show ?case
    proof (cases "N' = N")
      case True
      obtain n bs err s1 where c: "net_call (\<lambda>(n, _). NRecv n) (sys_recv N fd (CH_SOCK_IOLEN (os N) len)) s = ((n, bs, err), s1)"
        and f: "sys_recv N fd (CH_SOCK_IOLEN (os N) len) (n_eg s, n_ext s) = ((n, bs, err), n_eg s1, n_ext s1)"
        by (rule net_call_cases [of "\<lambda>(n, _). NRecv n" "sys_recv N fd (CH_SOCK_IOLEN (os N) len)" s]) auto
      have len: "0 < n \<Longrightarrow> nat n = length bs \<and> length bs \<le> len"
        by (rule recv_fits [OF assms(1) f])
      obtain ready s2 where w: "ch_await_socket N fd ASYNC_READABLE 0 s1 = (ready, s2)"
        by (metis surj_pair)
      have step: "(if 0 < n then Some (Inr (take (nat n) bs), s1)
          else if n = 0 then Some (Inl (connection_error ''clickhouse: connection closed by peer''), s1)
          else if err = CH_SOCK_EINTR (os N) then f N fd len s1
          else if err = CH_SOCK_EAGAIN (os N) \<or> err = CH_SOCK_EWOULDBLOCK (os N)
          then if \<not> ready then Some (Inl (connection_error ''clickhouse: read interrupted''), s2)
               else f N fd len s2
          else Some (Inl (connection_error ''clickhouse: recv failed''), s1)) = Some y"
        using call(2) unfolding True by (simp add: c w cong: if_cong split del: if_split)
      have again: "read_ends len (fst y)" if "f N fd len s3 = Some y" for s3
        using call(1) [OF that] by simp
      show ?thesis
        by (cases "0 < n"; cases "n = 0"; cases "err = CH_SOCK_EINTR (os N)"; cases "err = CH_SOCK_EAGAIN (os N) \<or> err = CH_SOCK_EWOULDBLOCK (os N)";
            cases ready) (use step len again in \<open>auto simp: read_ends_def\<close>)
    qed simp
  qed
  from this [OF assms(2)] show ?thesis by simp
qed

lemma socket_read_ends:
  assumes "net_ok N" and "socket_read N sock len s = Some (r, s')"
  shows "read_ends len r"
proof (cases sock)
  case (AsyncSocket fd)
  with async_do_read_ends [OF assms(1)] assms(2) show ?thesis by simp
next
  case (TlsSocket st)
  obtain n bs s1 where c: "net_call (\<lambda>(n, _). NRecv n) (stream_read N st len) s = ((n, bs), s1)"
    and f: "stream_read N st len (n_eg s, n_ext s) = ((n, bs), n_eg s1, n_ext s1)"
    by (rule net_call_cases [of "\<lambda>(n, _). NRecv n" "stream_read N st len" s]) auto
  from net_okD(4) [OF assms(1) f] assms(2) TlsSocket c show ?thesis
    by (auto simp: tls_do_read_def read_ends_def split: if_splits)
qed

section \<open>The poll event\<close>

text \<open>An event that was created is either released or handed to the coroutine's waker.\<close>

fun event_balance :: "net_call \<Rightarrow> int" where
  "event_balance (NNewEvent (Some ev)) = 1"
| "event_balance (NEventRelease ev) = -1"
| "event_balance (NResumeWhen ev) = -1"
| "event_balance x = 0"

fun waker_balance :: "net_call \<Rightarrow> int" where
  "waker_balance (NResumeWhen ev) = 1"
| "waker_balance NWakerClean = -1"
| "waker_balance x = 0"

text \<open>\<open>event_pending\<close>: creating the event left an exception pending although it gave an
  event.\<close>

definition event_pending :: "'w net_api \<Rightarrow> nat \<Rightarrow> poll_events \<Rightarrow> 'w net \<Rightarrow> bool" where
  "event_pending N fd ev s =
     (case abi_new_socket_event N fd ev (n_eg s, n_ext s) of (e, eg, w) \<Rightarrow> e \<noteq> None \<and> eg \<noteq> None)"

lemma n_log_net_call [simp]:
  "n_log (snd (net_call (\<lambda>_. c) f s)) = n_log s @ [c]"
  by (simp add: net_call_def split: prod.splits)

lemma ch_await_socket_balance:
  assumes "ch_await_socket N fd ev t s = (b, s')"
  shows "\<exists>l. n_log s' = n_log s @ l \<and> sum_list (map waker_balance l) = 0
    \<and> (abi_current_coroutine N (n_ext s) \<noteq> None \<longrightarrow>
        sum_list (map event_balance l) = (if event_pending N fd ev s then 1 else 0))
    \<and> (b \<longrightarrow> n_eg s' = None)"
proof (cases "abi_current_coroutine N (n_ext s)")
  case None
  with assms show ?thesis by (auto simp: ch_await_socket_def)
next
  case (Some co)
  obtain e s1 where c1: "net_call NNewEvent (abi_new_socket_event N fd ev) s = (e, s1)"
    and l1: "n_log s1 = n_log s @ [NNewEvent e]"
    and f1: "abi_new_socket_event N fd ev (n_eg s, n_ext s) = (e, n_eg s1, n_ext s1)"
    by (rule net_call_cases)
  show ?thesis
  proof (cases "e = None \<or> n_eg s1 \<noteq> None")
    case True
    with assms Some c1 l1 f1 show ?thesis
      by (cases e) (simp_all add: ch_await_socket_def event_pending_def)
  next
    case False
    then obtain p where e: "e = Some p" and eg: "n_eg s1 = None" by auto
    then have pend: "\<not> event_pending N fd ev s"
      using f1 by (simp add: event_pending_def)
    define s2 where "s2 = snd (net_call (\<lambda>_. NWakerNew) (abi_waker_new N co t) s1)"
    define s3 where "s3 = snd (net_call (\<lambda>_. NResumeWhen p) (abi_resume_when N co p) s2)"
    obtain u s4 where c4: "net_call NSuspend (abi_suspend N) s3 = (u, s4)"
      and l4: "n_log s4 = n_log s3 @ [NSuspend u]"
      by (rule net_call_cases)
    have logs: "n_log s2 = n_log s1 @ [NWakerNew]" "n_log s3 = n_log s2 @ [NResumeWhen p]"
      by (simp_all add: s2_def s3_def)
    consider (created) "n_eg s2 \<noteq> None" | (handed) "n_eg s2 = None" "n_eg s3 \<noteq> None"
      | (suspended) "n_eg s2 = None" "n_eg s3 = None"
      by blast
    then show ?thesis
    proof cases
      case created
      with assms Some c1 e eg have "b = False"
        "s' = snd (net_call (\<lambda>_. NEventRelease p) (abi_event_release N p) s2)"
        by (simp_all add: ch_await_socket_def Let_def s2_def [symmetric])
      with l1 e logs pend show ?thesis by simp
    next
      case handed
      with assms Some c1 e eg have "b = False"
        "s' = snd (net_call (\<lambda>_. NWakerClean) (abi_waker_clean N co) s3)"
        by (simp_all add: ch_await_socket_def Let_def s2_def [symmetric] s3_def [symmetric])
      with l1 e logs pend show ?thesis by simp
    next
      case suspended
      with assms Some c1 e eg c4 have "s' = snd (net_call (\<lambda>_. NWakerClean) (abi_waker_clean N co) s4)"
        "b \<longrightarrow> n_eg s' = None"
        by (simp_all add: ch_await_socket_def Let_def s2_def [symmetric] s3_def [symmetric]) blast
      with l1 l4 e logs pend show ?thesis by simp
    qed
  qed
qed

end
