(* ===== verification/Ch_Example.thy ===== *)
theory Ch_Example
  imports Ch_Api Ch_Transport "HOL-Library.Countable"
begin

text \<open>
  A concrete environment: an engine, a column library, a server and a network that satisfy the
  assumptions of the development. The theorems are applied to it, so that their hypotheses are
  seen to hold together.
\<close>

section \<open>Engine and column library\<close>

instance leaf_code :: countable
  by countable_datatype

instance ch_type :: countable
  by countable_datatype

instance col_ref :: countable
  by countable_datatype

definition ex_symtable_key :: "string \<Rightarrow> zkey" where
  "ex_symtable_key s =
     (if s \<noteq> [] \<and> list_all is_dec_char s \<and> (hd s \<noteq> CHR ''0'' \<or> length s = 1) \<and> length s < 19
      then KLong (of_nat (dec_value s)) else KStr s)"

definition ex_store :: "leaf_code \<Rightarrow> leaf_arg \<Rightarrow> leaf_val option" where
  "ex_store lc a =
     (case lc of
        TInt8 \<Rightarrow> (case a of AInt8 x \<Rightarrow> Some (VInt8 x) | _ \<Rightarrow> None)
      | TInt16 \<Rightarrow> (case a of AInt16 x \<Rightarrow> Some (VInt16 x) | _ \<Rightarrow> None)
      | TInt32 \<Rightarrow> (case a of AInt32 x \<Rightarrow> Some (VInt32 x) | _ \<Rightarrow> None)
      | TInt64 \<Rightarrow> (case a of AInt64 x \<Rightarrow> Some (VInt64 x) | _ \<Rightarrow> None)
      | TUInt8 \<Rightarrow> (case a of AUInt8 x \<Rightarrow> Some (VUInt8 x) | _ \<Rightarrow> None)
      | TUInt16 \<Rightarrow> (case a of AUInt16 x \<Rightarrow> Some (VUInt16 x) | _ \<Rightarrow> None)
      | TUInt32 \<Rightarrow> (case a of AUInt32 x \<Rightarrow> Some (VUInt32 x) | _ \<Rightarrow> None)
      | TUInt64 \<Rightarrow> (case a of AUInt64 x \<Rightarrow> Some (VUInt64 x) | _ \<Rightarrow> None)
      | TFloat32 \<Rightarrow> (case a of AFloat32 x \<Rightarrow> Some (VFloat32 x) | _ \<Rightarrow> None)
      | TFloat64 \<Rightarrow> (case a of AFloat64 x \<Rightarrow> Some (VFloat64 x) | _ \<Rightarrow> None)
      | TBool \<Rightarrow> (case a of ABool x \<Rightarrow> Some (VBool x) | _ \<Rightarrow> None)
      | TString \<Rightarrow> (case a of AString x \<Rightarrow> Some (VString x) | _ \<Rightarrow> None)
      | TUUID \<Rightarrow> (case a of AUuid x \<Rightarrow> Some (VUuid x) | _ \<Rightarrow> None)
      | TDate \<Rightarrow> (case a of ATime x \<Rightarrow> Some (VTime x) | _ \<Rightarrow> None)
      | TDate32 \<Rightarrow> (case a of ATime x \<Rightarrow> Some (VTime x) | _ \<Rightarrow> None)
      | TDateTime \<Rightarrow> (case a of ATime x \<Rightarrow> Some (VTime x) | _ \<Rightarrow> None)
      | TDateTime64 p \<Rightarrow> (case a of ATicks x \<Rightarrow> Some (VTicks x) | _ \<Rightarrow> None)
      | _ \<Rightarrow> None)"

definition ex_append :: "leaf_code \<Rightarrow> leaf_arg \<Rightarrow> cxx_exn + leaf_val" where
  "ex_append lc a =
     (case ex_store lc a of Some x \<Rightarrow> Inr x | None \<Rightarrow> Inl (validation_error ''bad value''))"

lemmas ex_append_eqs = ex_append_def ex_store_def

lemma ex_append_error: "ex_append lc a = Inl e \<Longrightarrow> e = validation_error ''bad value''"
  by (auto simp: ex_append_def split: option.splits)

definition ex_type_name :: "ch_type \<Rightarrow> string" where
  "ex_type_name t =
     (if t = Leaf TString then ''String'' else if t = Leaf TInt64 then ''Int64'' else ''?'')"

definition ex_create :: "string \<Rightarrow> ch_type option" where
  "ex_create n =
     (if n = ''String'' then Some (Leaf TString) else if n = ''Int64'' then Some (Leaf TInt64) else None)"

section \<open>Client library and pool\<close>

text \<open>The outside state is what the server still has to say to \<open>NextBlock\<close>.\<close>

type_synonym script = "(packet list \<times> (cxx_exn + block option)) list"

fun ex_next :: "nat \<Rightarrow> (script, packet list \<times> (cxx_exn + block option)) io" where
  "ex_next h (eg, []) = (([], Inr None), (eg, []))"
| "ex_next h (eg, x # xs) = (x, (eg, xs))"

definition ex_sample :: "block_column list" where
  "ex_sample = [(''id'', Leaf TInt64, LeafCol []), (''name'', Leaf TString, LeafCol [])]"

definition ex_api :: "script ch_api" where
  "ex_api =
     \<lparr>zval_get_long = (\<lambda>v. case v of ZLong n \<Rightarrow> n | ZBool b \<Rightarrow> (if b then 1 else 0) | _ \<Rightarrow> 0),
      zval_get_double = (\<lambda>v. case v of ZDouble d \<Rightarrow> d | _ \<Rightarrow> Double 0),
      zval_get_string =
        (\<lambda>v. case v of ZString s \<Rightarrow> s | ZLong n \<Rightarrow> int_to_string (sint n) | _ \<Rightarrow> []),
      zend_is_true = (\<lambda>v. case v of ZBool b \<Rightarrow> b | ZNull \<Rightarrow> False | _ \<Rightarrow> True),
      symtable_key = ex_symtable_key,
      fp_narrow = (\<lambda>d. Float (ucast (double_bits d))),
      fp_widen = (\<lambda>f. Double (ucast (float_bits f))),
      fp_llround_scaled = (\<lambda>d s. 0),
      lib_append = ex_append,
      lib_type_name = ex_type_name,
      lib_create = ex_create,
      lib_type_ptr = (\<lambda>ref t. to_nat (ref, t)),
      cli_connect = (\<lambda>opts tls verify x. (Inr 7, x)),
      cli_delete = (\<lambda>h x. ((), x)),
      cli_begin_insert = (\<lambda>h stmt x. (Inr ex_sample, x)),
      cli_send_insert_block = (\<lambda>h blk x. (Inr (), x)),
      cli_end_insert = (\<lambda>h x. (Inr (), x)),
      cli_begin_execute = (\<lambda>h q x. (([], Inr ()), x)),
      cli_next_block = ex_next,
      lib_append_column = (\<lambda>block c. None),
      abi_new_pool = (\<lambda>n x. (Some 1, x)),
      abi_acquire = (\<lambda>p accept x. (AcqNew, x)),
      abi_release = (\<lambda>p c keep x. (\<not> keep, x)),
      abi_close = (\<lambda>p x. ([], x)),
      abi_pool_event_release = (\<lambda>p x. ((), x)),
      abi_obj_release = (\<lambda>w x. ((), x)),
      abi_new_pool_obj = (\<lambda>p x. (Some 2, x)),
      steady_now = length,
      elapsed_seconds = (\<lambda>a b. Double 0),
      mt_rand_range = (\<lambda>lo hi x. (lo, x))\<rparr>"

text \<open>A state with one open connection, number 0 over library client 7.\<close>

definition ex_vm :: "script \<Rightarrow> script vm" where
  "ex_vm w =
     \<lparr>eg_exception = None, conns = [0 \<mapsto> \<lparr>cl_client = 7, cl_broken = False\<rparr>], next_conn = 1,
      calls = [], ext = w\<rparr>"

text \<open>The log in which that client was opened.\<close>

definition ex_opened :: "call list" where
  "ex_opened =
     [CConnect \<lparr>opt_host = ''localhost'', opt_port = 9000, opt_database = [], opt_user = [],
        opt_password = [], opt_compression = NoCompression, opt_endpoints = []\<rparr> False False (Some 7)]"

lemma ex_opened_session [simp]: "session 7 (ex_opened @ cs) = foldl (session_step 7) SIdle cs"
  by (simp add: session_def ex_opened_def)

lemma ex_opened_idle [simp]: "session 7 ex_opened = SIdle"
  by (simp add: session_def ex_opened_def)

lemma ex_api_sel [simp]:
  "zval_get_long ex_api (ZLong n) = n" "zval_get_string ex_api (ZString s) = s"
  "zend_is_true ex_api (ZBool b) = b" "lib_append ex_api = ex_append"
  "cli_begin_insert ex_api h stmt x = (Inr ex_sample, x)"
  "cli_send_insert_block ex_api h blk x = (Inr (), x)"
  "cli_end_insert ex_api h x = (Inr (), x)"
  "cli_begin_execute ex_api h q x = (([], Inr ()), x)"
  "cli_next_block ex_api = ex_next"
  "lib_append_column ex_api blk bc = None"
  "cli_connect ex_api opts tls verify x = (Inr 7, x)"
  "abi_release ex_api p c keep x = (\<not> keep, x)"
  by (simp_all add: ex_api_def)

lemma ex_php_api_ok: "php_api_ok ex_api"
proof -
  have "ucast (ucast w :: u64) = w" for w :: u32
    by (simp add: ucast_up_ucast_id is_up)
  then show ?thesis by (simp add: php_api_ok_def) (simp add: ex_api_def)
qed

lemma ex_append_time: "date_holds lc i \<Longrightarrow> ex_append lc (ATime t) = Inr (VTime t)"
  by (cases lc) (simp_all add: ex_append_eqs)

lemma ex_lib_stores: "lib_stores ex_api"
  by (simp add: lib_stores_def ex_append_time) (simp add: ex_append_eqs)

lemma ex_create_name: "ex_create (ex_type_name t) = Some u \<Longrightarrow> u = t"
  by (auto simp: ex_create_def ex_type_name_def split: if_splits)

text \<open>Every column has a \<open>Type\<close> of its own, at an address of its own.\<close>

lemma ex_ch_lib_ok: "ch_lib_ok ex_api"
  by (auto simp: ch_lib_ok_def ex_api_def dest: ex_create_name)

lemma ex_lib_block_ok: "lib_block_ok ex_api"
  by (simp add: lib_block_ok_def)

lemma ex_lib_samples_ok: "lib_samples_ok ex_api"
  by (simp add: lib_samples_ok_def ex_sample_def block_types_def)

lemma ex_abi_honours_verdict: "abi_honours_verdict ex_api"
  by (simp add: abi_honours_verdict_def)

lemma ex_rand_ok: "rand_ok ex_api"
  by (simp add: rand_ok_def ex_api_def)

lemmas ex_ok = ex_php_api_ok ex_lib_stores ex_ch_lib_ok ex_lib_block_ok ex_lib_samples_ok
  ex_abi_honours_verdict ex_rand_ok

section \<open>A network\<close>

text \<open>A network that moves at most two bytes at a time; its state counts the calls.\<close>

definition ex_net :: "nat net_api" where
  "ex_net =
     \<lparr>os = Posix,
      abi_current_coroutine = (\<lambda>w. Some 0),
      abi_new_socket_event = (\<lambda>fd ev (eg, w). (Some w, (eg, Suc w))),
      abi_event_release = (\<lambda>e x. ((), x)),
      abi_waker_new = (\<lambda>c t x. ((), x)),
      abi_resume_when = (\<lambda>c e x. ((), x)),
      abi_waker_clean = (\<lambda>c x. ((), x)),
      abi_suspend = (\<lambda>x. (True, x)),
      sys_recv = (\<lambda>fd len x. ((min len 2, replicate (nat (min len 2)) 65, EAGAIN), x)),
      sys_send = (\<lambda>fd bs len x. ((min len 2, EAGAIN), x)),
      sys_getfl = (\<lambda>fd x. (2, x)),
      sys_setfl = (\<lambda>fd f x. ((), x)),
      sys_ioctl_nonblocking = (\<lambda>fd x. ((), x)),
      o_nonblock = 2048,
      stream_read = (\<lambda>st len x. ((int (min len 2), replicate (min len 2) 65), x)),
      stream_write = (\<lambda>st bs x. (int (min (length bs) 2), x)),
      stream_close = (\<lambda>st x. ((), x)),
      xport_create = (\<lambda>url v1 v2 x. ((Some 3, None), x))\<rparr>"

definition ex_net_state :: "nat net" where
  "ex_net_state = \<lparr>n_eg = None, n_ext = 0, n_log = []\<rparr>"

lemma ex_net_ok: "net_ok ex_net"
  by (auto simp: net_ok_def ex_net_def)

end
