(* ===== verification/Ch_Ownership.thy ===== *)
theory Ch_Ownership
  imports Ch_Api
begin

text \<open>
  Who holds a connection: a ledger over the log of foreign calls, what every operation of the
  result, the batch and the Client does to it, and the whole application, which is one Client with
  all its live \<open>Result\<close> and \<open>Batch\<close> objects, used in any order.
\<close>

section \<open>The ledger\<close>

text \<open>Acquiring a connection counts one, giving it back minus one.\<close>

fun ledger_entry :: "nat \<Rightarrow> nat \<Rightarrow> call \<Rightarrow> int" where
  "ledger_entry p c (CAcquire p' (Some c')) = of_bool (p' = p \<and> c' = c)"
| "ledger_entry p c (CRelease p' c' keep) = - of_bool (p' = p \<and> c' = c)"
| "ledger_entry p c x = 0"

definition held :: "nat \<Rightarrow> nat \<Rightarrow> call list \<Rightarrow> int" where
  "held p c cs = sum_list (map (ledger_entry p c) cs)"

lemma held_simps [simp]:
  "held p c [] = 0" "held p c (x # cs) = ledger_entry p c x + held p c cs"
  "held p c (cs @ ds) = held p c cs + held p c ds"
  by (simp_all add: held_def)

fun closes_pool :: "call \<Rightarrow> bool" where
  "closes_pool (CClosePool p) = True"
| "closes_pool x = False"

text \<open>\<open>moves d s s'\<close>: from \<open>s\<close> to \<open>s'\<close> the ledger moves by \<open>d\<close>, and no pool is closed.\<close>

definition moves :: "(nat \<Rightarrow> nat \<Rightarrow> int) \<Rightarrow> 'w vm \<Rightarrow> 'w vm \<Rightarrow> bool" where
  "moves d s s' \<longleftrightarrow>
     (\<exists>t. calls s' = calls s @ t \<and> (\<forall>p c. held p c t = d p c) \<and> list_all (\<lambda>x. \<not> closes_pool x) t)"

abbreviation keeps :: "'w vm \<Rightarrow> 'w vm \<Rightarrow> bool" where
  "keeps \<equiv> moves (\<lambda>p c. 0)"

definition one :: "nat \<Rightarrow> nat \<Rightarrow> nat \<Rightarrow> nat \<Rightarrow> int" where
  "one p c = (\<lambda>p' c'. of_bool (p' = p \<and> c' = c))"

lemma moves_trans:
  "moves d s s1 \<Longrightarrow> moves e s1 s2 \<Longrightarrow> moves (\<lambda>p c. d p c + e p c) s s2"
  by (fastforce simp: moves_def)

lemma moves_keeps: "moves d s s1 \<Longrightarrow> keeps s1 s2 \<Longrightarrow> moves d s s2"
  using moves_trans [of d s s1 "\<lambda>p c. 0" s2] by simp

lemma keeps_moves: "keeps s s1 \<Longrightarrow> moves d s1 s2 \<Longrightarrow> moves d s s2"
  using moves_trans [of "\<lambda>p c. 0" s s1 d s2] by simp

lemma keeps_same: "calls s' = calls s \<Longrightarrow> keeps s s'"
  by (simp add: moves_def)

lemma keeps_trans_same: "keeps s s1 \<Longrightarrow> calls s2 = calls s1 \<Longrightarrow> keeps s s2"
  by (simp add: moves_def)

lemma moves_one: "calls s' = calls s @ [x] \<Longrightarrow> \<not> closes_pool x \<Longrightarrow>
    (\<And>p c. ledger_entry p c x = d p c) \<Longrightarrow> moves d s s'"
  by (simp add: moves_def)

lemma moves_held: "moves d s s' \<Longrightarrow> held p c (calls s') = held p c (calls s) + d p c"
  by (auto simp: moves_def)

lemma moves_closes: "moves d s s' \<Longrightarrow>
    list_all (\<lambda>x. \<not> closes_pool x) (calls s') = list_all (\<lambda>x. \<not> closes_pool x) (calls s)"
  by (auto simp: moves_def)

lemma held_zero: "(\<And>x. x \<in> set t \<Longrightarrow> ledger_entry p c x = 0) \<Longrightarrow> held p c t = 0"
  by (induction t) auto

lemma keeps_list: "calls s' = calls s @ t \<Longrightarrow>
    (\<And>x. x \<in> set t \<Longrightarrow> \<not> closes_pool x \<and> (\<forall>p c. ledger_entry p c x = 0)) \<Longrightarrow> keeps s s'"
  unfolding moves_def by (intro exI [of _ t]) (auto simp: list_all_iff intro: held_zero)

lemma pool_release_moves: "moves (\<lambda>p' c'. - one p c p' c') s (pool_release A p c s)"
proof -
  from pool_release_calls [of A p c s] obtain t where
    t: "calls (pool_release A p c s) = calls s @ CRelease p c (ch_pool_before_release c s) # t"
    "\<forall>x \<in> set t. \<exists>h. x = CDelete h" by blast
  from t(2) have "held p' c' t = 0" for p' c'
    by (intro held_zero) auto
  moreover from t(2) have "list_all (\<lambda>x. \<not> closes_pool x) t"
    by (auto simp: list_all_iff)
  ultimately show ?thesis
    unfolding moves_def using t(1)
    by (intro exI [of _ "CRelease p c (ch_pool_before_release c s) # t"]) (auto simp: one_def)
qed

section \<open>Results and batches\<close>

text \<open>What a handle holds, and a step that books exactly the change of it.\<close>

definition result_holds :: "ch_result \<Rightarrow> nat \<Rightarrow> nat \<Rightarrow> int" where
  "result_holds r p c = (if res_released r then 0 else one (res_pool r) (res_conn r) p c)"

definition batch_holds :: "ch_batch \<Rightarrow> nat \<Rightarrow> nat \<Rightarrow> int" where
  "batch_holds b p c = (if bat_released b then 0 else one (bat_pool b) (bat_conn b) p c)"

definition booked :: "('h \<Rightarrow> nat \<Rightarrow> nat \<Rightarrow> int) \<Rightarrow> 'h \<Rightarrow> 'w vm \<Rightarrow> 'h \<Rightarrow> 'w vm \<Rightarrow> bool" where
  "booked holds h s h' s' \<longleftrightarrow> moves (\<lambda>p c. holds h' p c - holds h p c) s s'"

lemma booked_trans: "booked holds h s h1 s1 \<Longrightarrow> booked holds h1 s1 h2 s2 \<Longrightarrow> booked holds h s h2 s2"
  unfolding booked_def by (drule (1) moves_trans) simp

lemma booked_keeps: "holds h' = holds h \<Longrightarrow> keeps s s' \<Longrightarrow> booked holds h s h' s'"
  by (simp add: booked_def)

lemma booked_finish:
  assumes "ch_result_finish A r s = (r', s')"
  shows "booked result_holds r s r' s'"
proof (cases "res_released r")
  case True
  with assms have "s' = s" "res_released r'"
    by (auto simp: ch_result_finish_eq ch_result_release_def)
  with True show ?thesis
    by (intro booked_keeps) (simp_all add: result_holds_def fun_eq_iff keeps_same)
next
  case False
  define s1 where "s1 = (if res_broken r then set_broken (res_conn r) s else s)"
  from False assms have "s' = pool_release A (res_pool r) (res_conn r) s1" "res_released r'"
    by (auto simp: ch_result_finish_eq ch_result_release_def s1_def)
  moreover have "keeps s s1"
    by (rule keeps_same) (simp add: s1_def)
  ultimately show ?thesis
    using False keeps_moves [OF _ pool_release_moves [of "res_pool r" "res_conn r" s1 A]]
    by (simp add: booked_def result_holds_def)
qed

lemma result_holds_broken [simp]: "result_holds (r\<lparr>res_broken := x\<rparr>) = result_holds r"
  by (simp add: result_holds_def fun_eq_iff)

lemma booked_failed:
  assumes "result_failed A e r s = (r', s')"
  shows "booked result_holds r s r' s'"
  using assms
proof (cases rule: result_failed_cases)
  case (1 s1)
  from booked_finish [OF 1(1)] have "booked result_holds r s r' s1"
    by (simp add: booked_def)
  moreover have "booked result_holds r' s1 r' s'"
    by (rule booked_keeps) (simp_all add: 1(2) keeps_same)
  ultimately show ?thesis by (rule booked_trans)
qed

lemma same_holds: "same_handle r r' \<Longrightarrow> res_released r' = res_released r \<Longrightarrow>
    result_holds r' = result_holds r"
  by (simp add: same_handle_def result_holds_def fun_eq_iff)

lemma booked_next_block:
  assumes "next_block A r s = (res, r1, s1)"
  shows "booked result_holds r s r1 s1"
  using next_block_frame [OF assms]
  by (intro booked_keeps same_holds)
    (auto intro!: moves_one [of _ _ "CNextBlock (res_client r) (next_outcome res)"])

lemma booked_load_block [simp]: "booked result_holds r s (ch_result_load_block b r) s"
  by (intro booked_keeps keeps_same) (simp_all add: result_holds_def fun_eq_iff)

lemma booked_next:
  assumes "ch_result_next A r s = Some (out, r', s')"
  shows "booked result_holds r s r' s'"
  using assms
proof (induction rule: ch_result_next_induct)
  case (more r s b r1 s1 out r' s')
  from booked_trans [OF booked_next_block [OF more(3)] booked_trans [OF booked_load_block more(4)]]
  show ?case .
next
  case (row r s ht)
  show ?case by (intro booked_keeps keeps_same) (simp_all add: result_holds_def fun_eq_iff)
next
  case (exhausted r s)
  show ?case by (intro booked_keeps keeps_same) simp_all
qed (blast intro: booked_trans booked_next_block booked_failed booked_finish)+

lemma booked_prime:
  assumes "prime_loop A r s = Some (out, r', s')"
  shows "booked result_holds r s r' s'"
  using assms
proof (induction rule: prime_loop_induct)
  case (rows r s b r1 s1)
  from booked_trans [OF booked_next_block [OF rows(1)] booked_load_block] show ?case .
qed (blast intro: booked_trans booked_next_block booked_finish)+

lemma ch_result_start_booked:
  assumes "ch_result_start A c h p sql params settings s = Some (out, s')"
  shows "case out of
      Some r \<Rightarrow> moves (\<lambda>p' c'. result_holds r p' c' - one p c p' c') s s'
    | None \<Rightarrow> moves (\<lambda>p' c'. - one p c p' c') s s'"
proof -
  define q where "q = ch_apply_params_settings A \<lparr>q_text = c_str sql, q_params = [], q_settings = []\<rparr>
    params settings"
  let ?n = "new_result A c h p s"
  have n: "result_holds ?n = one p c"
    by (simp add: result_holds_def fun_eq_iff)
  obtain res r1 s1 where b: "begin_execute A q ?n s = (res, r1, s1)"
    by (metis surj_pair)
  have "booked result_holds ?n s r1 s1"
    using begin_execute_frame [OF b]
    by (intro booked_keeps same_holds) (auto simp: same_handle_def intro: moves_one)
  note b1 = this
  have failed: "moves (\<lambda>p' c'. - one p c p' c') s s'"
    if "booked result_holds ?n s r2 s2" "result_failed A e r2 s2 = (r3, s')" for e r2 s2 r3
  proof -
    from failed_frame [OF that(2)] have "result_holds r3 = (\<lambda>p c. 0)"
      by (simp add: result_holds_def fun_eq_iff)
    with booked_trans [OF that(1) booked_failed [OF that(2)]] n show ?thesis
      by (simp add: booked_def)
  qed
  show ?thesis
  proof (cases res)
    case (Inl e)
    with assms b b1 show ?thesis
      by (cases "result_failed A e r1 s1") (auto simp: ch_result_start_def q_def intro: failed)
  next
    case (Inr u)
    with assms b obtain res2 r2 s2 where l: "prime_loop A r1 s1 = Some (res2, r2, s2)"
      by (auto simp: ch_result_start_def q_def split: option.splits)
    note b2 = booked_trans [OF b1 booked_prime [OF l]]
    show ?thesis
    proof (cases res2)
      case (Inl e)
      with assms b l b2 \<open>res = Inr u\<close> show ?thesis
        by (cases "result_failed A e r2 s2") (auto simp: ch_result_start_def q_def intro: failed)
    next
      case (Inr v)
      with assms b l b2 \<open>res = Inr u\<close> n show ?thesis
        by (auto simp: ch_result_start_def q_def booked_def)
    qed
  qed
qed

lemma result_free_moves: "moves (\<lambda>p c. - result_holds r p c) s (ch_result_free A r s)"
proof (cases "res_released r")
  case True
  then show ?thesis
    by (simp add: result_holds_def ch_result_free_def keeps_same)
next
  case False
  define b where "b = (res_broken r \<or> \<not> res_done r)"
  define s1 where "s1 = (if b then set_broken (res_conn r) s else s)"
  from False have "ch_result_free A r s = pool_release A (res_pool r) (res_conn r) s1"
    by (auto simp: ch_result_free_def ch_result_release_def s1_def b_def Let_def)
  moreover have "keeps s s1" by (rule keeps_same) (simp add: s1_def)
  ultimately show ?thesis
    using False keeps_moves [OF _ pool_release_moves [of "res_pool r" "res_conn r" s1 A]]
    by (simp add: result_holds_def)
qed

lemma ch_send_block_keeps:
  assumes "ch_send_block A h stmt names rows broken s = (r, s')"
  shows "keeps s s'"
proof -
  obtain ok broken' where "r = (ok, broken')" by (cases r)
  with assms ch_send_block_calls obtain t where
    "calls s' = calls s @ t" "insert_trace A h stmt names (hash_values rows) s ok t" by blast
  then show ?thesis
    by (intro keeps_list [of s' s t]) (auto simp: insert_trace_def insert_call_def list_all_iff)
qed

lemma ch_client_insert_keeps:
  assumes "ch_client_insert A c table columns rows s = (ok, s')"
  shows "keeps s s'"
proof -
  obtain statement names where b: "ch_build_insert_statement A table columns = (statement, names)"
    by (metis surj_pair)
  show ?thesis
  proof (cases "conns s c")
    case None
    with assms b show ?thesis by (simp add: ch_client_insert_def keeps_same)
  next
    case (Some cl)
    obtain r s1 where
      r: "ch_send_block A (cl_client cl) statement names rows (cl_broken cl) s = (r, s1)"
      by (metis surj_pair)
    from keeps_trans_same [OF ch_send_block_keeps [OF r]] assms b Some r show ?thesis
      by (cases r) (auto simp: ch_client_insert_def)
  qed
qed

lemma booked_flush:
  assumes "ch_batch_flush A b s = (ok, b', s')"
  shows "booked batch_holds b s b' s'"
  using assms
  by (auto simp: ch_batch_flush_def batch_holds_def fun_eq_iff keeps_same
      split: if_splits prod.splits bool.splits dest: ch_send_block_keeps intro!: booked_keeps)

lemma booked_append:
  assumes "ch_batch_append b row s = (ok, b', s')"
  shows "booked batch_holds b s b' s'"
  using ch_batch_append_frame [OF assms]
  by (intro booked_keeps keeps_same) (auto simp: same_batch_def batch_holds_def fun_eq_iff)

lemma batch_free_moves: "moves (\<lambda>p c. - batch_holds b p c) s (ch_batch_free A b s)"
proof (cases "bat_released b")
  case True
  then show ?thesis
    by (simp add: batch_holds_def ch_batch_free_def ch_batch_release_def keeps_same)
next
  case False
  define s1 where "s1 = (if bat_broken b then set_broken (bat_conn b) s else s)"
  from False have "ch_batch_free A b s = pool_release A (bat_pool b) (bat_conn b) s1"
    by (auto simp: ch_batch_free_def ch_batch_release_def s1_def Let_def)
  moreover have "keeps s s1" by (rule keeps_same) (simp add: s1_def)
  ultimately show ?thesis
    using False keeps_moves [OF _ pool_release_moves [of "bat_pool b" "bat_conn b" s1 A]]
    by (simp add: batch_holds_def)
qed

section \<open>Acquiring\<close>

text \<open>What the code relies on when it dereferences the pointer \<open>ZEND_ASYNC_POOL_ACQUIRE\<close> gave it:
  an idle connection the pool hands out still exists.\<close>

definition idle_lives :: "'w ch_api \<Rightarrow> client_object \<Rightarrow> 'w vm \<Rightarrow> bool" where
  "idle_lives A obj s \<longleftrightarrow>
     (\<forall>c obj1 s1. ch_pool_acquire A obj s = (Some c, obj1, s1) \<longrightarrow> conns s1 c \<noteq> None)"

lemma ch_pool_factory_keeps:
  assumes "ch_pool_factory A obj s = (c, obj1, s1)"
  shows "keeps s s1 \<and> obj_pool obj1 = obj_pool obj"
proof -
  obtain start obj2 s2 where c: "choose_start A obj s = (start, obj2, s2)"
    by (metis surj_pair)
  obtain co s3 where con: "ch_client_connect A (connection_config obj2 start) s2 = (co, s3)"
    by (metis surj_pair)
  from c con assms have "obj1 = obj2" "s1 = s3"
    by (simp_all add: ch_pool_factory_def)
  moreover have "keeps s s2"
    using choose_start_frame [OF c] by (intro keeps_same) simp
  moreover have "keeps s2 s3"
    using ch_client_connect_calls [of A "connection_config obj2 start" s2] con
    by (auto intro!: moves_one)
  moreover have "obj_pool obj2 = obj_pool obj"
    using c by (auto simp: choose_start_def Let_def split: if_splits prod.splits)
  ultimately show ?thesis using keeps_moves by blast
qed

lemma ch_pool_ensure_keeps:
  assumes "ch_pool_ensure A obj s = (ok, obj1, s1)"
  shows "keeps s s1 \<and> (ok \<longleftrightarrow> obj_pool obj1 \<noteq> None)
    \<and> (obj_pool obj \<noteq> None \<longrightarrow> obj_pool obj1 = obj_pool obj)"
proof (cases "obj_pool obj")
  case None
  obtain p s0 where n: "ext_call (abi_new_pool A (unat (obj_pool_max obj))) s = (p, s0)"
    by (metis surj_pair)
  from ext_call_frame [OF n] have "calls s0 = calls s" by simp
  show ?thesis
  proof (cases p)
    case None
    with n assms \<open>obj_pool obj = None\<close> \<open>calls s0 = calls s\<close> show ?thesis
      by (auto simp: ch_pool_ensure_def split: if_splits intro!: keeps_same)
  next
    case (Some q)
    with n assms \<open>obj_pool obj = None\<close> \<open>calls s0 = calls s\<close> show ?thesis
      by (auto simp: ch_pool_ensure_def intro!: moves_one [of _ _ "CNewPool q m" for m])
  qed
next
  case (Some p)
  with assms show ?thesis by (auto simp: ch_pool_ensure_def intro: keeps_same)
qed

lemma ch_pool_acquire_moves:
  assumes "ch_pool_acquire A obj s = (c, obj1, s1)"
  shows "case c of None \<Rightarrow> keeps s s1 | Some c \<Rightarrow> \<exists>p. obj_pool obj1 = Some p \<and> moves (one p c) s s1"
proof -
  obtain ok obj2 s2 where e: "ch_pool_ensure A obj s = (ok, obj2, s2)"
    by (metis surj_pair)
  note ek = ch_pool_ensure_keeps [OF e]
  show ?thesis
  proof (cases "obj_pool obj2")
    case None
    with e assms ek show ?thesis by (auto simp: ch_pool_acquire_def)
  next
    case (Some p)
    obtain a s3 where a: "ext_call (abi_acquire A p ch_pool_accept) s2 = (a, s3)"
      by (metis surj_pair)
    from ext_call_frame [OF a] have s3: "calls s3 = calls s2" by simp
    have run: "pool_acquire A p obj2 s2 = (c, obj1, s1)"
      using e assms ek Some by (simp add: ch_pool_acquire_def)
    have log: "moves (case x of None \<Rightarrow> \<lambda>p c. 0 | Some c \<Rightarrow> one p c) s' (log_call (CAcquire p x) s')"
      for x s' by (rule moves_one [of _ _ "CAcquire p x"]) (auto simp: one_def split: option.split)
    have "(case c of None \<Rightarrow> keeps s2 s1 | Some c \<Rightarrow> moves (one p c) s2 s1) \<and> obj_pool obj1 = Some p"
    proof (cases a)
      case (AcqIdle c')
      with run a Some keeps_moves [OF keeps_same [OF s3] log [of "Some c'" s3]] show ?thesis
        by (auto simp: pool_acquire_def)
    next
      case AcqNew
      obtain c' obj3 s4 where f: "ch_pool_factory A obj2 s3 = (c', obj3, s4)"
        by (metis surj_pair)
      note fk = ch_pool_factory_keeps [OF f]
      from keeps_moves [OF keeps_same [OF s3] keeps_moves [OF conjunct1 [OF fk] log [of c' s4]]]
      show ?thesis
        using AcqNew run a f fk Some by (auto simp: pool_acquire_def split: option.splits)
    next
      case AcqFail
      with run a Some keeps_moves [OF keeps_same [OF s3] log [of None s3]] show ?thesis
        by (auto simp: pool_acquire_def)
    qed
    with ek show ?thesis by (cases c) (auto intro: keeps_moves)
  qed
qed

lemma with_connection_moves:
  assumes "with_connection A a = (r, a1)" and "idle_lives A (app_client a) (app_vm a)"
  shows "app_refs a1 = app_refs a \<and>
    (case r of None \<Rightarrow> keeps (app_vm a) (app_vm a1)
     | Some (c, h, p) \<Rightarrow> moves (one p c) (app_vm a) (app_vm a1))"
proof -
  obtain c obj1 s1 where q: "ch_pool_acquire A (app_client a) (app_vm a) = (c, obj1, s1)"
    by (metis surj_pair)
  note m = ch_pool_acquire_moves [OF q]
  show ?thesis
  proof (cases c)
    case None
    with m q assms(1) show ?thesis by (auto simp: with_connection_def)
  next
    case (Some c')
    with q assms(2) obtain cl where "conns s1 c' = Some cl"
      by (auto simp: idle_lives_def)
    with m q assms(1) Some show ?thesis by (auto simp: with_connection_def Let_def)
  qed
qed

end
