(* ===== verification/Ch_World.thy ===== *)
theory Ch_World
  imports Ch_Ownership
begin

text \<open>
  The whole application: one Client with all \<open>Result\<close> and \<open>Batch\<close> objects PHP code holds,
  used in any order. The invariant ties the log of acquired and released connections and the
  reference count of the Client to the objects that are alive.
\<close>

section \<open>What a PHP object holds\<close>

definition ro_holds :: "result_object \<Rightarrow> nat \<Rightarrow> nat \<Rightarrow> int" where
  "ro_holds obj = (case ro_result obj of None \<Rightarrow> (\<lambda>p c. 0) | Some r \<Rightarrow> result_holds r)"

definition bo_holds :: "batch_object \<Rightarrow> nat \<Rightarrow> nat \<Rightarrow> int" where
  "bo_holds obj = (case bo_batch obj of None \<Rightarrow> (\<lambda>p c. 0) | Some b \<Rightarrow> batch_holds b)"

text \<open>A method of a Result books the change of what the Result holds and keeps its reference to
  the Client.\<close>

definition ro_step :: "result_object \<times> 'w vm \<Rightarrow> result_object \<times> 'w vm \<Rightarrow> bool" where
  "ro_step x y \<longleftrightarrow>
     booked ro_holds (fst x) (snd x) (fst y) (snd y) \<and> ro_client (fst y) = ro_client (fst x)"

lemma ro_step_trans: "ro_step x y \<Longrightarrow> ro_step y z \<Longrightarrow> ro_step x z"
  by (auto simp: ro_step_def intro: booked_trans)

lemma ro_holds_update [simp]:
  "ro_holds (obj\<lparr>ro_current := a\<rparr>) = ro_holds obj" "ro_holds (obj\<lparr>ro_valid := b\<rparr>) = ro_holds obj"
  "ro_holds (obj\<lparr>ro_pos := c\<rparr>) = ro_holds obj" "ro_holds (obj\<lparr>ro_started := d\<rparr>) = ro_holds obj"
  "ro_holds (obj\<lparr>ro_client := e\<rparr>) = ro_holds obj"
  "ro_holds (obj\<lparr>ro_result := Some r\<rparr>) = result_holds r"
  by (simp_all add: ro_holds_def)

lemma ro_step_same: "ro_holds obj' = ro_holds obj \<Longrightarrow> ro_client obj' = ro_client obj \<Longrightarrow>
    ro_step (obj, s) (obj', s)"
  by (simp add: ro_step_def booked_keeps keeps_same)

lemma ro_step_next:
  "ro_result obj = Some r \<Longrightarrow> booked result_holds r s r' s' \<Longrightarrow>
    ro_step (obj, s) (obj\<lparr>ro_result := Some r'\<rparr>, s')"
  by (simp add: ro_step_def booked_def ro_holds_def)

lemma pull_row_step:
  assumes "pull_row A obj s = Some (row, obj', s')"
  shows "ro_step (obj, s) (obj', s')"
  using assms
  by (auto simp: pull_row_def split: option.splits
      intro: ro_step_same ro_step_next dest: booked_next)

lemma advance_step:
  assumes "ch_result_object_advance A obj s = Some (obj', s')"
  shows "ro_step (obj, s) (obj', s')"
proof -
  from assms obtain row obj1 s1 where p: "pull_row A (obj\<lparr>ro_current := None\<rparr>) s = Some (row, obj1, s1)"
    by (auto simp: ch_result_object_advance_def split: option.splits)
  have "ro_step (obj, s) (obj1, s1)"
    by (rule ro_step_trans [OF ro_step_same pull_row_step [OF p]]) simp_all
  moreover have "ro_step (obj1, s1) (obj', s')"
    using assms p
    by (auto simp: ch_result_object_advance_def split: option.splits intro!: ro_step_same)
  ultimately show ?thesis by (rule ro_step_trans)
qed

lemma fetchAll_step:
  assumes "result_fetchAll A obj s = Some (v, obj', s')"
  shows "ro_step (obj, s) (obj', s')"
proof (cases "ro_result obj")
  case None
  with assms show ?thesis by (auto simp: result_fetchAll_def intro: ro_step_same)
next
  case (Some r)
  with assms obtain rows r' where
    d: "drain (\<lambda>(r, s). ch_result_next A r s) (r, s) [] = Some (rows, r', s')"
    and obj': "obj' = obj\<lparr>ro_result := Some r'\<rparr>"
    by (auto simp: result_fetchAll_def split: option.splits)
  have "(\<lambda>(r, s) (r', s'). booked result_holds r s r' s') (r, s) (r', s')"
    using d
    by (rule drain_rel) (auto dest: booked_next intro: booked_trans)
  with Some obj' show ?thesis by (auto intro: ro_step_next)
qed

text \<open>Every method of \<open>Result\<close> that touches its state.\<close>

inductive result_method ::
    "'w ch_api \<Rightarrow> result_object \<Rightarrow> 'w vm \<Rightarrow> result_object \<Rightarrow> 'w vm \<Rightarrow> bool" for A obj s obj' s' where
  fetch: "result_fetch A obj s = Some (v, obj', s') \<Longrightarrow> result_method A obj s obj' s'"
| fetchAll: "result_fetchAll A obj s = Some (v, obj', s') \<Longrightarrow> result_method A obj s obj' s'"
| fetchOne: "result_fetchOne A obj s = Some (v, obj', s') \<Longrightarrow> result_method A obj s obj' s'"
| rewind: "result_rewind A obj s = Some (obj', s') \<Longrightarrow> result_method A obj s obj' s'"
| "next": "result_next A obj s = Some (obj', s') \<Longrightarrow> result_method A obj s obj' s'"

lemma fetch_pull: "result_fetch A obj s = Some (v, obj', s') \<Longrightarrow> \<exists>row. pull_row A obj s = Some (row, obj', s')"
  by (auto simp: result_fetch_def split: option.splits)

lemma fetchOne_pull:
  "result_fetchOne A obj s = Some (v, obj', s') \<Longrightarrow> \<exists>row. pull_row A obj s = Some (row, obj', s')"
  by (auto simp: result_fetchOne_def split: option.splits zval.splits)

lemma result_method_step: "result_method A obj s obj' s' \<Longrightarrow> ro_step (obj, s) (obj', s')"
proof (induction rule: result_method.induct)
  case (rewind)
  show ?case
  proof (cases "ro_started obj")
    case True
    with rewind show ?thesis by (auto simp: result_rewind_def intro: ro_step_same)
  next
    case False
    with rewind have "ch_result_object_advance A (obj\<lparr>ro_started := True\<rparr>) s = Some (obj', s')"
      by (simp add: result_rewind_def)
    from ro_step_trans [OF ro_step_same advance_step [OF this]] show ?thesis by simp
  qed
qed (auto simp: result_next_def dest!: fetch_pull fetchOne_pull
    intro: pull_row_step fetchAll_step advance_step)

inductive batch_method ::
    "'w ch_api \<Rightarrow> batch_object \<Rightarrow> 'w vm \<Rightarrow> batch_object \<Rightarrow> 'w vm \<Rightarrow> bool" for A obj s obj' s' where
  append: "batch_append obj row s = (obj', s') \<Longrightarrow> batch_method A obj s obj' s'"
| flush: "batch_flush A obj s = (obj', s') \<Longrightarrow> batch_method A obj s obj' s'"
| count: "batch_count obj s = (n, s') \<Longrightarrow> obj' = obj \<Longrightarrow> batch_method A obj s obj' s'"

lemma batch_method_step:
  assumes "batch_method A obj s obj' s'"
  shows "booked bo_holds obj s obj' s' \<and> bo_client obj' = bo_client obj"
  using assms
proof (cases "bo_batch obj")
  case None
  with assms show ?thesis
    by (auto simp: batch_append_def batch_flush_def batch_count_def ch_batch_this_def
        elim!: batch_method.cases intro!: booked_keeps keeps_same)
next
  case (Some b)
  have step: "booked bo_holds obj s (obj\<lparr>bo_batch := Some b'\<rparr>) s'"
    if "booked batch_holds b s b' s'" for b'
    using that Some by (simp add: booked_def bo_holds_def)
  from assms show ?thesis
  proof cases
    case (append row)
    with Some show ?thesis
      by (auto simp: batch_append_def ch_batch_this_def split: prod.splits
          intro!: step dest: booked_append)
  next
    case flush
    with Some show ?thesis
      by (auto simp: batch_flush_def ch_batch_this_def split: prod.splits
          intro!: step dest: booked_flush)
  next
    case (count n)
    with Some show ?thesis
      by (auto simp: batch_count_def ch_batch_this_def intro!: booked_keeps keeps_same)
  qed
qed

section \<open>The application\<close>

text \<open>\<open>w_user\<close>: PHP code still holds the Client itself.\<close>

record 'w world =
  w_app :: "'w app"
  w_user :: bool
  w_results :: "result_object list"
  w_batches :: "batch_object list"

fun of_option :: "'a option \<Rightarrow> 'a list" where
  "of_option None = []"
| "of_option (Some x) = [x]"

abbreviation client_ready :: "'w ch_api \<Rightarrow> 'w world \<Rightarrow> bool" where
  "client_ready A w \<equiv> w_user w \<and> idle_lives A (app_client (w_app w)) (app_vm (w_app w))"

text \<open>One step of PHP code: a method of the Client, of a Result or of a Batch; an object of the
  two classes that is constructed directly; the end of a Result, of a Batch, or of the last
  reference PHP code has to the Client.\<close>

inductive world_step :: "'w ch_api \<Rightarrow> 'w world \<Rightarrow> 'w world \<Rightarrow> bool" for A w where
  query: "client_ready A w \<Longrightarrow> client_query A sql params options (w_app w) = Some (r, a) \<Longrightarrow>
    world_step A w (w\<lparr>w_app := a, w_results := w_results w @ of_option r\<rparr>)"
| insert: "client_ready A w \<Longrightarrow> client_insert A table columns rows (w_app w) = (ok, a) \<Longrightarrow>
    world_step A w (w\<lparr>w_app := a\<rparr>)"
| insert_batch: "client_ready A w \<Longrightarrow> client_insertBatch A table columns (w_app w) = (b, a) \<Longrightarrow>
    world_step A w (w\<lparr>w_app := a, w_batches := w_batches w @ of_option b\<rparr>)"
| get_pool: "w_user w \<Longrightarrow> client_getPool A (w_app w) = (p, a) \<Longrightarrow> world_step A w (w\<lparr>w_app := a\<rparr>)"
| new_result: "world_step A w (w\<lparr>w_results := w_results w @ [ch_result_object_create]\<rparr>)"
| new_batch: "world_step A w (w\<lparr>w_batches := w_batches w @ [ch_batch_object_create]\<rparr>)"
| result_call: "w_results w = xs @ obj # ys \<Longrightarrow>
    result_method A obj (app_vm (w_app w)) obj' s \<Longrightarrow>
    world_step A w (w\<lparr>w_app := (w_app w)\<lparr>app_vm := s\<rparr>, w_results := xs @ obj' # ys\<rparr>)"
| batch_call: "w_batches w = bs @ bobj # cs \<Longrightarrow>
    batch_method A bobj (app_vm (w_app w)) bobj' s \<Longrightarrow>
    world_step A w (w\<lparr>w_app := (w_app w)\<lparr>app_vm := s\<rparr>, w_batches := bs @ bobj' # cs\<rparr>)"
| free_result: "w_results w = xs @ obj # ys \<Longrightarrow>
    world_step A w (w\<lparr>w_app := ch_result_object_free A obj (w_app w), w_results := xs @ ys\<rparr>)"
| free_batch: "w_batches w = bs @ bobj # cs \<Longrightarrow>
    world_step A w (w\<lparr>w_app := ch_batch_object_free A bobj (w_app w), w_batches := bs @ cs\<rparr>)"
| drop_client: "w_user w \<Longrightarrow>
    world_step A w (w\<lparr>w_app := obj_release A (w_app w), w_user := False\<rparr>)"

text \<open>A fresh Client without a pool, held by PHP code, and nothing done yet.\<close>

definition world_start :: "client_object \<Rightarrow> 'w vm \<Rightarrow> 'w world" where
  "world_start obj s =
     \<lparr>w_app = \<lparr>app_client = obj, app_refs = 1, app_vm = s\<rparr>, w_user = True, w_results = [],
      w_batches = []\<rparr>"

inductive world_run :: "'w ch_api \<Rightarrow> 'w world \<Rightarrow> 'w world \<Rightarrow> bool" for A w where
  start: "world_run A w w"
| step: "world_run A w w1 \<Longrightarrow> world_step A w1 w2 \<Longrightarrow> world_run A w w2"

section \<open>The invariant\<close>

definition w_holds :: "'w world \<Rightarrow> nat \<Rightarrow> nat \<Rightarrow> int" where
  "w_holds w p c =
     (\<Sum>obj\<leftarrow>w_results w. ro_holds obj p c) + (\<Sum>obj\<leftarrow>w_batches w. bo_holds obj p c)"

definition w_refs :: "'w world \<Rightarrow> nat" where
  "w_refs w =
     of_bool (w_user w) + length (filter ro_client (w_results w)) + length (filter bo_client (w_batches w))"

definition no_close :: "'w vm \<Rightarrow> bool" where
  "no_close s \<longleftrightarrow> list_all (\<lambda>x. \<not> closes_pool x) (calls s)"

definition world_ok :: "'w world \<Rightarrow> bool" where
  "world_ok w \<longleftrightarrow>
     (\<forall>p c. held p c (calls (app_vm (w_app w))) = w_holds w p c) \<and>
     app_refs (w_app w) = w_refs w \<and>
     (0 < w_refs w \<longrightarrow> no_close (app_vm (w_app w)))"

lemma world_ok_start: "calls s = [] \<Longrightarrow> world_ok (world_start obj s)"
  by (simp add: world_ok_def world_start_def w_holds_def w_refs_def no_close_def)

lemma no_close_moves: "moves d s s' \<Longrightarrow> no_close s' = no_close s"
  by (simp add: no_close_def moves_closes)

lemma world_ok_moves:
  assumes "world_ok w" and "moves d (app_vm (w_app w)) (app_vm (w_app w'))"
    and "\<And>p c. w_holds w' p c = w_holds w p c + d p c"
    and "app_refs (w_app w') + w_refs w = app_refs (w_app w) + w_refs w'"
    and "w_refs w = 0 \<Longrightarrow> w_refs w' = 0"
  shows "world_ok w'"
  using assms moves_held [OF assms(2)] no_close_moves [OF assms(2)]
  by (cases "w_refs w = 0") (auto simp: world_ok_def)

lemma w_holds_simps [simp]:
  "w_holds (w\<lparr>w_app := a\<rparr>) = w_holds w" "w_holds (w\<lparr>w_user := u\<rparr>) = w_holds w"
  by (simp_all add: w_holds_def fun_eq_iff)

text \<open>Giving a reference up: only the last one tears anything down.\<close>

lemma teardown_entry: "is_teardown x \<Longrightarrow> ledger_entry p c x = 0"
  by (cases x) auto

lemma obj_release_held: "held p c (calls (app_vm (obj_release A a))) = held p c (calls (app_vm a))"
proof -
  obtain t where t: "calls (app_vm (obj_release A a)) = calls (app_vm a) @ t" "list_all is_teardown t"
    using obj_release_teardown [of a A] by (auto simp: only_teardown_def)
  then have "held p c t = 0"
    by (intro held_zero) (auto simp: list_all_iff intro: teardown_entry)
  with t(1) show ?thesis by simp
qed

lemma obj_release_refs: "app_refs (obj_release A a) = app_refs a - 1"
  by (simp add: obj_release_def)

lemma obj_release_alive: "app_refs a \<noteq> 1 \<Longrightarrow> app_vm (obj_release A a) = app_vm a"
  by (simp add: obj_release_def)

lemma world_ok_release:
  assumes "\<forall>p c. held p c (calls (app_vm a)) = w_holds w p c" and "app_refs a = Suc (w_refs w)"
    and "no_close (app_vm a)" and "w_app w = obj_release A a"
  shows "world_ok w"
  using assms obj_release_alive [of a A]
  by (auto simp: world_ok_def obj_release_held obj_release_refs)

section \<open>Every step keeps it\<close>

lemma client_query_moves:
  assumes "client_query A sql params options a = Some (r, a')"
    and "idle_lives A (app_client a) (app_vm a)"
  shows "moves (\<lambda>p c. \<Sum>obj\<leftarrow>of_option r. ro_holds obj p c) (app_vm a) (app_vm a')
    \<and> app_refs a' = app_refs a + length (filter ro_client (of_option r))"
proof -
  obtain x a1 where c: "with_connection A a = (x, a1)" by (metis surj_pair)
  note m = with_connection_moves [OF c assms(2)]
  show ?thesis
  proof (cases x)
    case None
    with c m assms(1) show ?thesis by (auto simp: client_query_def)
  next
    case (Some y)
    then obtain cn h p where x: "x = Some (cn, h, p)" by (cases y) auto
    with c assms(1) obtain out s2 where
      st: "ch_result_start A cn h p sql params (query_settings options) (app_vm a1) = Some (out, s2)"
      by (auto simp: client_query_def split: option.splits)
    from m x have "moves (one p cn) (app_vm a) (app_vm a1)" by simp
    from moves_trans [OF this] ch_result_start_booked [OF st] x c m st assms(1) show ?thesis
      by (cases out) (force simp: client_query_def ro_holds_def)+
  qed
qed

lemma client_insert_moves:
  assumes "client_insert A table columns rows a = (ok, a')"
    and "idle_lives A (app_client a) (app_vm a)"
  shows "keeps (app_vm a) (app_vm a') \<and> app_refs a' = app_refs a"
proof -
  obtain x a1 where c: "with_connection A a = (x, a1)" by (metis surj_pair)
  note m = with_connection_moves [OF c assms(2)]
  show ?thesis
  proof (cases x)
    case None
    with c m assms(1) show ?thesis by (auto simp: client_insert_def)
  next
    case (Some y)
    then obtain cn h p where x: "x = Some (cn, h, p)" by (cases y) auto
    obtain s2 where i: "ch_client_insert A cn table columns rows (app_vm a1) = (ok, s2)"
      and a': "a' = a1\<lparr>app_vm := pool_release A p cn s2\<rparr>"
      using x c assms(1) by (auto simp: client_insert_def split: prod.splits)
    have "keeps (app_vm a1) s2"
      using i by (rule ch_client_insert_keeps)
    with m x have "moves (one p cn) (app_vm a) s2" by (auto intro: moves_keeps)
    from moves_trans [OF this pool_release_moves [of p cn s2 A]] a' m x show ?thesis by simp
  qed
qed

lemma client_insertBatch_moves:
  assumes "client_insertBatch A table columns a = (b, a')"
    and "idle_lives A (app_client a) (app_vm a)"
  shows "moves (\<lambda>p c. \<Sum>obj\<leftarrow>of_option b. bo_holds obj p c) (app_vm a) (app_vm a')
    \<and> app_refs a' = app_refs a + length (filter bo_client (of_option b))"
proof -
  obtain x a1 where c: "with_connection A a = (x, a1)" by (metis surj_pair)
  note m = with_connection_moves [OF c assms(2)]
  show ?thesis
  proof (cases x)
    case None
    with c m assms(1) show ?thesis by (auto simp: client_insertBatch_def)
  next
    case (Some y)
    then obtain cn h p where x: "x = Some (cn, h, p)" by (cases y) auto
    have "batch_holds (ch_batch_start A cn h p table columns) = one p cn"
      by (simp add: ch_batch_start_def batch_holds_def fun_eq_iff split: prod.splits)
    with c m x assms(1) show ?thesis
      by (auto simp: client_insertBatch_def bo_holds_def)
  qed
qed

lemma client_getPool_moves:
  fixes a a' :: "'a app"
  assumes "client_getPool A a = (p, a')"
  shows "keeps (app_vm a) (app_vm a') \<and> app_refs a' = app_refs a"
proof -
  obtain ok obj1 s1 where e: "ch_pool_ensure A (app_client a) (app_vm a) = (ok, obj1, s1)"
    by (metis surj_pair)
  from ch_pool_ensure_keeps [OF e] have k: "keeps (app_vm a) s1" by simp
  have x: "keeps (app_vm a) s2" if "ext_call f s1 = (r, s2)" for f :: "('a, 'c) io" and r s2
    using keeps_moves [OF k keeps_same] ext_call_frame [OF that] by simp
  have y: "keeps (app_vm a) (throw_php cl msg s2)" if "ext_call f s1 = (r, s2)"
    for f :: "('a, 'c) io" and r s2 cl msg
    using keeps_moves [OF k keeps_same] ext_call_frame [OF that] by simp
  from e k assms show ?thesis
    by (auto simp: client_getPool_def Let_def split: if_splits option.splits prod.splits
        intro: x y)
qed

text \<open>Freeing an object: first what it holds goes back, then its reference to the Client.\<close>

lemma ch_result_object_free_alt:
  obtains a1 where "app_refs a1 = app_refs a" "moves (\<lambda>p c. - ro_holds obj p c) (app_vm a) (app_vm a1)"
    "ch_result_object_free A obj a = (if ro_client obj then obj_release A a1 else a1)"
proof (cases "ro_result obj")
  case None
  then show thesis
    by (intro that [of a]) (simp_all add: ch_result_object_free_def ro_holds_def keeps_same)
next
  case (Some r)
  then show thesis
    by (intro that [of "a\<lparr>app_vm := ch_result_free A r (app_vm a)\<rparr>"])
      (simp_all add: ch_result_object_free_def ro_holds_def result_free_moves)
qed

lemma ch_batch_object_free_alt:
  obtains a1 where "app_refs a1 = app_refs a" "moves (\<lambda>p c. - bo_holds obj p c) (app_vm a) (app_vm a1)"
    "ch_batch_object_free A obj a = (if bo_client obj then obj_release A a1 else a1)"
proof (cases "bo_batch obj")
  case None
  then show thesis
    by (intro that [of a]) (simp_all add: ch_batch_object_free_def bo_holds_def keeps_same)
next
  case (Some b)
  then show thesis
    by (intro that [of "a\<lparr>app_vm := ch_batch_free A b (app_vm a)\<rparr>"])
      (simp_all add: ch_batch_object_free_def bo_holds_def batch_free_moves)
qed

lemma world_ok_free:
  assumes "world_ok w" and "app_refs a1 = app_refs (w_app w)"
    and "moves (\<lambda>p c. - h p c) (app_vm (w_app w)) (app_vm a1)"
    and "w_app w' = (if client then obj_release A a1 else a1)"
    and "\<And>p c. w_holds w p c = w_holds w' p c + h p c"
    and "w_refs w = w_refs w' + of_bool client"
  shows "world_ok w'"
proof (cases client)
  case True
  with assms no_close_moves [OF assms(3)] show ?thesis
    by (intro world_ok_release [of a1 w' A]) (auto simp: world_ok_def moves_held)
next
  case False
  with assms no_close_moves [OF assms(3)] show ?thesis
    by (auto simp: world_ok_def moves_held)
qed

lemma world_step_ok:
  assumes "world_step A w w'" and "world_ok w"
  shows "world_ok w'"
  using assms(1)
proof cases
  case (query sql params options r a)
  with client_query_moves [OF query(3)] show ?thesis
    by (intro world_ok_moves [OF assms(2)]) (auto simp: w_holds_def w_refs_def)
next
  case (insert table columns rows ok a)
  with client_insert_moves [OF insert(3)] show ?thesis
    by (intro world_ok_moves [OF assms(2)]) (auto simp: w_refs_def)
next
  case (insert_batch table columns b a)
  with client_insertBatch_moves [OF insert_batch(3)] show ?thesis
    by (intro world_ok_moves [OF assms(2)]) (auto simp: w_holds_def w_refs_def)
next
  case (get_pool p a)
  with client_getPool_moves [OF get_pool(3)] show ?thesis
    by (intro world_ok_moves [OF assms(2)]) (auto simp: w_refs_def)
next
  case new_result
  then show ?thesis
    by (intro world_ok_moves [OF assms(2) keeps_same])
      (simp_all add: w_holds_def w_refs_def ch_result_object_create_def ro_holds_def)
next
  case new_batch
  then show ?thesis
    by (intro world_ok_moves [OF assms(2) keeps_same])
      (simp_all add: w_holds_def w_refs_def ch_batch_object_create_def bo_holds_def)
next
  case (result_call xs obj ys obj' s)
  with result_method_step [OF result_call(3)] show ?thesis
    by (intro world_ok_moves [OF assms(2)])
      (auto simp: w_holds_def w_refs_def ro_step_def booked_def)
next
  case (batch_call bs bobj cs bobj' s)
  with batch_method_step [OF batch_call(3)] show ?thesis
    by (intro world_ok_moves [OF assms(2)]) (auto simp: w_holds_def w_refs_def booked_def)
next
  case (free_result xs obj ys)
  obtain a1 where "app_refs a1 = app_refs (w_app w)"
    "moves (\<lambda>p c. - ro_holds obj p c) (app_vm (w_app w)) (app_vm a1)"
    "ch_result_object_free A obj (w_app w) = (if ro_client obj then obj_release A a1 else a1)"
    by (rule ch_result_object_free_alt)
  with free_result show ?thesis
    by (intro world_ok_free [OF assms(2)]) (auto simp: w_holds_def w_refs_def)
next
  case (free_batch bs bobj cs)
  obtain a1 where "app_refs a1 = app_refs (w_app w)"
    "moves (\<lambda>p c. - bo_holds bobj p c) (app_vm (w_app w)) (app_vm a1)"
    "ch_batch_object_free A bobj (w_app w) = (if bo_client bobj then obj_release A a1 else a1)"
    by (rule ch_batch_object_free_alt)
  with free_batch show ?thesis
    by (intro world_ok_free [OF assms(2)]) (auto simp: w_holds_def w_refs_def)
next
  case drop_client
  then show ?thesis
    by (intro world_ok_free [where ?a1.0 = "w_app w" and h = "\<lambda>p c. 0" and client = True and A = A,
          OF assms(2)])
      (auto simp: w_holds_def w_refs_def keeps_same)
qed

lemma world_run_ok: "world_run A w w' \<Longrightarrow> world_ok w \<Longrightarrow> world_ok w'"
  by (induction rule: world_run.induct) (auto intro: world_step_ok)

end
