(* ===== verification/Thm_World.thy ===== *)
theory Thm_World
  imports Ch_Example Ch_World
begin

text \<open>
  Properties of the whole application: every connection is accounted for, whatever PHP code does
  with its objects and in whatever order.
\<close>

section \<open>Ownership of connections\<close>

text \<open>
  C1. No connection is leaked and none is given back twice: whatever sequence of calls PHP code
  makes on a Client, its Results and its Batches, in any interleaving and whether they fail or
  not, the connections taken from the pool and not yet given back are exactly those that live
  Results and Batches hold. Once all of them are freed none is outstanding. The Client has one
  reference for PHP code and one for each such object, so the pool is not closed under an object
  that holds a connection.
\<close>

theorem connections_accounted:
  assumes "world_run A (world_start obj s) w" and "calls s = []"
  shows "held p c (calls (app_vm (w_app w))) = w_holds w p c
    \<and> (w_results w = [] \<and> w_batches w = [] \<longrightarrow> held p c (calls (app_vm (w_app w))) = 0)
    \<and> app_refs (w_app w) = w_refs w
    \<and> (0 < w_refs w \<longrightarrow> no_close (app_vm (w_app w)))"
  using world_run_ok [OF assms(1) world_ok_start [OF assms(2)]]
  by (simp add: world_ok_def w_holds_def)

lemma ex_acquire:
  "ch_pool_acquire ex_api ch_client_object_create (ex_vm [])
     = (Some 1, ch_client_object_create\<lparr>obj_pool := Some 1\<rparr>,
        (ex_vm [])\<lparr>conns := (conns (ex_vm []))(1 \<mapsto> \<lparr>cl_client = 7, cl_broken = False\<rparr>),
          next_conn := 2,
          calls := [CNewPool 1 10,
            CConnect (client_options_of (connection_config
              (ch_client_object_create\<lparr>obj_pool := Some 1\<rparr>) 0)) False True (Some 7),
            CAcquire 1 (Some 1)]\<rparr>)"
  by (simp add: ch_pool_acquire_def ch_pool_ensure_def pool_acquire_def ch_pool_factory_def
      choose_start_def ch_client_connect_def client_call_def ext_call_def log_call_def new_conn_def
      ex_api_def ex_vm_def ch_client_object_create_def connection_config_def Let_def)

theorem connections_accounted_witness:
  "\<exists>w. world_run ex_api (world_start ch_client_object_create (ex_vm [])) w \<and> length (w_batches w) = 1
     \<and> held 1 1 (calls (app_vm (w_app w))) = w_holds w 1 1 \<and> w_holds w 1 1 = 1 \<and> app_refs (w_app w) = 2"
proof -
  let ?w = "world_start ch_client_object_create (ex_vm [])"
  obtain b a where b: "client_insertBatch ex_api ''t'' [] (w_app ?w) = (b, a)"
    by (metis surj_pair)
  have "client_ready ex_api ?w"
    by (simp add: world_start_def idle_lives_def ex_acquire)
  from world_run.step [OF world_run.start world_step.insert_batch [OF this b]]
  have run: "world_run ex_api ?w (?w\<lparr>w_app := a, w_batches := w_batches ?w @ of_option b\<rparr>)" .
  let ?bat = "ch_batch_start ex_api 1 7 1 ''t'' []"
  have "b = Some \<lparr>bo_batch = Some ?bat, bo_client = True\<rparr> \<and> app_refs a = 2"
    using b by (auto simp: client_insertBatch_def with_connection_def ex_acquire world_start_def
        ch_batch_object_create_def)
  moreover have "batch_holds ?bat 1 1 = 1"
    by (simp add: ch_batch_start_def batch_holds_def one_def split: prod.splits)
  ultimately show ?thesis using run connections_accounted [OF run, of 1 1]
    by (intro exI [of _ "?w\<lparr>w_app := a, w_batches := w_batches ?w @ of_option b\<rparr>"])
      (auto simp: world_start_def ex_vm_def w_holds_def bo_holds_def)
qed

end
