(* ===== verification/Ch_Wire.thy ===== *)
theory Ch_Wire
  imports "HOL-Library.Multiset" Ch_Pool
begin

text \<open>
  The wire protocol over the whole application. Every operation is described by what it does to
  the claims on connections: a claim is a connection, its library client and the states of the
  protocol that client may be in, and an operation on one claim leaves every other claim alone.
\<close>

section \<open>Claims on connections\<close>

type_synonym claim = "nat \<times> nat \<times> session set"

text \<open>The states of a client that exists and was never called out of order.\<close>

definition alive :: "session set" where
  "alive = - {SGone, SWrong}"

lemma alive_simps [simp]:
  "SIdle \<in> alive" "SInsert \<in> alive" "SQuery \<in> alive" "SDirty \<in> alive" "SGone \<notin> alive"
  "SWrong \<notin> alive"
  by (simp_all add: alive_def)

text \<open>
  \<open>wire s H\<close>: the claims \<open>H\<close> are on different connections, each on a live, unbroken one whose
  client is in one of the claimed states; a live connection nobody claims is unbroken and idle;
  no two connections share a client, and a client that was not deleted has a connection.
\<close>

definition wire :: "'w vm \<Rightarrow> claim list \<Rightarrow> bool" where
  "wire s H \<longleftrightarrow>
     distinct (map fst H) \<and>
     (\<forall>c h U. (c, h, U) \<in> set H \<longrightarrow>
        conns s c = Some \<lparr>cl_client = h, cl_broken = False\<rparr> \<and> session h (calls s) \<in> U \<inter> alive) \<and>
     (\<forall>c cl. conns s c = Some cl \<longrightarrow> c \<notin> fst ` set H \<longrightarrow>
        \<not> cl_broken cl \<and> session (cl_client cl) (calls s) = SIdle) \<and>
     (\<forall>c d cl cl'. conns s c = Some cl \<longrightarrow> conns s d = Some cl' \<longrightarrow>
        cl_client cl = cl_client cl' \<longrightarrow> c = d) \<and>
     (\<forall>h. session h (calls s) \<noteq> SGone \<longrightarrow> (\<exists>c cl. conns s c = Some cl \<and> cl_client cl = h)) \<and>
     (\<forall>c. next_conn s \<le> c \<longrightarrow> conns s c = None)"

lemma wireI:
  assumes "distinct (map fst H)"
    and "\<And>c h U. (c, h, U) \<in> set H \<Longrightarrow> conns s c = Some \<lparr>cl_client = h, cl_broken = False\<rparr>"
    and "\<And>c h U. (c, h, U) \<in> set H \<Longrightarrow> session h (calls s) \<in> U \<inter> alive"
    and "\<And>c cl. conns s c = Some cl \<Longrightarrow> c \<notin> fst ` set H \<Longrightarrow>
      \<not> cl_broken cl \<and> session (cl_client cl) (calls s) = SIdle"
    and "\<And>c d cl cl'. conns s c = Some cl \<Longrightarrow> conns s d = Some cl' \<Longrightarrow>
      cl_client cl = cl_client cl' \<Longrightarrow> c = d"
    and "\<And>h. session h (calls s) \<noteq> SGone \<Longrightarrow> \<exists>c cl. conns s c = Some cl \<and> cl_client cl = h"
    and "\<And>c. next_conn s \<le> c \<Longrightarrow> conns s c = None"
  shows "wire s H"
  unfolding wire_def
  apply (intro conjI allI impI)
  subgoal by (rule assms(1))
  subgoal by (rule assms(2))
  subgoal by (rule assms(3))
  subgoal using assms(4) by blast
  subgoal using assms(4) by blast
  subgoal by (rule assms(5))
  subgoal by (rule assms(6))
  subgoal by (rule assms(7))
  done

lemma wire_claim:
  assumes "wire s H" and "(c, h, U) \<in> set H"
  shows "conns s c = Some \<lparr>cl_client = h, cl_broken = False\<rparr>" and "session h (calls s) \<in> U"
    and "session h (calls s) \<in> alive"
  using assms unfolding wire_def by blast+

lemma wire_unclaimed:
  "wire s H \<Longrightarrow> conns s c = Some cl \<Longrightarrow> c \<notin> fst ` set H \<Longrightarrow>
    \<not> cl_broken cl \<and> session (cl_client cl) (calls s) = SIdle"
  unfolding wire_def by blast

lemma wire_inj:
  "wire s H \<Longrightarrow> conns s c = Some cl \<Longrightarrow> conns s d = Some cl' \<Longrightarrow> cl_client cl = cl_client cl' \<Longrightarrow> c = d"
  unfolding wire_def by blast

lemma wire_client:
  assumes "wire s H" and "session h (calls s) \<noteq> SGone"
  obtains c cl where "conns s c = Some cl" "cl_client cl = h"
  using assms unfolding wire_def by blast

lemma wire_fresh: "wire s H \<Longrightarrow> next_conn s \<le> c \<Longrightarrow> conns s c = None"
  unfolding wire_def by blast

lemma wire_distinct: "wire s H \<Longrightarrow> distinct (map fst H)"
  unfolding wire_def by blast

lemma wire_head:
  assumes "wire s ((c, h, U) # H)"
  shows "conns s c = Some \<lparr>cl_client = h, cl_broken = False\<rparr>" and "session h (calls s) \<in> U"
    and "session h (calls s) \<in> alive" and "c \<notin> fst ` set H"
  using wire_claim [OF assms, of c h U] wire_distinct [OF assms] by simp_all

text \<open>No call was ever out of order, and a live connection has a live client.\<close>

lemma wire_live:
  assumes "wire s H" and "conns s c = Some cl"
  shows "session (cl_client cl) (calls s) \<in> alive"
proof (cases "c \<in> fst ` set H")
  case True
  then obtain h U where "(c, h, U) \<in> set H" by force
  from wire_claim [OF assms(1) this] assms(2) show ?thesis by auto
next
  case False
  with wire_unclaimed [OF assms] show ?thesis by simp
qed

lemma wire_right:
  assumes "wire s H"
  shows "session h (calls s) \<noteq> SWrong"
proof
  assume r: "session h (calls s) = SWrong"
  then obtain c cl where "conns s c = Some cl" "cl_client cl = h"
    using wire_client [OF assms, of h] session.distinct by metis
  with wire_live [OF assms] r show False by (metis alive_simps(6))
qed

lemma wire_perm:
  assumes "wire s H" and "mset H' = mset H"
  shows "wire s H'"
proof -
  from assms(2) have "set H' = set H" by (rule mset_eq_setD)
  moreover from assms(2) have "distinct (map fst H') = distinct (map fst H)"
    by (intro mset_eq_imp_distinct_iff) simp
  ultimately have "wire s H' = wire s H" unfolding wire_def by (simp only:)
  with assms(1) show ?thesis by simp
qed

lemma wire_frame:
  assumes "conns s' = conns s" and "next_conn s' = next_conn s"
    and "\<And>h. session h (calls s') = session h (calls s)"
  shows "wire s' H = wire s H"
  unfolding wire_def by (simp only: assms)

lemma wire_weaken:
  assumes w: "wire s ((c, h, U) # H)" and "U \<subseteq> U'"
  shows "wire s ((c, h, U') # H)"
proof (rule wireI)
  show "distinct (map fst ((c, h, U') # H))"
    using wire_distinct [OF w] by simp
  fix d h' V assume "(d, h', V) \<in> set ((c, h, U') # H)"
  then have "\<exists>V'. (d, h', V') \<in> set ((c, h, U) # H) \<and> V' \<subseteq> V"
    using assms(2) by auto
  then show "conns s d = Some \<lparr>cl_client = h', cl_broken = False\<rparr>"
    and "session h' (calls s) \<in> V \<inter> alive"
    using wire_claim [OF w] by blast+
next
  fix d cl assume "conns s d = Some cl" "d \<notin> fst ` set ((c, h, U') # H)"
  with wire_unclaimed [OF w] show "\<not> cl_broken cl \<and> session (cl_client cl) (calls s) = SIdle"
    by simp
qed (blast intro: wire_inj [OF w] wire_fresh [OF w] elim: wire_client [OF w])+

section \<open>Calls on one client\<close>

text \<open>Calls of one client do not change the state of any other.\<close>

definition only_client :: "nat \<Rightarrow> call list \<Rightarrow> bool" where
  "only_client h t \<longleftrightarrow> (\<forall>h' st. h' \<noteq> h \<longrightarrow> foldl (session_step h') st t = st)"

lemma only_client_simps [simp]:
  "only_client h []" "only_client h [CBeginInsert h stmt ok]" "only_client h [CEndInsert h ok]"
  "only_client h [CSendInsertBlock h blk ok]" "only_client h [CBeginExecute h q e]"
  "only_client h [CNextBlock h r]" "only_client h [CDelete h]"
  by (simp_all add: only_client_def)

lemma only_client_append: "only_client h t \<Longrightarrow> only_client h u \<Longrightarrow> only_client h (t @ u)"
  by (simp add: only_client_def)

lemma insert_call_only: "list_all (insert_call h stmt) t \<Longrightarrow> only_client h t"
proof (induction t)
  case (Cons x t)
  then have "only_client h [x]"
    by (auto simp: insert_call_def)
  with Cons only_client_append [of h "[x]" t] show ?case by simp
qed simp

text \<open>A claim follows the calls of its client.\<close>

lemma wire_calls:
  assumes w: "wire s ((c, h, U) # H)" and t: "calls s' = calls s @ t" "only_client h t"
    and st: "session h (calls s') \<in> U' \<inter> alive"
    and same: "conns s' = conns s" "next_conn s' = next_conn s"
  shows "wire s' ((c, h, U') # H)"
proof (rule wireI, unfold same)
  note hd = wire_head [OF w]
  have other: "session h' (calls s') = session h' (calls s)" if "h' \<noteq> h" for h'
    using t that by (simp add: session_append only_client_def)
  have live: "session (cl_client cl) (calls s') = session (cl_client cl) (calls s)"
    if "conns s d = Some cl" "d \<noteq> c" for d cl
    using wire_inj [OF w that(1) hd(1)] that(2) by (intro other) auto
  show "distinct (map fst ((c, h, U') # H))"
    using wire_distinct [OF w] by simp
  fix d h' V assume d: "(d, h', V) \<in> set ((c, h, U') # H)"
  then show cl: "conns s d = Some \<lparr>cl_client = h', cl_broken = False\<rparr>"
    using hd(1) wire_claim(1) [OF w, of d h' V] by auto
  show "session h' (calls s') \<in> V \<inter> alive"
  proof (cases "d = c")
    case True
    with d hd(4) st show ?thesis by force
  next
    case False
    with d live [OF cl] wire_claim(2,3) [OF w, of d h' V] show ?thesis by auto
  qed
next
  fix d cl assume "conns s d = Some cl" "d \<notin> fst ` set ((c, h, U') # H)"
  with wire_unclaimed [OF w, of d cl] wire_inj [OF w _ wire_head(1) [OF w], of d cl] t
  show "\<not> cl_broken cl \<and> session (cl_client cl) (calls s') = SIdle"
    by (auto simp: session_append only_client_def)
next
  fix h' assume "session h' (calls s') \<noteq> SGone"
  then have "h' = h \<or> session h' (calls s) \<noteq> SGone"
    using t by (auto simp: session_append only_client_def)
  then show "\<exists>d cl. conns s d = Some cl \<and> cl_client cl = h'"
    using wire_head(1) [OF w] by (force elim: wire_client [OF w])
qed (blast intro: wire_inj [OF w] wire_fresh [OF w])+

section \<open>Giving a connection back\<close>

text \<open>The connection is gone together with its client, or it is unclaimed, unbroken and idle.\<close>

lemma wire_drop:
  assumes w: "wire s ((c, h, U) # H)" and t: "calls s' = calls s @ t" "only_client h t"
    and st: "session h (calls s') = SGone" "conns s' = (conns s)(c := None)"
    and same: "next_conn s' = next_conn s"
  shows "wire s' H"
proof (rule wireI)
  note hd = wire_head [OF w]
  have other: "session h' (calls s') = session h' (calls s)" if "h' \<noteq> h" for h'
    using t that by (simp add: session_append only_client_def)
  have live: "session (cl_client cl) (calls s') = session (cl_client cl) (calls s)"
    if "conns s' d = Some cl" for d cl
    using wire_inj [OF w _ hd(1), of d cl] that st(2) by (intro other) (auto split: if_splits)
  show "distinct (map fst H)"
    using wire_distinct [OF w] by simp
  fix d h' V assume d: "(d, h', V) \<in> set H"
  then have "d \<noteq> c" using hd(4) by force
  with d show cl: "conns s' d = Some \<lparr>cl_client = h', cl_broken = False\<rparr>"
    using wire_claim(1) [OF w, of d h' V] st(2) by simp
  show "session h' (calls s') \<in> V \<inter> alive"
    using live [OF cl] wire_claim(2,3) [OF w, of d h' V] d by simp
next
  fix d cl assume d: "conns s' d = Some cl" "d \<notin> fst ` set H"
  then have "d \<noteq> c" "conns s d = Some cl" using st(2) by (auto split: if_splits)
  with d wire_unclaimed [OF w, of d cl] wire_inj [OF w _ wire_head(1) [OF w], of d cl] t
  show "\<not> cl_broken cl \<and> session (cl_client cl) (calls s') = SIdle"
    by (auto simp: session_append only_client_def)
next
  fix h' assume h': "session h' (calls s') \<noteq> SGone"
  with st(1) have "h' \<noteq> h" by auto
  with h' t obtain d cl where "conns s d = Some cl" "cl_client cl = h'"
    by (auto simp: session_append only_client_def elim: wire_client [OF w])
  with \<open>h' \<noteq> h\<close> show "\<exists>d cl. conns s' d = Some cl \<and> cl_client cl = h'"
    using wire_head(1) [OF w] st(2) by (intro exI [of _ d]) auto
qed (use st(2) same in \<open>auto intro: wire_inj [OF w] wire_fresh [OF w] split: if_splits\<close>)

lemma wire_idle:
  assumes w: "wire s ((c, h, {SIdle}) # H)"
  shows "wire s H"
proof (rule wireI)
  show "distinct (map fst H)" using wire_distinct [OF w] by simp
  fix d h' V assume "(d, h', V) \<in> set H"
  then show "conns s d = Some \<lparr>cl_client = h', cl_broken = False\<rparr>"
    and "session h' (calls s) \<in> V \<inter> alive"
    using wire_claim [OF w, of d h' V] by simp_all
next
  fix d cl assume d: "conns s d = Some cl" "d \<notin> fst ` set H"
  then show "\<not> cl_broken cl \<and> session (cl_client cl) (calls s) = SIdle"
    using wire_head [OF w] wire_unclaimed [OF w, of d cl] by (cases "d = c") auto
qed (blast intro: wire_inj [OF w] wire_fresh [OF w] elim: wire_client [OF w])+

lemma wire_claimed_idle:
  assumes w: "wire s H" and "conns s c = Some cl" and "c \<notin> fst ` set H"
  shows "wire s ((c, cl_client cl, {SIdle}) # H)"
proof (rule wireI)
  note u = wire_unclaimed [OF w assms(2,3)]
  show "distinct (map fst ((c, cl_client cl, {SIdle}) # H))"
    using wire_distinct [OF w] assms(3) by simp
  fix d h V assume "(d, h, V) \<in> set ((c, cl_client cl, {SIdle}) # H)"
  then show "conns s d = Some \<lparr>cl_client = h, cl_broken = False\<rparr>"
    and "session h (calls s) \<in> V \<inter> alive"
    using u assms(2) wire_claim [OF w, of d h V] by (cases cl; auto)+
next
  fix d cl' assume "conns s d = Some cl'" "d \<notin> fst ` set ((c, cl_client cl, {SIdle}) # H)"
  then show "\<not> cl_broken cl' \<and> session (cl_client cl') (calls s) = SIdle"
    using wire_unclaimed [OF w, of d cl'] by simp
qed (blast intro: wire_inj [OF w] wire_fresh [OF w] elim: wire_client [OF w])+

text \<open>
  \<open>pool_release\<close> ends a claim, whatever the pool decides: a connection that was marked is
  destroyed, one that was not is idle.
\<close>

lemma wire_release:
  assumes w: "wire s ((c, h, U) # H)" and verdict: "abi_honours_verdict A"
    and c: "conns s1 = (conns s)(c \<mapsto> \<lparr>cl_client = h, cl_broken = b\<rparr>)"
    and same: "calls s1 = calls s" "next_conn s1 = next_conn s" and ok: "b \<or> U \<subseteq> {SIdle}"
  shows "wire (pool_release A p c s1) H"
proof -
  note hd = wire_head [OF w]
  have keep: "ch_pool_before_release c s1 = (\<not> b)"
    using c by (simp add: ch_pool_before_release_def ch_client_is_broken_def)
  obtain d s2 where d: "ext_call (abi_release A p c (\<not> b)) s1 = (d, s2)"
    by (metis surj_pair)
  note f = ext_call_frame [OF d]
  let ?s3 = "log_call (CRelease p c (\<not> b)) s2"
  show ?thesis
  proof (cases d)
    case True
    obtain u s4 where x: "ext_call (cli_delete A h) ?s3 = (u, s4)"
      by (metis surj_pair)
    have r: "pool_release A p c s1 = (log_call (CDelete h) s4)\<lparr>conns := (conns s4)(c := None)\<rparr>"
      using True d c f x ext_call_frame [OF x]
      by (simp add: pool_release_def keep ch_pool_destructor_def ch_client_free_def)
    have "calls s4 = calls s @ [CRelease p c (\<not> b)]" "conns s4 = conns s1" "next_conn s4 = next_conn s"
      using ext_call_frame [OF x] f same by simp_all
    note s4 = this
    have "session h (calls s) \<noteq> SGone" "session h (calls s) \<noteq> SWrong"
      using hd(3) by (auto simp: alive_def)
    then have "session h (calls (pool_release A p c s1)) = SGone"
      using r s4 by (simp add: session_append)
    moreover have "conns (pool_release A p c s1) = (conns s)(c := None)"
      using r s4 c by simp
    ultimately show ?thesis
      using r s4 by (intro wire_drop [OF w, of _ "[CRelease p c (\<not> b), CDelete h]"])
        (simp_all add: only_client_def)
  next
    case False
    have "\<not> b"
      using verdict [unfolded abi_honours_verdict_def, rule_format, of p c "(eg_exception s1, ext s1)"]
        False d by (cases b) (auto simp: ext_call_def split: prod.splits)
    with ok have "U \<subseteq> {SIdle}" by simp
    from wire_idle [OF wire_weaken [OF w this]] have "wire s H" .
    moreover have "conns s1 = conns s"
      using c hd(1) \<open>\<not> b\<close> by (simp add: fun_upd_idem)
    moreover have "pool_release A p c s1 = ?s3"
      using False d by (simp add: pool_release_def keep)
    ultimately show ?thesis
      using f same wire_frame [of ?s3 s H] by (simp add: session_append)
  qed
qed

section \<open>Taking a connection\<close>

text \<open>A step that no client notices.\<close>

definition unnoticed :: "'w vm \<Rightarrow> 'w vm \<Rightarrow> bool" where
  "unnoticed s s' \<longleftrightarrow>
     conns s' = conns s \<and> next_conn s' = next_conn s \<and> (\<forall>h. session h (calls s') = session h (calls s))"

lemma unnoticed_refl [simp]: "unnoticed s s"
  by (simp add: unnoticed_def)

lemma unnoticed_trans: "unnoticed s s1 \<Longrightarrow> unnoticed s1 s2 \<Longrightarrow> unnoticed s s2"
  by (simp add: unnoticed_def)

lemma unnoticed_wire: "unnoticed s s' \<Longrightarrow> wire s' H = wire s H"
  by (rule wire_frame) (simp_all add: unnoticed_def)

lemma unnoticed_ext: "ext_call f s = (x, s1) \<Longrightarrow> unnoticed s s1"
  using ext_call_frame [of f s x s1] by (simp add: unnoticed_def)

lemma unnoticed_log: "(\<And>h st. session_step h st x = st) \<Longrightarrow> unnoticed s (log_call x s)"
  by (simp add: unnoticed_def session_append)

lemma unnoticed_throw [simp]: "unnoticed s (throw_cxx e s)" "unnoticed s (throw_php cl m s)"
  by (simp_all add: unnoticed_def)

lemma wire_throw [simp]: "wire (throw_cxx e s) H = wire s H" "wire (throw_php cl m s) H = wire s H"
  by (simp_all add: unnoticed_wire)

text \<open>A step that opens a connection.\<close>

definition opens :: "nat \<Rightarrow> nat \<Rightarrow> 'w vm \<Rightarrow> 'w vm \<Rightarrow> bool" where
  "opens c h s s' \<longleftrightarrow>
     c = next_conn s \<and> next_conn s' = Suc c \<and>
     conns s' = (conns s)(c \<mapsto> \<lparr>cl_client = h, cl_broken = False\<rparr>) \<and>
     (\<forall>h'. session h' (calls s') =
        (if h' \<noteq> h then session h' (calls s)
         else if session h' (calls s) = SGone then SIdle else SWrong))"

lemma opens_unnoticed: "unnoticed s s1 \<Longrightarrow> opens c h s1 s2 \<Longrightarrow> opens c h s s2"
  by (simp add: unnoticed_def opens_def)

lemma unnoticed_opens: "opens c h s s1 \<Longrightarrow> unnoticed s1 s2 \<Longrightarrow> opens c h s s2"
  by (simp add: unnoticed_def opens_def)

lemma ch_client_connect_opens:
  assumes "ch_client_connect A cfg s = (c, s')"
  shows "case c of None \<Rightarrow> unnoticed s s' | Some c \<Rightarrow> \<exists>h. opens c h s s'"
proof (cases rule: client_call_cases [of "\<lambda>r. CConnect (client_options_of cfg) (cfg_tls cfg)
      (cfg_tls_verify cfg) (case r of Inl e \<Rightarrow> None | Inr h \<Rightarrow> Some h)"
      "cli_connect A (client_options_of cfg) (cfg_tls cfg) (cfg_tls_verify cfg)" s])
  case (error e s1)
  then have "unnoticed s s1" by (simp add: unnoticed_def session_append)
  with error assms show ?thesis
    by (auto simp: ch_client_connect_def Let_def intro: unnoticed_trans)
next
  case (normal h s1)
  with assms show ?thesis
    by (auto simp: ch_client_connect_def Let_def new_conn_def opens_def session_append)
qed

lemma choose_start_unnoticed: "choose_start A obj s = (start, obj1, s1) \<Longrightarrow> unnoticed s s1"
  by (auto simp: choose_start_def Let_def split: if_splits prod.splits intro: unnoticed_ext)

lemma ch_pool_factory_opens:
  assumes "ch_pool_factory A obj s = (c, obj1, s')"
  shows "case c of None \<Rightarrow> unnoticed s s' | Some c \<Rightarrow> \<exists>h. opens c h s s'"
proof -
  obtain start obj2 s2 where q: "choose_start A obj s = (start, obj2, s2)"
    by (metis surj_pair)
  obtain co s3 where con: "ch_client_connect A (connection_config obj2 start) s2 = (co, s3)"
    by (metis surj_pair)
  from ch_client_connect_opens [OF con] choose_start_unnoticed [OF q] q con assms show ?thesis
    by (auto simp: ch_pool_factory_def split: option.splits intro: unnoticed_trans opens_unnoticed)
qed

lemma ch_pool_ensure_unnoticed:
  assumes "ch_pool_ensure A obj s = (ok, obj1, s1)"
  shows "unnoticed s s1"
proof (cases "obj_pool obj")
  case None
  obtain p s0 where n: "ext_call (abi_new_pool A (unat (obj_pool_max obj))) s = (p, s0)"
    by (metis surj_pair)
  have "unnoticed s0 (log_call (CNewPool q m) s0)" for q m
    by (rule unnoticed_log) simp
  with assms None n unnoticed_ext [OF n] show ?thesis
    by (cases p) (auto simp: ch_pool_ensure_def intro: unnoticed_trans split: if_splits)
next
  case (Some p)
  with assms show ?thesis by (simp add: ch_pool_ensure_def)
qed

text \<open>An acquired connection was idle, or was opened for this call.\<close>

lemma ch_pool_acquire_effect:
  assumes "ch_pool_acquire A obj s = (c, obj1, s')"
  shows "unnoticed s s' \<or> (\<exists>c' h. c = Some c' \<and> opens c' h s s')"
proof -
  obtain ok obj2 s2 where e: "ch_pool_ensure A obj s = (ok, obj2, s2)"
    by (metis surj_pair)
  note q = ch_pool_ensure_unnoticed [OF e]
  show ?thesis
  proof (cases "ok \<and> obj_pool obj2 \<noteq> None")
    case False
    with e q assms show ?thesis
      by (auto simp: ch_pool_acquire_def split: option.splits)
  next
    case True
    then obtain p where p: "obj_pool obj2 = Some p" and ok by auto
    with e assms have run: "pool_acquire A p obj2 s2 = (c, obj1, s')"
      by (simp add: ch_pool_acquire_def)
    obtain a s3 where a: "ext_call (abi_acquire A p ch_pool_accept) s2 = (a, s3)"
      by (metis surj_pair)
    have q3: "unnoticed s s3" using q unnoticed_ext [OF a] by (rule unnoticed_trans)
    have log: "unnoticed s'' (log_call (CAcquire p x) s'')" for x and s'' :: "'a vm"
      by (rule unnoticed_log) simp
    show ?thesis
    proof (cases a)
      case AcqNew
      obtain c' obj3 s4 where f: "ch_pool_factory A obj2 s3 = (c', obj3, s4)"
        by (metis surj_pair)
      have out: "c = c'" "s' = log_call (CAcquire p c') s4"
        using run a AcqNew f by (auto simp: pool_acquire_def)
      show ?thesis
      proof (cases c')
        case None
        with ch_pool_factory_opens [OF f] q3 log [of s4 c'] out show ?thesis
          by (auto intro: unnoticed_trans)
      next
        case (Some x)
        with ch_pool_factory_opens [OF f] obtain h where "opens x h s3 s4" by auto
        from unnoticed_opens [OF opens_unnoticed [OF q3 this] log] Some out show ?thesis by auto
      qed
    qed (use run a q3 log in \<open>auto simp: pool_acquire_def intro: unnoticed_trans\<close>)
  qed
qed

lemma wire_opens:
  assumes w: "wire s H" and o: "opens c h s s'"
    and fresh: "\<And>d cl. conns s' d = Some cl \<Longrightarrow> cl_client cl = h \<Longrightarrow> d = c"
  shows "wire s' ((c, h, {SIdle}) # H)"
proof -
  have c: "conns s c = None"
    using o by (intro wire_fresh [OF w]) (simp add: opens_def)
  have conns': "conns s' = (conns s)(c \<mapsto> \<lparr>cl_client = h, cl_broken = False\<rparr>)"
    using o by (simp add: opens_def)
  have gone: "session h (calls s) = SGone"
  proof (rule ccontr)
    assume "session h (calls s) \<noteq> SGone"
    then obtain d cl where "conns s d = Some cl" "cl_client cl = h"
      by (rule wire_client [OF w])
    with fresh [of d cl] c conns' show False by (cases "d = c") auto
  qed
  have h: "session h (calls s') = SIdle"
    using o gone by (simp add: opens_def)
  have other: "h' \<noteq> h \<Longrightarrow> session h' (calls s') = session h' (calls s)" for h'
    using o by (simp add: opens_def)
  have noc: "c \<notin> fst ` set H"
  proof
    assume "c \<in> fst ` set H"
    then obtain h' V where "(c, h', V) \<in> set H" by force
    from wire_claim(1) [OF w this] c show False by simp
  qed
  have old: "conns s' d = conns s d \<and> (\<forall>cl. conns s d = Some cl \<longrightarrow> cl_client cl \<noteq> h)" if "d \<noteq> c" for d
  proof
    show "conns s' d = conns s d" using that conns' by simp
    then show "\<forall>cl. conns s d = Some cl \<longrightarrow> cl_client cl \<noteq> h"
      using fresh [of d] that by metis
  qed
  show ?thesis
  proof (rule wireI)
    show "distinct (map fst ((c, h, {SIdle}) # H))"
      using wire_distinct [OF w] noc by simp
    fix d h' V assume d: "(d, h', V) \<in> set ((c, h, {SIdle}) # H)"
    show cl: "conns s' d = Some \<lparr>cl_client = h', cl_broken = False\<rparr>"
    proof (cases "(d, h', V) \<in> set H")
      case True
      with noc have "d \<noteq> c" by force
      with wire_claim(1) [OF w True] conns' show ?thesis by simp
    qed (use d conns' in auto)
    show "session h' (calls s') \<in> V \<inter> alive"
    proof (cases "(d, h', V) \<in> set H")
      case True
      with noc have "d \<noteq> c" by force
      with wire_claim [OF w True] old [of d] other [of h'] show ?thesis by simp
    qed (use d h in auto)
  next
    fix d cl assume d: "conns s' d = Some cl" "d \<notin> fst ` set ((c, h, {SIdle}) # H)"
    then show "\<not> cl_broken cl \<and> session (cl_client cl) (calls s') = SIdle"
      using wire_unclaimed [OF w, of d cl] old [of d] other [of "cl_client cl"] by simp
  next
    fix d e cl cl' assume "conns s' d = Some cl" "conns s' e = Some cl'" "cl_client cl = cl_client cl'"
    then show "d = e"
      using wire_inj [OF w, of d cl e cl'] old [of d] old [of e] conns'
      by (cases "d = c"; cases "e = c") auto
  next
    fix h' assume "session h' (calls s') \<noteq> SGone"
    with other have "h' = h \<or> session h' (calls s) \<noteq> SGone" by metis
    then show "\<exists>d cl. conns s' d = Some cl \<and> cl_client cl = h'"
    proof
      assume "session h' (calls s) \<noteq> SGone"
      then obtain d cl where "conns s d = Some cl" "cl_client cl = h'"
        by (rule wire_client [OF w])
      moreover from this c have "d \<noteq> c" by auto
      ultimately show ?thesis using conns' by auto
    qed (use conns' in auto)
  next
    fix d assume "next_conn s' \<le> d"
    then show "conns s' d = None"
      using o wire_fresh [OF w, of d] by (simp add: opens_def)
  qed
qed

end
