(* ===== verification/Ch_Equiv.thy ===== *)
theory Ch_Equiv
  imports Ch_Batch
begin

text \<open>
  The two ways to insert rows compared: \<open>Client::insert\<close> with all rows at once, and a batch to
  which the rows are appended one by one before a flush.
\<close>

text \<open>Appending rows one after the other.\<close>

fun append_all :: "ch_batch \<Rightarrow> zval list \<Rightarrow> 'w vm \<Rightarrow> ch_batch \<times> 'w vm" where
  "append_all b [] s = (b, s)"
| "append_all b (row # rows) s =
     (case ch_batch_append b row s of (ok, b1, s1) \<Rightarrow> append_all b1 rows s1)"

lemma append_all_fits:
  "list_all (row_fits b) rows \<Longrightarrow>
    append_all b rows s = (b\<lparr>bat_pending := foldl add_next_index (bat_pending b) rows\<rparr>, s)"
  by (induction rows arbitrary: b) (simp_all add: ch_batch_append_fits)

lemma hash_values_foldl:
  "hash_values (foldl add_next_index ht rows) = hash_values ht @ rows"
  by (induction rows arbitrary: ht) (simp_all add: hash_values_def add_next_index_def)

lemma foldl_add_next_index_empty: "foldl add_next_index ht rows = [] \<longleftrightarrow> ht = [] \<and> rows = []"
  using hash_values_foldl [of ht rows] by (auto simp: hash_values_def)

lemma ch_batch_start_sel:
  "bat_conn ((ch_batch_start A c h p table columns)\<lparr>bat_pending := x\<rparr>) = c"
  "bat_pool ((ch_batch_start A c h p table columns)\<lparr>bat_pending := x\<rparr>) = p"
  "\<not> bat_released ((ch_batch_start A c h p table columns)\<lparr>bat_pending := x\<rparr>)"
  by (simp_all add: ch_batch_start_def split: prod.splits)

text \<open>\<open>ch_send_block\<close> only looks at the values of the row table.\<close>

lemma ch_send_block_values:
  "hash_values rows = hash_values rows' \<Longrightarrow>
    ch_send_block A h stmt names rows broken s = ch_send_block A h stmt names rows' broken s"
  by (simp add: ch_send_block_def)

lemma flush_as_send:
  assumes "conns s c = Some \<lparr>cl_client = h, cl_broken = False\<rparr>"
    and "b0 = ch_batch_start A c h p table columns"
    and "list_all (row_fits b0) (hash_values rows)" and "rows \<noteq> []"
    and "append_all b0 (hash_values rows) s = (b, s0)"
  obtains statement names ok broken s1 where
    "ch_build_insert_statement A table columns = (statement, names)"
    "ch_send_block A h statement names rows False s = ((ok, broken), s1)"
    "ch_client_insert A c table columns rows s
       = (ok, s1\<lparr>conns := (conns s1)(c \<mapsto> \<lparr>cl_client = h, cl_broken = broken\<rparr>)\<rparr>)"
    "ch_batch_flush A b s0
       = (ok, b\<lparr>bat_broken := broken, bat_pending := (if ok then [] else bat_pending b)\<rparr>, s1)"
    "s0 = s"
proof -
  obtain statement names where q: "ch_build_insert_statement A table columns = (statement, names)"
    by (metis surj_pair)
  obtain ok broken s1 where r: "ch_send_block A h statement names rows False s = ((ok, broken), s1)"
    by (metis surj_pair)
  have b: "b = b0\<lparr>bat_pending := foldl add_next_index [] (hash_values rows)\<rparr>" "s0 = s"
    using append_all_fits [OF assms(3), of s] assms(2,5) q by (simp_all add: ch_batch_start_def)
  have v: "hash_values (bat_pending b) = hash_values rows"
    by (simp add: b(1) hash_values_foldl) (simp add: hash_values_def)
  have ne: "bat_pending b \<noteq> []"
    using assms(4) by (simp add: b(1) foldl_add_next_index_empty hash_values_def)
  have fields: "bat_client b = h" "bat_statement b = statement" "bat_names b = names"
    "\<not> bat_broken b"
    using assms(2) q by (simp_all add: b(1) ch_batch_start_def)
  from r ch_send_block_values [OF v, of A h statement names False s] fields ne
  have "ch_batch_flush A b s0
      = (ok, b\<lparr>bat_broken := broken, bat_pending := (if ok then [] else bat_pending b)\<rparr>, s1)"
    by (cases b; cases ok) (auto simp: ch_batch_flush_def b(2))
  moreover have "ch_client_insert A c table columns rows s
       = (ok, s1\<lparr>conns := (conns s1)(c \<mapsto> \<lparr>cl_client = h, cl_broken = broken\<rparr>)\<rparr>)"
    using q r assms(1) by (simp add: ch_client_insert_def)
  ultimately show thesis using that q r b(2) by blast
qed

text \<open>Sending does not touch the \<open>ch_client\<close> structures.\<close>

lemma client_call_conns: "client_call k f s = (r, s1) \<Longrightarrow> conns s1 = conns s"
  by (cases rule: client_call_cases [of k f s]) auto

lemma send_block_body_conns:
  "send_block_body A h stmt names rows s = (r, s1) \<Longrightarrow> conns s1 = conns s"
  by (auto simp: send_block_body_def ebind_def dest!: client_call_conns
      split: prod.splits sum.splits if_splits)

lemma ch_send_block_conns:
  "ch_send_block A h stmt names rows broken s = (r, s1) \<Longrightarrow> conns s1 = conns s"
  by (auto simp: ch_send_block_def dest!: send_block_body_conns client_call_conns
      split: prod.splits sum.splits if_splits)

lemma client_call_next_conn: "client_call k f s = (r, s1) \<Longrightarrow> next_conn s1 = next_conn s"
  by (cases rule: client_call_cases [of k f s]) auto

lemma send_block_body_next_conn:
  "send_block_body A h stmt names rows s = (r, s1) \<Longrightarrow> next_conn s1 = next_conn s"
  by (auto simp: send_block_body_def ebind_def dest!: client_call_next_conn
      split: prod.splits sum.splits if_splits)

lemma ch_send_block_next_conn:
  "ch_send_block A h stmt names rows broken s = (r, s1) \<Longrightarrow> next_conn s1 = next_conn s"
  by (auto simp: ch_send_block_def dest!: send_block_body_next_conn client_call_next_conn
      split: prod.splits sum.splits if_splits)

text \<open>The verdict a batch keeps until it is freed is the one an insert writes at once.\<close>

lemma flush_free_as_insert:
  assumes "conns s1 c = Some \<lparr>cl_client = h, cl_broken = False\<rparr>"
    and "bat_conn b = c" "bat_pool b = p" "\<not> bat_released b"
  shows "ch_batch_free A b s1
    = pool_release A p c (s1\<lparr>conns := (conns s1)(c \<mapsto> \<lparr>cl_client = h, cl_broken = bat_broken b\<rparr>)\<rparr>)"
proof -
  have "s1\<lparr>conns := (conns s1)(c \<mapsto> \<lparr>cl_client = h, cl_broken = False\<rparr>)\<rparr> = s1"
    using assms(1) by (simp add: fun_upd_idem)
  then show ?thesis
    using assms by (simp add: ch_batch_free_def ch_batch_release_def set_broken_def)
qed

end
