(* ===== verification/Ch_Protocol.thy ===== *)
theory Ch_Protocol
  imports Ch_Wire Ch_World Ch_Equiv
begin

text \<open>
  Every operation of the library on claims: sending a block, flushing and freeing a batch, starting,
  pulling and freeing a result. Each is stated for the claim of its own handle beside any other
  claims.
\<close>

section \<open>Inserting\<close>

definition insert_states :: "bool \<Rightarrow> session set" where
  "insert_states broken = (if broken then {SIdle, SInsert} else {SIdle})"

lemma wire_send:
  assumes w: "wire s ((c, h, {SIdle}) # H)"
    and send: "ch_send_block A h stmt names rows False s = ((ok, broken), s')"
  shows "wire s' ((c, h, insert_states broken) # H)"
proof -
  obtain t where t: "calls s' = calls s @ t" "insert_trace A h stmt names (hash_values rows) s ok t"
    using ch_send_block_calls [OF send] by blast
  have idle: "session h (calls s) = SIdle"
    using wire_head(2) [OF w] by simp
  show ?thesis
  proof (rule wire_calls [OF w t(1)])
    show "only_client h t"
      using t(2) by (auto simp: insert_trace_def intro: insert_call_only)
    show "session h (calls s') \<in> insert_states broken \<inter> alive"
      using ch_send_block_open [OF send idle] ch_send_block_session [OF send idle]
      by (auto simp: insert_states_def)
  qed (use ch_send_block_conns [OF send] ch_send_block_next_conn [OF send] in simp_all)
qed

lemma ch_client_insert_wire:
  assumes w: "wire s ((c, h, {SIdle}) # H)" and "abi_honours_verdict A"
    and ins: "ch_client_insert A c table columns rows s = (ok, s')"
  shows "wire (pool_release A p c s') H"
proof -
  obtain statement names where b: "ch_build_insert_statement A table columns = (statement, names)"
    by (metis surj_pair)
  note hd = wire_head [OF w]
  obtain ok' broken s1 where
    r: "ch_send_block A h statement names rows False s = ((ok', broken), s1)"
    by (metis surj_pair)
  have s': "s' = s1\<lparr>conns := (conns s1)(c \<mapsto> \<lparr>cl_client = h, cl_broken = broken\<rparr>)\<rparr>"
    using ins hd(1) b r by (auto simp: ch_client_insert_def)
  from wire_send [OF w r] show ?thesis
    by (rule wire_release [OF _ assms(2)]) (auto simp: s' insert_states_def)
qed

section \<open>Batches\<close>

definition batch_use :: "ch_batch \<Rightarrow> claim list" where
  "batch_use b =
     (if bat_released b then [] else [(bat_conn b, bat_client b, insert_states (bat_broken b))])"

lemma batch_start_use:
  "batch_use (ch_batch_start P c h p table columns) = [(c, h, {SIdle})]"
  by (simp add: batch_use_def ch_batch_start_def insert_states_def split: prod.splits)

lemma batch_append_wire:
  assumes "ch_batch_append b row s = (ok, b', s')"
  shows "batch_use b' = batch_use b \<and> wire s' H = wire s H"
proof -
  have "unnoticed s s'"
    using assms by (auto simp: ch_batch_append_def split: zval.splits if_splits)
  with ch_batch_append_frame [OF assms] show ?thesis
    by (simp add: same_batch_def batch_use_def unnoticed_wire)
qed

text \<open>A flush keeps its claim, on a batch that no flush has broken yet.\<close>

lemma batch_flush_wire:
  assumes w: "wire s (batch_use b @ H)" and fl: "ch_batch_flush A b s = (ok, b', s')"
    and live: "\<not> bat_released b" and careful: "bat_pending b = [] \<or> \<not> bat_broken b"
  shows "wire s' (batch_use b' @ H) \<and> \<not> bat_released b'"
proof (cases "bat_pending b = []")
  case True
  with fl w live show ?thesis by (auto simp: ch_batch_flush_def)
next
  case False
  with w live careful have w1: "wire s ((bat_conn b, bat_client b, {SIdle}) # H)" and nb: "\<not> bat_broken b"
    by (auto simp: batch_use_def insert_states_def)
  from False show ?thesis
  proof (cases rule: ch_batch_flush_cases [of b A s])
    case (sent broken s1)
    with nb wire_send [OF w1, of A "bat_statement b" "bat_names b" "bat_pending b" True broken s1] fl live
    show ?thesis by (auto simp: batch_use_def)
  next
    case (failed broken s1)
    with nb wire_send [OF w1, of A "bat_statement b" "bat_names b" "bat_pending b" False broken s1] fl live
    show ?thesis by (auto simp: batch_use_def)
  qed
qed

text \<open>The release of a handle that may have marked its connection.\<close>

lemma wire_marked_release:
  assumes w: "wire s ((c, h, U) # H)" and "abi_honours_verdict A" and "b \<or> U \<subseteq> {SIdle}"
  shows "wire (pool_release A p c (if b then set_broken c s else s)) H"
proof (rule wire_release [OF w assms(2) _ _ _ assms(3)])
  note hd = wire_head(1) [OF w]
  show "conns (if b then set_broken c s else s) = (conns s)(c \<mapsto> \<lparr>cl_client = h, cl_broken = b\<rparr>)"
    using hd by (auto simp: set_broken_def fun_upd_idem)
qed simp_all

lemma batch_free_wire:
  assumes "wire s (batch_use b @ H)" and "abi_honours_verdict A"
  shows "wire (ch_batch_free A b s) H"
proof (cases "bat_released b")
  case True
  with assms(1) show ?thesis
    by (simp add: batch_use_def ch_batch_free_def ch_batch_release_def)
next
  case False
  with assms have "wire (pool_release A (bat_pool b) (bat_conn b)
      (if bat_broken b then set_broken (bat_conn b) s else s)) H"
    by (intro wire_marked_release [of s _ "bat_client b" "insert_states (bat_broken b)"])
      (simp_all add: batch_use_def insert_states_def)
  with False show ?thesis
    by (simp add: ch_batch_free_def ch_batch_release_def Let_def)
qed

section \<open>What the library keeps to\<close>

text \<open>
  A query fails with an exception of the server or with one that poisons the connection, and the
  rows of a delivered block can be read, or reading them fails in a way that poisons it.
\<close>

definition clean_failure :: "cxx_exn \<Rightarrow> bool" where
  "clean_failure e \<longleftrightarrow> exn_class e = CxxServerException \<or> ch_exception_poisons_connection e"

definition rows_readable ::
    "('a) php_api_scheme \<Rightarrow> string list \<Rightarrow> (ch_type \<times> col) list \<Rightarrow> nat \<Rightarrow> bool" where
  "rows_readable P keys cols n \<longleftrightarrow>
     (\<forall>i < n. \<forall>e. read_row P keys cols i = Inl e \<longrightarrow> ch_exception_poisons_connection e)"

definition lib_clean :: "'w ch_api \<Rightarrow> bool" where
  "lib_clean A \<longleftrightarrow>
     (\<forall>h q x. case snd (fst (cli_begin_execute A h q x)) of Inl e \<Rightarrow> clean_failure e | Inr u \<Rightarrow> True) \<and>
     (\<forall>h x. case snd (fst (cli_next_block A h x)) of
        Inl e \<Rightarrow> clean_failure e
      | Inr None \<Rightarrow> True
      | Inr (Some b) \<Rightarrow>
          rows_readable A (map (\<lambda>(n, t, c). n) (blk_cols b)) (map (\<lambda>(n, t, c). (t, c)) (blk_cols b))
            (blk_rows b))"

section \<open>Results\<close>

definition result_use :: "ch_result \<Rightarrow> claim list" where
  "result_use r = (if res_released r then [] else [(res_conn r, res_client r, {SQuery})])"

definition result_sane :: "'w ch_api \<Rightarrow> ch_result \<Rightarrow> bool" where
  "result_sane A r \<longleftrightarrow>
     (if res_released r then res_done r
      else \<not> res_done r \<and> \<not> res_broken r \<and> rows_readable A (res_keys r) (res_cols r) (res_rows r))"

lemma result_release_wire:
  assumes "ch_result_release A r s = (r', s')" and "\<not> res_released r"
    and "wire s ((res_conn r, res_client r, U) # H)" and "abi_honours_verdict A"
    and "res_broken r \<or> U \<subseteq> {SIdle}"
  shows "wire s' H"
  using assms wire_marked_release [OF assms(3-5), of "res_pool r"]
  by (auto simp: ch_result_release_def Let_def)

lemma result_finish_wire:
  assumes "ch_result_finish A r s = (r', s')" and "\<not> res_released r"
    and "wire s ((res_conn r, res_client r, U) # H)" and "abi_honours_verdict A"
    and "res_broken r \<or> U \<subseteq> {SIdle}"
  shows "wire s' H"
proof -
  from assms(1) have "ch_result_release A (finished A s r) s = (r', s')"
    by (simp add: ch_result_finish_eq)
  from result_release_wire [OF this _ _ assms(4), of U H] assms(2,3,5) show ?thesis by simp
qed

lemma result_failed_wire:
  assumes "result_failed A e r s = (r', s')" and "\<not> res_released r"
    and "wire s ((res_conn r, res_client r, U) # H)" and "abi_honours_verdict A"
    and "ch_exception_poisons_connection e \<or> U \<subseteq> {SIdle}"
  shows "wire s' H"
  using assms(1)
proof (cases rule: result_failed_cases)
  case (1 s1)
  from result_finish_wire [OF 1(1)] assms(2-5) have "wire s1 H" by simp
  with 1(2) show ?thesis by simp
qed

text \<open>On a result that was released the failure path touches nothing.\<close>

lemma result_failed_released:
  assumes "result_failed A e r s = (r', s')" and "res_released r"
  shows "unnoticed s s'"
  using assms(1)
proof (cases rule: result_failed_cases)
  case (1 s1)
  with assms(2) show ?thesis by (simp add: ch_result_finish_eq ch_result_release_def)
qed

fun next_states :: "cxx_exn + block option \<Rightarrow> session set" where
  "next_states (Inl e) = {query_failed (exn_class e)}"
| "next_states (Inr None) = {SIdle}"
| "next_states (Inr (Some b)) = {SQuery}"

lemma next_block_next_conn: "next_block A r s = (res, r1, s1) \<Longrightarrow> next_conn s1 = next_conn s"
  by (auto simp: next_block_def split: prod.splits dest: ext_call_frame)

lemma next_block_wire:
  assumes n: "next_block A r s = (res, r1, s1)"
    and w: "wire s ((c, res_client r, {SQuery}) # H)"
  shows "wire s1 ((c, res_client r, next_states res) # H)"
proof (rule wire_calls [OF w])
  note f = next_block_frame [OF n]
  show "calls s1 = calls s @ [CNextBlock (res_client r) (next_outcome res)]" "conns s1 = conns s"
    using f by simp_all
  show "session (res_client r) (calls s1) \<in> next_states res \<inter> alive"
    using f wire_head(2) [OF w] by (cases res rule: next_states.cases) (auto simp: session_append)
qed (simp_all add: next_block_next_conn [OF n])

lemma next_block_clean:
  assumes "lib_clean A" and "next_block A r s = (res, r1, s1)"
  shows "(\<forall>e. res = Inl e \<longrightarrow> clean_failure e)
    \<and> (\<forall>b. res = Inr (Some b) \<longrightarrow>
        rows_readable A (map (\<lambda>(n, t, c). n) (blk_cols b)) (map (\<lambda>(n, t, c). (t, c)) (blk_cols b))
          (blk_rows b))"
  using assms
proof (cases rule: next_block_cases [of A r s])
  case (1 pks res' s1')
  with assms(1) [unfolded lib_clean_def, THEN conjunct2, rule_format, of "res_client r"
      "(eg_exception s, ext s)"] assms(2)
  show ?thesis by (auto split: sum.splits option.splits)
qed

lemma clean_states: "clean_failure e \<Longrightarrow> ch_exception_poisons_connection e \<or> next_states (Inl e) \<subseteq> {SIdle}"
  by (auto simp: clean_failure_def)

text \<open>One pull.\<close>

lemma result_next_wire:
  assumes "ch_result_next A r s = Some (out, r', s')" and "lib_clean A" and "abi_honours_verdict A"
    and "wire s (result_use r @ H)" and "result_sane A r"
  shows "wire s' (result_use r' @ H) \<and> result_sane A r'"
  using assms(1,4,5)
proof (induction rule: ch_result_next_induct)
  case (row r s ht)
  then show ?case by (cases "res_released r") (simp_all add: result_use_def result_sane_def)
next
  case (bad_row r s e r' s')
  note f = failed_frame [OF bad_row(3)]
  have r': "result_use r' = []" "result_sane A r'"
    using f by (simp_all add: result_use_def result_sane_def)
  show ?case
  proof (cases "res_released r")
    case True
    with bad_row(4) unnoticed_wire [OF result_failed_released [OF bad_row(3)]] r' show ?thesis
      by (simp add: result_use_def)
  next
    case False
    with bad_row have "ch_exception_poisons_connection e"
      by (auto simp: result_sane_def rows_readable_def)
    with False bad_row r' show ?thesis
      using result_failed_wire [OF bad_row(3) False _ assms(3), of "{SQuery}" H]
      by (simp add: result_use_def)
  qed
next
  case (exhausted r s)
  then show ?case by simp
next
  case (failed r s e r1 s1 r' s')
  then have live: "\<not> res_released r" by (auto simp: result_sane_def)
  note f = next_block_frame [OF failed(3)]
  from failed live have "wire s1 ((res_conn r, res_client r, next_states (Inl e)) # H)"
    by (intro next_block_wire) (simp_all add: result_use_def)
  with result_failed_wire [OF failed(4) _ _ assms(3), of "next_states (Inl e)" H]
    next_block_clean [OF assms(2) failed(3)] clean_states [of e] f live
  have "wire s' H" by (auto simp: same_handle_def)
  with failed_frame [OF failed(4)] show ?case
    by (simp add: result_use_def result_sane_def)
next
  case (finished r s r1 s1 r' s')
  then have live: "\<not> res_released r" "\<not> res_broken r"
    by (auto simp: result_sane_def split: if_splits)
  note f = next_block_frame [OF finished(3)]
  from finished live have "wire s1 ((res_conn r, res_client r, {SIdle}) # H)"
    using next_block_wire [OF finished(3), of "res_conn r" H] by (simp add: result_use_def)
  with result_finish_wire [OF finished(4) _ _ assms(3), of "{SIdle}" H] f live
  have "wire s' H" by (auto simp: same_handle_def)
  with finish_frame [OF finished(4)] show ?case
    by (simp add: result_use_def result_sane_def)
next
  case (more r s b r1 s1 out r' s')
  then have live: "\<not> res_released r" by (auto simp: result_sane_def)
  note f = next_block_frame [OF more(3)]
  from more live have "wire s1 ((res_conn r, res_client r, {SQuery}) # H)"
    using next_block_wire [OF more(3), of "res_conn r" H] by (simp add: result_use_def)
  moreover have "result_sane A (ch_result_load_block b r1)"
    using next_block_clean [OF assms(2) more(3)] f more live
    by (auto simp: result_sane_def ch_result_load_block_def)
  ultimately show ?case
    using f live by (intro more(4)) (simp_all add: result_use_def same_handle_def)
qed

lemma result_run_wire:
  assumes "result_run A r s r' s'" and "lib_clean A" and "abi_honours_verdict A"
    and "wire s (result_use r @ H)" and "result_sane A r"
  shows "wire s' (result_use r' @ H) \<and> result_sane A r'"
  using assms by (induction rule: result_run.induct) (auto dest: result_next_wire)

text \<open>Priming a query that was begun.\<close>

lemma prime_loop_wire:
  assumes "prime_loop A r s = Some (out, r', s')" and "lib_clean A" and "abi_honours_verdict A"
    and "wire s ((res_conn r, res_client r, {SQuery}) # H)"
    and "\<not> res_released r" "\<not> res_done r" "\<not> res_broken r"
  shows "case out of
      Inl e \<Rightarrow> \<not> res_released r' \<and> clean_failure e
        \<and> wire s' ((res_conn r', res_client r', next_states (Inl e)) # H)
    | Inr u \<Rightarrow> wire s' (result_use r' @ H) \<and> result_sane A r'"
  using assms(1,4-7)
proof (induction rule: prime_loop_induct)
  case (failed r s e r1 s1)
  with next_block_wire [OF failed(1,2)] next_block_frame [OF failed(1)]
    next_block_clean [OF assms(2) failed(1)]
  show ?case by (simp add: same_handle_def)
next
  case (finished r s r1 s1 r' s')
  note f = next_block_frame [OF finished(1)]
  from next_block_wire [OF finished(1,3)] f
    result_finish_wire [OF finished(2) _ _ assms(3), of "{SIdle}" H] finished(4)
  have "wire s' H" by (auto simp: same_handle_def)
  with finish_frame [OF finished(2)] show ?case
    by (simp add: result_use_def result_sane_def)
next
  case (rows r s b r1 s1)
  with next_block_wire [OF rows(1,3)] next_block_frame [OF rows(1)]
    next_block_clean [OF assms(2) rows(1)]
  show ?case by (simp add: result_use_def result_sane_def same_handle_def ch_result_load_block_def)
next
  case (more r s b r1 s1 out r' s')
  note f = next_block_frame [OF more(1)]
  from next_block_wire [OF more(1,4)] f more(5-7) show ?case
    by (intro more(3)) (auto simp: same_handle_def)
qed

lemma begin_execute_wire:
  assumes b: "begin_execute A q r s = (res, r1, s1)"
    and w: "wire s ((c, res_client r, {SIdle}) # H)"
  shows "wire s1 ((c, res_client r, case res of Inl e \<Rightarrow> next_states (Inl e) | Inr u \<Rightarrow> {SQuery}) # H)"
proof (rule wire_calls [OF w begin_execute_frame(2) [OF b]])
  show "session (res_client r) (calls s1)
      \<in> (case res of Inl e \<Rightarrow> next_states (Inl e) | Inr u \<Rightarrow> {SQuery}) \<inter> alive"
    using begin_execute_frame(2) [OF b] wire_head(2) [OF w]
    by (auto simp: session_append split: sum.splits)
  show "next_conn s1 = next_conn s"
    using b by (auto simp: begin_execute_def split: prod.splits dest: ext_call_frame)
qed (simp_all add: begin_execute_frame(3) [OF b])

lemma begin_execute_clean:
  assumes "lib_clean A" and "begin_execute A q r s = (Inl e, r1, s1)"
  shows "clean_failure e"
  using assms(2) assms(1) [unfolded lib_clean_def, THEN conjunct1, rule_format, of "res_client r" q
      "(eg_exception s, ext s)"]
  by (auto simp: begin_execute_def ext_call_def split: prod.splits sum.splits)

lemma result_start_wire:
  assumes start: "ch_result_start A c h p sql params settings s = Some (out, s')"
    and "lib_clean A" and "abi_honours_verdict A" and w: "wire s ((c, h, {SIdle}) # H)"
  shows "case out of
      None \<Rightarrow> wire s' H
    | Some r \<Rightarrow> wire s' (result_use r @ H) \<and> result_sane A r"
proof -
  define q where "q = ch_apply_params_settings A \<lparr>q_text = c_str sql, q_params = [], q_settings = []\<rparr>
    params settings"
  obtain res r1 s1 where b: "begin_execute A q (new_result A c h p s) s = (res, r1, s1)"
    by (metis surj_pair)
  from begin_execute_frame(1) [OF b] have r1: "res_conn r1 = c" "res_client r1 = h"
    "\<not> res_released r1" "\<not> res_done r1" "\<not> res_broken r1"
    by auto
  from begin_execute_wire [OF b, of c H] w
  have w1: "wire s1 ((c, h, case res of Inl e \<Rightarrow> next_states (Inl e) | Inr u \<Rightarrow> {SQuery}) # H)"
    by simp
  have failed: "wire s' H"
    if "\<not> res_released r2" "wire s2 ((res_conn r2, res_client r2, next_states (Inl e)) # H)"
      "clean_failure e" "s' = snd (result_failed A e r2 s2)" for e r2 s2
    using that clean_states [of e] result_failed_wire [OF _ that(1,2) assms(3)]
    by (cases "result_failed A e r2 s2") simp
  show ?thesis
  proof (cases res)
    case (Inl e)
    with start b have "out = None" "s' = snd (result_failed A e r1 s1)"
      by (simp_all add: ch_result_start_def q_def)
    with failed [of r1 s1 e] r1 w1 Inl begin_execute_clean [OF assms(2) b [unfolded Inl]]
    show ?thesis by simp
  next
    case (Inr u)
    with start b obtain res2 r2 s2 where l: "prime_loop A r1 s1 = Some (res2, r2, s2)"
      by (auto simp: ch_result_start_def q_def split: option.splits)
    from prime_loop_wire [OF l assms(2,3), of H] w1 r1 Inr
    have p: "case res2 of
        Inl e \<Rightarrow> \<not> res_released r2 \<and> clean_failure e
          \<and> wire s2 ((res_conn r2, res_client r2, next_states (Inl e)) # H)
      | Inr u \<Rightarrow> wire s2 (result_use r2 @ H) \<and> result_sane A r2"
      by simp
    show ?thesis
    proof (cases res2)
      case (Inl e)
      with start b l Inr have "out = None" "s' = snd (result_failed A e r2 s2)"
        by (simp_all add: ch_result_start_def q_def)
      with failed [of r2 s2 e] p Inl show ?thesis by simp
    next
      case (Inr v)
      with start b l p \<open>res = Inr u\<close> show ?thesis
        by (auto simp: ch_result_start_def q_def)
    qed
  qed
qed

text \<open>Freeing a result that still has unread blocks marks the connection, so the pool destroys it.\<close>

lemma result_free_wire:
  assumes w: "wire s (result_use r @ H)" and "abi_honours_verdict A" and "result_sane A r"
  shows "wire (ch_result_free A r s) H"
proof (cases "res_released r")
  case True
  with w show ?thesis by (simp add: result_use_def ch_result_free_def)
next
  case False
  with assms(3) have "\<not> res_done r" by (simp add: result_sane_def)
  let ?r = "r\<lparr>res_broken := True\<rparr>"
  obtain r' s' where rel: "ch_result_release A ?r s = (r', s')"
    by (metis surj_pair)
  with w False have "wire s' H"
    by (intro result_release_wire [OF rel _ _ assms(2), of "{SQuery}"]) (simp_all add: result_use_def)
  with False \<open>\<not> res_done r\<close> rel show ?thesis
    by (simp add: ch_result_free_def)
qed

end
