(* ===== verification/Ch_Safety.thy ===== *)
theory Ch_Safety
  imports Ch_Protocol
begin

text \<open>
  The wire protocol over the whole application: whatever PHP code does with one Client and its
  Results and Batches, the claims of the live objects are claims on different connections, and
  every client is in the state its holder needs.
\<close>

section \<open>What a method of a Result does to its handle\<close>

text \<open>Every method pulls the handle some number of times, or has none to pull.\<close>

definition ro_pulls :: "'w ch_api \<Rightarrow> result_object \<times> 'w vm \<Rightarrow> result_object \<times> 'w vm \<Rightarrow> bool" where
  "ro_pulls A x y \<longleftrightarrow>
     ro_client (fst y) = ro_client (fst x) \<and>
     (case ro_result (fst x) of
        None \<Rightarrow> ro_result (fst y) = None \<and> snd y = snd x
      | Some r \<Rightarrow> (\<exists>r'. ro_result (fst y) = Some r' \<and> result_run A r (snd x) r' (snd y)))"

lemma result_run_trans:
  "result_run A r1 s1 r2 s2 \<Longrightarrow> result_run A r s r1 s1 \<Longrightarrow> result_run A r s r2 s2"
  by (induction rule: result_run.induct) (auto intro: result_run.pull)

lemma result_run_one: "ch_result_next A r s = Some (out, r', s') \<Longrightarrow> result_run A r s r' s'"
  by (rule result_run.pull [OF result_run.here])

lemma ro_pulls_same: "ro_result obj' = ro_result obj \<Longrightarrow> ro_client obj' = ro_client obj \<Longrightarrow>
    ro_pulls A (obj, s) (obj', s)"
  by (auto simp: ro_pulls_def intro: result_run.here split: option.splits)

lemma ro_pulls_trans: "ro_pulls A x y \<Longrightarrow> ro_pulls A y z \<Longrightarrow> ro_pulls A x z"
  by (auto simp: ro_pulls_def intro: result_run_trans split: option.splits)

lemma pull_row_pulls: "pull_row A obj s = Some (row, obj', s') \<Longrightarrow> ro_pulls A (obj, s) (obj', s')"
  by (auto simp: pull_row_def ro_pulls_def dest: result_run_one split: option.splits)

lemma advance_pulls:
  assumes "ch_result_object_advance A obj s = Some (obj', s')"
  shows "ro_pulls A (obj, s) (obj', s')"
proof -
  from assms obtain row obj1 s1 where
    p: "pull_row A (obj\<lparr>ro_current := None\<rparr>) s = Some (row, obj1, s1)"
    by (auto simp: ch_result_object_advance_def split: option.splits)
  have "ro_pulls A (obj, s) (obj1, s1)"
    by (rule ro_pulls_trans [OF ro_pulls_same pull_row_pulls [OF p]]) simp_all
  moreover have "ro_pulls A (obj1, s1) (obj', s')"
    using assms p
    by (auto simp: ch_result_object_advance_def split: option.splits intro!: ro_pulls_same)
  ultimately show ?thesis by (rule ro_pulls_trans)
qed

lemma fetchAll_pulls:
  assumes "result_fetchAll A obj s = Some (v, obj', s')"
  shows "ro_pulls A (obj, s) (obj', s')"
proof (cases "ro_result obj")
  case None
  with assms show ?thesis by (auto simp: result_fetchAll_def intro: ro_pulls_same)
next
  case (Some r)
  with assms obtain rows r' where
    d: "drain (\<lambda>(r, s). ch_result_next A r s) (r, s) [] = Some (rows, r', s')"
    and obj': "obj' = obj\<lparr>ro_result := Some r'\<rparr>"
    by (auto simp: result_fetchAll_def split: option.splits)
  have "(\<lambda>(r, s) (r', s'). result_run A r s r' s') (r, s) (r', s')"
    using d by (rule drain_rel) (auto intro: result_run_one result_run_trans)
  with Some obj' show ?thesis by (simp add: ro_pulls_def)
qed

lemma result_method_pulls: "result_method A obj s obj' s' \<Longrightarrow> ro_pulls A (obj, s) (obj', s')"
proof (induction rule: result_method.induct)
  case rewind
  show ?case
  proof (cases "ro_started obj")
    case True
    with rewind show ?thesis by (auto simp: result_rewind_def intro: ro_pulls_same)
  next
    case False
    with rewind have "ch_result_object_advance A (obj\<lparr>ro_started := True\<rparr>) s = Some (obj', s')"
      by (simp add: result_rewind_def)
    from ro_pulls_trans [OF ro_pulls_same advance_pulls [OF this]] show ?thesis by simp
  qed
qed (auto simp: result_next_def dest!: fetch_pull fetchOne_pull
    intro: pull_row_pulls fetchAll_pulls advance_pulls)

section \<open>The claims of the application\<close>

definition ro_use :: "result_object \<Rightarrow> claim list" where
  "ro_use obj = (case ro_result obj of None \<Rightarrow> [] | Some r \<Rightarrow> result_use r)"

definition bo_use :: "batch_object \<Rightarrow> claim list" where
  "bo_use obj = (case bo_batch obj of None \<Rightarrow> [] | Some b \<Rightarrow> batch_use b)"

definition claims :: "'w world \<Rightarrow> claim list" where
  "claims w = concat (map ro_use (w_results w)) @ concat (map bo_use (w_batches w))"

definition ro_sane :: "'w ch_api \<Rightarrow> result_object \<Rightarrow> bool" where
  "ro_sane A obj \<longleftrightarrow> (\<forall>r. ro_result obj = Some r \<longrightarrow> ro_client obj \<and> result_sane A r)"

definition bo_sane :: "batch_object \<Rightarrow> bool" where
  "bo_sane obj \<longleftrightarrow> (\<forall>b. bo_batch obj = Some b \<longrightarrow> bo_client obj \<and> \<not> bat_released b)"

definition wire_ok :: "'w ch_api \<Rightarrow> 'w world \<Rightarrow> bool" where
  "wire_ok A w \<longleftrightarrow>
     wire (app_vm (w_app w)) (claims w) \<and> list_all (ro_sane A) (w_results w)
     \<and> list_all bo_sane (w_batches w)"

text \<open>A connection that nobody holds, by the log, is one that nobody claims.\<close>

lemma ro_holds_use: "(c, h, U) \<in> set (ro_use obj) \<Longrightarrow> \<exists>p. 0 < ro_holds obj p c"
  by (auto simp: ro_use_def ro_holds_def result_use_def result_holds_def one_def split: option.splits if_splits)

lemma bo_holds_use: "(c, h, U) \<in> set (bo_use obj) \<Longrightarrow> \<exists>p. 0 < bo_holds obj p c"
  by (cases "bo_batch obj")
    (auto simp: bo_use_def bo_holds_def batch_use_def batch_holds_def one_def split: if_splits)

lemma ro_holds_nonneg: "0 \<le> ro_holds obj p c"
  by (auto simp: ro_holds_def result_holds_def one_def split: option.splits)

lemma bo_holds_nonneg: "0 \<le> bo_holds obj p c"
  by (auto simp: bo_holds_def batch_holds_def one_def split: option.splits)

lemma sum_list_positive:
  fixes f :: "'a \<Rightarrow> int"
  assumes "x \<in> set xs" and "0 < f x" and "\<And>y. 0 \<le> f y"
  shows "0 < sum_list (map f xs)"
proof -
  have "f x \<le> sum_list (map f xs)"
    by (rule member_le_sum_list) (use assms in auto)
  with assms(2) show ?thesis by simp
qed

lemma claimed_held:
  assumes "(c, h, U) \<in> set (claims w)"
  shows "\<exists>p. 0 < w_holds w p c"
proof -
  have nn: "0 \<le> (\<Sum>obj\<leftarrow>w_results w. ro_holds obj p c)" "0 \<le> (\<Sum>obj\<leftarrow>w_batches w. bo_holds obj p c)" for p
    by (auto intro!: sum_list_nonneg ro_holds_nonneg bo_holds_nonneg)
  from assms consider obj where "obj \<in> set (w_results w)" "(c, h, U) \<in> set (ro_use obj)"
    | obj where "obj \<in> set (w_batches w)" "(c, h, U) \<in> set (bo_use obj)"
    by (auto simp: claims_def)
  then show ?thesis
  proof cases
    case 1
    from ro_holds_use [OF 1(2)] obtain p where "0 < ro_holds obj p c" ..
    from sum_list_positive [where f = "\<lambda>obj. ro_holds obj p c", OF 1(1) this ro_holds_nonneg] nn(2) [of p]
    show ?thesis by (intro exI [of _ p]) (simp add: w_holds_def)
  next
    case 2
    from bo_holds_use [OF 2(2)] obtain p where "0 < bo_holds obj p c" ..
    from sum_list_positive [where f = "\<lambda>obj. bo_holds obj p c", OF 2(1) this bo_holds_nonneg] nn(1) [of p]
    show ?thesis by (intro exI [of _ p]) (simp add: w_holds_def)
  qed
qed

section \<open>The end of the Client\<close>

lemma client_free_wire:
  assumes w: "wire s H" and c: "c \<notin> fst ` set H"
  shows "wire (ch_client_free A c s) H"
proof (cases "conns s c")
  case None
  with w show ?thesis by (simp add: ch_client_free_def)
next
  case (Some cl)
  obtain u s1 where x: "ext_call (cli_delete A (cl_client cl)) s = (u, s1)"
    by (metis surj_pair)
  note f = ext_call_frame [OF x]
  have r: "ch_client_free A c s = (log_call (CDelete (cl_client cl)) s1)\<lparr>conns := (conns s)(c := None)\<rparr>"
    using Some x f by (simp add: ch_client_free_def)
  have "session (cl_client cl) (calls s) = SIdle"
    using wire_unclaimed [OF w Some c] by simp
  then have "session (cl_client cl) (calls (ch_client_free A c s)) = SGone"
    using r f by (simp add: session_append)
  then show ?thesis
    using r f by (intro wire_drop [OF wire_claimed_idle [OF w Some c], of _ "[CDelete (cl_client cl)]"])
      simp_all
qed

lemma wire_logged_call:
  assumes "wire s H" and "\<And>h st. session_step h st x = st"
  shows "wire (log_call x (snd (ext_call f s))) H"
proof -
  have "unnoticed s (snd (ext_call f s))"
    by (rule unnoticed_ext [of f s "fst (ext_call f s)"]) simp
  from unnoticed_trans [OF this unnoticed_log [OF assms(2)]] assms(1) show ?thesis
    by (simp add: unnoticed_wire)
qed

lemma destructors_wire: "wire s [] \<Longrightarrow> wire (fold (ch_pool_destructor A) cs s) []"
  by (induction cs arbitrary: s) (simp_all add: ch_pool_destructor_def client_free_wire)

lemma client_object_free_wire:
  assumes "wire s []"
  shows "wire (ch_client_object_free A obj s) []"
proof -
  define s1 where "s1 = (case obj_pool_wrapper obj of None \<Rightarrow> s
    | Some w \<Rightarrow> log_call (CReleaseWrapper w) (snd (ext_call (abi_obj_release A w) s)))"
  have s1: "wire s1 []"
    using assms by (cases "obj_pool_wrapper obj") (simp_all add: s1_def wire_logged_call)
  show ?thesis
  proof (cases "obj_pool obj")
    case None
    with s1 show ?thesis by (simp add: ch_client_object_free_def s1_def)
  next
    case (Some p)
    let ?x = "ext_call (abi_close A p) s1"
    have "ch_client_object_free A obj s = log_call (CReleasePool p)
        (snd (ext_call (abi_pool_event_release A p)
          (fold (ch_pool_destructor A) (fst ?x) (log_call (CClosePool p) (snd ?x)))))"
      using Some by (simp add: ch_client_object_free_def Let_def s1_def [symmetric] split: prod.splits)
    moreover from s1 have "wire (log_call (CClosePool p) (snd ?x)) []"
      by (rule wire_logged_call) simp
    ultimately show ?thesis
      by (simp add: wire_logged_call destructors_wire)
  qed
qed

lemma obj_release_wire:
  assumes "wire (app_vm a) H" and "app_refs a = 1 \<Longrightarrow> H = []"
  shows "wire (app_vm (obj_release A a)) H"
  using assms by (cases "app_refs a = 1") (simp_all add: obj_release_def client_object_free_wire)

text \<open>No reference to the Client, no claim.\<close>

lemma unreferenced_use:
  "list_all (ro_sane A) rs \<Longrightarrow> filter ro_client rs = [] \<Longrightarrow> concat (map ro_use rs) = []"
  by (induction rs) (auto simp: ro_sane_def ro_use_def split: option.splits if_splits)

lemma unreferenced_batch_use:
  "list_all bo_sane bs \<Longrightarrow> filter bo_client bs = [] \<Longrightarrow> concat (map bo_use bs) = []"
  by (induction bs) (auto simp: bo_sane_def bo_use_def split: option.splits if_splits)

lemma unreferenced_claims:
  assumes "list_all (ro_sane A) (w_results w)" and "list_all bo_sane (w_batches w)" and "w_refs w = 0"
  shows "claims w = []"
  using assms unreferenced_use [OF assms(1)] unreferenced_batch_use [OF assms(2)]
  by (auto simp: claims_def w_refs_def filter_empty_conv)

section \<open>Runs in which a broken batch is left alone\<close>

text \<open>
  What the code relies on when it acquires: the pool does not hand out a connection that was
  taken and not given back, and two live connections are different library clients.
\<close>

definition acquires_free :: "'w ch_api \<Rightarrow> 'w app \<Rightarrow> bool" where
  "acquires_free A a \<longleftrightarrow>
     (\<forall>c obj1 s1. ch_pool_acquire A (app_client a) (app_vm a) = (Some c, obj1, s1) \<longrightarrow>
        (\<forall>p. held p c (calls (app_vm a)) = 0) \<and>
        (\<forall>d cl cl'. conns s1 c = Some cl \<longrightarrow> conns s1 d = Some cl' \<longrightarrow>
           cl_client cl' = cl_client cl \<longrightarrow> d = c))"

text \<open>A flush is repeated on a batch whose connection an earlier flush broke.\<close>

definition retries_broken :: "'w ch_api \<Rightarrow> 'w world \<Rightarrow> 'w world \<Rightarrow> bool" where
  "retries_broken A w w' \<longleftrightarrow>
     (\<exists>bs obj cs b obj' s. w_batches w = bs @ obj # cs \<and> bo_batch obj = Some b
        \<and> bat_broken b \<and> bat_pending b \<noteq> [] \<and> batch_flush A obj (app_vm (w_app w)) = (obj', s)
        \<and> w' = w\<lparr>w_app := (w_app w)\<lparr>app_vm := s\<rparr>, w_batches := bs @ obj' # cs\<rparr>)"

inductive careful_run :: "'w ch_api \<Rightarrow> 'w world \<Rightarrow> 'w world \<Rightarrow> bool" for A w where
  start: "careful_run A w w"
| step: "careful_run A w w1 \<Longrightarrow> world_step A w1 w2 \<Longrightarrow> acquires_free A (w_app w1) \<Longrightarrow>
    \<not> retries_broken A w1 w2 \<Longrightarrow> careful_run A w w2"

lemma careful_run_world: "careful_run A w w' \<Longrightarrow> world_run A w w'"
  by (induction rule: careful_run.induct) (auto intro: world_run.intros)

section \<open>Every step keeps the protocol\<close>

text \<open>The common prologue takes a connection that nobody claims.\<close>

definition may_acquire :: "'w ch_api \<Rightarrow> 'w app \<Rightarrow> claim list \<Rightarrow> bool" where
  "may_acquire A a H \<longleftrightarrow>
     idle_lives A (app_client a) (app_vm a) \<and> acquires_free A a \<and>
     (\<forall>c h U. (c, h, U) \<in> set H \<longrightarrow> (\<exists>p. held p c (calls (app_vm a)) \<noteq> 0))"

lemma with_connection_wire:
  assumes run: "with_connection A a = (r, a1)" and w: "wire (app_vm a) H" and "may_acquire A a H"
  shows "case r of
      None \<Rightarrow> wire (app_vm a1) H
    | Some (c, h, p) \<Rightarrow> wire (app_vm a1) ((c, h, {SIdle}) # H)"
proof -
  from assms(3) have lives: "idle_lives A (app_client a) (app_vm a)" and free: "acquires_free A a"
    and unheld: "\<And>c h U. (c, h, U) \<in> set H \<Longrightarrow> \<exists>p. held p c (calls (app_vm a)) \<noteq> 0"
    unfolding may_acquire_def by blast+
  obtain c obj1 s1 where q: "ch_pool_acquire A (app_client a) (app_vm a) = (c, obj1, s1)"
    by (metis surj_pair)
  from ch_pool_acquire_moves [OF q] have pool: "c \<noteq> None \<Longrightarrow> obj_pool obj1 \<noteq> None"
    by (auto split: option.splits)
  have a1: "app_vm a1 = s1"
    using run q by (auto simp: with_connection_def Let_def split: option.splits)
  show ?thesis
  proof (cases c)
    case None
    with q run have "r = None" by (simp add: with_connection_def Let_def)
    with ch_pool_acquire_effect [OF q] None w a1 show ?thesis
      by (auto simp: unnoticed_wire)
  next
    case (Some c')
    with q lives obtain cl where cl: "conns s1 c' = Some cl"
      by (auto simp: idle_lives_def)
    from Some pool obtain p where "obj_pool obj1 = Some p" by auto
    with q run Some cl have r: "r = Some (c', cl_client cl, p)"
      by (auto simp: with_connection_def Let_def)
    from free [unfolded acquires_free_def, rule_format, OF q [unfolded Some]] cl
    have f: "\<forall>p. held p c' (calls (app_vm a)) = 0"
      "\<And>d cl'. conns s1 d = Some cl' \<Longrightarrow> cl_client cl' = cl_client cl \<Longrightarrow> d = c'"
      by blast+
    have unclaimed: "c' \<notin> fst ` set H"
    proof
      assume "c' \<in> fst ` set H"
      then obtain h U where "(c', h, U) \<in> set H" by force
      from unheld [OF this] f(1) show False by simp
    qed
    from ch_pool_acquire_effect [OF q] have "wire s1 ((c', cl_client cl, {SIdle}) # H)"
    proof (elim disjE exE conjE)
      assume "unnoticed (app_vm a) s1"
      with w have "wire s1 H" by (simp add: unnoticed_wire)
      from wire_claimed_idle [OF this cl unclaimed] show ?thesis .
    next
      fix d h assume d: "c = Some d" and o: "opens d h (app_vm a) s1"
      with Some cl have h: "cl_client cl = h" "d = c'" by (auto simp: opens_def)
      have "wire s1 ((d, h, {SIdle}) # H)"
        using w o by (rule wire_opens) (use f(2) h in simp)
      with h show ?thesis by simp
    qed
    with r a1 show ?thesis by simp
  qed
qed

lemma client_query_wire:
  assumes q: "client_query A sql params options a = Some (out, a')" and w: "wire (app_vm a) H"
    and ok: "may_acquire A a H" "lib_clean A" "abi_honours_verdict A"
  shows "wire (app_vm a') (concat (map ro_use (of_option out)) @ H)
    \<and> list_all (ro_sane A) (of_option out)"
proof -
  obtain x a1 where c: "with_connection A a = (x, a1)" by (metis surj_pair)
  note w1 = with_connection_wire [OF c w ok(1)]
  show ?thesis
  proof (cases x)
    case None
    with q c w1 show ?thesis by (auto simp: client_query_def)
  next
    case (Some y)
    then obtain cn h p where x: "x = Some (cn, h, p)" by (cases y) auto
    with w1 have w1: "wire (app_vm a1) ((cn, h, {SIdle}) # H)" by simp
    from x c q obtain r s2 where
      st: "ch_result_start A cn h p sql params (query_settings options) (app_vm a1) = Some (r, s2)"
      by (auto simp: client_query_def split: option.splits)
    from result_start_wire [OF st ok(2,3) w1] x c q st show ?thesis
      by (cases r) (auto simp: client_query_def ro_use_def ro_sane_def)
  qed
qed

lemma client_insert_wire:
  assumes i: "client_insert A table columns rows a = (ok, a')" and w: "wire (app_vm a) H"
    and ok: "may_acquire A a H" "abi_honours_verdict A"
  shows "wire (app_vm a') H"
proof -
  obtain x a1 where c: "with_connection A a = (x, a1)" by (metis surj_pair)
  note w1 = with_connection_wire [OF c w ok(1)]
  show ?thesis
  proof (cases x)
    case None
    with i c w1 show ?thesis by (auto simp: client_insert_def)
  next
    case (Some y)
    then obtain cn h p where x: "x = Some (cn, h, p)" by (cases y) auto
    with w1 have w1: "wire (app_vm a1) ((cn, h, {SIdle}) # H)" by simp
    obtain ok' s2 where s: "ch_client_insert A cn table columns rows (app_vm a1) = (ok', s2)"
      by (metis surj_pair)
    from ch_client_insert_wire [OF w1 ok(2) s] x c i s show ?thesis
      by (auto simp: client_insert_def)
  qed
qed

lemma client_insertBatch_wire:
  assumes i: "client_insertBatch A table columns a = (out, a')" and w: "wire (app_vm a) H"
    and ok: "may_acquire A a H"
  shows "wire (app_vm a') (concat (map bo_use (of_option out)) @ H) \<and> list_all bo_sane (of_option out)"
proof -
  obtain x a1 where c: "with_connection A a = (x, a1)" by (metis surj_pair)
  note w1 = with_connection_wire [OF c w ok]
  show ?thesis
  proof (cases x)
    case None
    with i c w1 show ?thesis by (auto simp: client_insertBatch_def)
  next
    case (Some y)
    then obtain cn h p where x: "x = Some (cn, h, p)" by (cases y) auto
    have "\<not> bat_released (ch_batch_start A cn h p table columns)"
      by (simp add: ch_batch_start_def split: prod.splits)
    with x c i w1 show ?thesis
      by (auto simp: client_insertBatch_def bo_use_def bo_sane_def batch_start_use)
  qed
qed

lemma client_getPool_wire:
  assumes g: "client_getPool A a = (r, a')"
  shows "unnoticed (app_vm a) (app_vm a')"
proof -
  obtain ok obj1 s1 where e: "ch_pool_ensure A (app_client a) (app_vm a) = (ok, obj1, s1)"
    by (metis surj_pair)
  note q = ch_pool_ensure_unnoticed [OF e]
  from e q g show ?thesis
    by (auto simp: client_getPool_def Let_def split: if_splits option.splits prod.splits
        intro: unnoticed_trans [OF _ unnoticed_ext] unnoticed_trans [OF unnoticed_trans [OF _ unnoticed_ext] unnoticed_throw(2)])
qed

text \<open>A method of one object, beside the claims of all the others.\<close>

lemma result_method_wire:
  assumes m: "result_method A obj s obj' s'" and w: "wire s (ro_use obj @ H)" and "ro_sane A obj"
    and "lib_clean A" "abi_honours_verdict A"
  shows "wire s' (ro_use obj' @ H) \<and> ro_sane A obj'"
proof (cases "ro_result obj")
  case None
  with result_method_pulls [OF m] w show ?thesis
    by (simp add: ro_pulls_def ro_use_def ro_sane_def)
next
  case (Some r)
  with result_method_pulls [OF m] obtain r' where
    r': "ro_result obj' = Some r'" "result_run A r s r' s'" "ro_client obj' = ro_client obj"
    by (auto simp: ro_pulls_def)
  from result_run_wire [OF r'(2) assms(4,5), of H] w Some r' assms(3) show ?thesis
    by (simp add: ro_use_def ro_sane_def)
qed

lemma batch_method_wire:
  assumes m: "batch_method A obj s obj' s'" and w: "wire s (bo_use obj @ H)" and sane: "bo_sane obj"
    and careful: "\<And>b. bo_batch obj = Some b \<Longrightarrow> batch_flush A obj s = (obj', s') \<Longrightarrow>
      bat_pending b = [] \<or> \<not> bat_broken b"
  shows "wire s' (bo_use obj' @ H) \<and> bo_sane obj'"
proof (cases "bo_batch obj")
  case None
  with m w sane show ?thesis
    by (cases rule: batch_method.cases)
      (auto simp: batch_append_def batch_flush_def batch_count_def ch_batch_this_def)
next
  case (Some b)
  with w sane have b: "wire s (batch_use b @ H)" "\<not> bat_released b" "bo_client obj"
    by (auto simp: bo_use_def bo_sane_def)
  from m show ?thesis
  proof cases
    case (append row)
    then obtain ok b' where a: "ch_batch_append b (ZArray row) s = (ok, b', s')"
      and "obj' = obj\<lparr>bo_batch := Some b'\<rparr>"
      using Some by (auto simp: batch_append_def ch_batch_this_def split: prod.splits)
    with batch_append_wire [OF a, of "batch_use b @ H"] ch_batch_append_frame [OF a] b show ?thesis
      by (simp add: bo_use_def bo_sane_def same_batch_def)
  next
    case flush
    then obtain ok b' where a: "ch_batch_flush A b s = (ok, b', s')"
      and "obj' = obj\<lparr>bo_batch := Some b'\<rparr>"
      using Some by (auto simp: batch_flush_def ch_batch_this_def split: prod.splits)
    with batch_flush_wire [OF b(1) a b(2)] careful [OF Some flush] b show ?thesis
      by (simp add: bo_use_def bo_sane_def)
  next
    case (count n)
    with Some w sane show ?thesis
      by (auto simp: batch_count_def ch_batch_this_def)
  qed
qed

lemma may_acquire_claims:
  assumes "world_ok w" and "idle_lives A (app_client (w_app w)) (app_vm (w_app w))"
    and "acquires_free A (w_app w)"
  shows "may_acquire A (w_app w) (claims w)"
  unfolding may_acquire_def
proof (intro conjI allI impI assms(2,3))
  fix c h U assume "(c, h, U) \<in> set (claims w)"
  then obtain p where "0 < w_holds w p c" using claimed_held by blast
  with assms(1) have "held p c (calls (app_vm (w_app w))) \<noteq> 0"
    by (simp add: world_ok_def)
  then show "\<exists>p. held p c (calls (app_vm (w_app w))) \<noteq> 0" ..
qed

text \<open>Two worlds whose claims are the same, in any order.\<close>

lemma wire_okI:
  assumes "wire (app_vm (w_app w)) H" and "mset (claims w) = mset H"
    and "list_all (ro_sane A) (w_results w)" and "list_all bo_sane (w_batches w)"
  shows "wire_ok A w"
  using wire_perm [OF assms(1,2)] assms(3,4) by (simp add: wire_ok_def)

lemma claims_start [simp]: "claims (world_start obj s) = []"
  by (simp add: claims_def world_start_def)

text \<open>The claims of one object in front of the others.\<close>

lemma focus_result:
  assumes "wire_ok A w" and "w_results w = xs @ obj # ys"
  shows "wire (app_vm (w_app w)) (ro_use obj @ claims (w\<lparr>w_results := xs @ ys\<rparr>))"
    and "ro_sane A obj" and "list_all (ro_sane A) (xs @ ys)" and "list_all bo_sane (w_batches w)"
proof -
  show "wire (app_vm (w_app w)) (ro_use obj @ claims (w\<lparr>w_results := xs @ ys\<rparr>))"
    by (rule wire_perm [of _ "claims w"]) (use assms in \<open>auto simp: wire_ok_def claims_def\<close>)
qed (use assms in \<open>auto simp: wire_ok_def\<close>)

lemma focus_batch:
  assumes "wire_ok A w" and "w_batches w = xs @ obj # ys"
  shows "wire (app_vm (w_app w)) (bo_use obj @ claims (w\<lparr>w_batches := xs @ ys\<rparr>))"
    and "bo_sane obj" and "list_all bo_sane (xs @ ys)" and "list_all (ro_sane A) (w_results w)"
proof -
  show "wire (app_vm (w_app w)) (bo_use obj @ claims (w\<lparr>w_batches := xs @ ys\<rparr>))"
    by (rule wire_perm [of _ "claims w"]) (use assms in \<open>auto simp: wire_ok_def claims_def\<close>)
qed (use assms in \<open>auto simp: wire_ok_def\<close>)

lemma free_object_wire:
  assumes "wire (app_vm a1) H" and "client \<Longrightarrow> app_refs a1 = 1 \<Longrightarrow> H = []"
  shows "wire (app_vm (if client then obj_release A a1 else a1)) H"
  using assms by (cases client) (simp_all add: obj_release_wire)

lemma result_object_free_wire:
  assumes w: "wire (app_vm a) (ro_use obj @ H)" and sane: "ro_sane A obj"
    and "abi_honours_verdict A" and last: "ro_client obj \<Longrightarrow> app_refs a = 1 \<Longrightarrow> H = []"
  shows "wire (app_vm (ch_result_object_free A obj a)) H"
proof (cases "ro_result obj")
  case None
  with w last show ?thesis
    by (simp only: ch_result_object_free_def Let_def option.case ro_use_def append_Nil) (rule free_object_wire)
next
  case (Some r)
  with w sane have "wire (ch_result_free A r (app_vm a)) H"
    by (intro result_free_wire [OF _ assms(3)]) (simp_all add: ro_use_def ro_sane_def)
  with Some last show ?thesis
    by (simp only: ch_result_object_free_def Let_def option.case) (rule free_object_wire, simp_all)
qed

lemma batch_object_free_wire:
  assumes w: "wire (app_vm a) (bo_use obj @ H)"
    and "abi_honours_verdict A" and last: "bo_client obj \<Longrightarrow> app_refs a = 1 \<Longrightarrow> H = []"
  shows "wire (app_vm (ch_batch_object_free A obj a)) H"
proof (cases "bo_batch obj")
  case None
  with w last show ?thesis
    by (simp only: ch_batch_object_free_def Let_def option.case bo_use_def append_Nil) (rule free_object_wire)
next
  case (Some b)
  with w have "wire (ch_batch_free A b (app_vm a)) H"
    by (intro batch_free_wire [OF _ assms(2)]) (simp_all add: bo_use_def)
  with Some last show ?thesis
    by (simp only: ch_batch_object_free_def Let_def option.case) (rule free_object_wire, simp_all)
qed

lemma world_step_wire:
  assumes step: "world_step A w w'" and ok: "world_ok w" "wire_ok A w"
    and free: "acquires_free A (w_app w)" and careful: "\<not> retries_broken A w w'"
    and lib: "lib_clean A" "abi_honours_verdict A"
  shows "wire_ok A w'"
proof -
  have w: "wire (app_vm (w_app w)) (claims w)" and rs: "list_all (ro_sane A) (w_results w)"
    and bs: "list_all bo_sane (w_batches w)"
    using ok(2) by (simp_all add: wire_ok_def)
  have refs: "app_refs (w_app w) = w_refs w" using ok(1) by (simp add: world_ok_def)
  from step show ?thesis
  proof cases
    case (query sql params options r a)
    from client_query_wire [OF query(3) w may_acquire_claims [OF ok(1) _ free] lib] query rs bs
    show ?thesis by (auto simp: claims_def intro!: wire_okI)
  next
    case (insert table columns rows ok' a)
    from client_insert_wire [OF insert(3) w may_acquire_claims [OF ok(1) _ free] lib(2)] insert rs bs
    show ?thesis by (auto simp: claims_def intro!: wire_okI)
  next
    case (insert_batch table columns b a)
    from client_insertBatch_wire [OF insert_batch(3) w may_acquire_claims [OF ok(1) _ free]] insert_batch rs bs
    show ?thesis by (auto simp: claims_def intro!: wire_okI)
  next
    case (get_pool p a)
    from unnoticed_wire [OF client_getPool_wire [OF get_pool(3)]] get_pool w rs bs
    show ?thesis by (auto simp: claims_def intro!: wire_okI)
  next
    case new_result
    with w rs bs show ?thesis
      by (intro wire_okI) (auto simp: claims_def ch_result_object_create_def ro_use_def ro_sane_def)
  next
    case new_batch
    with w rs bs show ?thesis
      by (intro wire_okI) (auto simp: claims_def ch_batch_object_create_def bo_use_def bo_sane_def)
  next
    case (result_call xs obj ys obj' s)
    note f = focus_result [OF ok(2) result_call(2)]
    from result_method_wire [OF result_call(3) f(1,2) lib] f(3,4) result_call(1) show ?thesis
      by (intro wire_okI) (auto simp: claims_def)
  next
    case (batch_call xs obj ys obj' s)
    note f = focus_batch [OF ok(2) batch_call(2)]
    have "bat_pending b = [] \<or> \<not> bat_broken b"
      if "bo_batch obj = Some b" "batch_flush A obj (app_vm (w_app w)) = (obj', s)" for b
      using careful that batch_call(1,2) unfolding retries_broken_def by blast
    from batch_method_wire [OF batch_call(3) f(1,2) this] f(3,4) batch_call(1) show ?thesis
      by (intro wire_okI) (auto simp: claims_def)
  next
    case (free_result xs obj ys)
    note f = focus_result [OF ok(2) free_result(2)]
    let ?w = "w\<lparr>w_results := xs @ ys\<rparr>"
    have "claims ?w = []" if "ro_client obj" "app_refs (w_app w) = 1"
      using that refs free_result(2) f(3,4) by (intro unreferenced_claims [of A]) (auto simp: w_refs_def)
    from result_object_free_wire [OF f(1,2) lib(2) this] f(3,4) free_result(1) show ?thesis
      by (intro wire_okI) (auto simp: claims_def)
  next
    case (free_batch xs obj ys)
    note f = focus_batch [OF ok(2) free_batch(2)]
    let ?w = "w\<lparr>w_batches := xs @ ys\<rparr>"
    have "claims ?w = []" if "bo_client obj" "app_refs (w_app w) = 1"
      using that refs free_batch(2) f(3,4) by (intro unreferenced_claims [of A]) (auto simp: w_refs_def)
    from batch_object_free_wire [OF f(1) lib(2) this] f(3,4) free_batch(1) show ?thesis
      by (intro wire_okI) (auto simp: claims_def)
  next
    case drop_client
    let ?w = "w\<lparr>w_user := False\<rparr>"
    have "claims w = []" if "app_refs (w_app w) = 1"
      using unreferenced_claims [of A ?w] that refs drop_client(2) rs bs
      by (simp add: w_refs_def claims_def)
    from obj_release_wire [OF w this] drop_client(1) rs bs show ?thesis
      by (intro wire_okI) (auto simp: claims_def)
  qed
qed

lemma wire_ok_start: "calls s = [] \<Longrightarrow> conns s = Map.empty \<Longrightarrow> wire_ok A (world_start obj s)"
  by (simp add: wire_ok_def world_start_def claims_def wire_def)

lemma careful_run_wire:
  assumes "careful_run A w w'" and "world_ok w" and "wire_ok A w"
    and "lib_clean A" and "abi_honours_verdict A"
  shows "wire_ok A w'"
  using assms
proof (induction rule: careful_run.induct)
  case (step w1 w2)
  from world_run_ok [OF careful_run_world [OF step(1)] step(6)] step show ?case
    by (intro world_step_wire [OF step(2)]) simp_all
qed

end
