(* ===== verification/Thm_Protocol.thy ===== *)
theory Thm_Protocol
  imports Ch_Example Ch_Safety
begin

text \<open>
  Properties of the wire protocol: over any use of the objects every library client is called in
  order, and the one use that breaks it.
\<close>

section \<open>Every call is in order\<close>

text \<open>
  Whatever sequence of calls PHP code makes on a Client, its Results and its Batches, in any
  interleaving and whether they fail or not, as long as it does not flush a batch again whose
  connection a flush has broken: no library client is ever called out of order, used after it was
  deleted or deleted twice; a Result that is not finished has the unread blocks of its own query
  on its connection, a Batch an idle connection, no two objects share one; and every live
  connection nobody holds is unbroken and idle, so the pool never hands out a dirty one.
\<close>

theorem protocol_safety:
  assumes "careful_run A (world_start obj s) w" and "calls s = []" and "conns s = Map.empty"
    and "lib_clean A" and "abi_honours_verdict A"
  shows "session h (calls (app_vm (w_app w))) \<noteq> SWrong
    \<and> (ro \<in> set (w_results w) \<and> ro_result ro = Some r \<and> \<not> res_released r \<longrightarrow>
         session (res_client r) (calls (app_vm (w_app w))) = SQuery)
    \<and> (bo \<in> set (w_batches w) \<and> bo_batch bo = Some b \<and> \<not> bat_broken b \<longrightarrow>
         session (bat_client b) (calls (app_vm (w_app w))) = SIdle)
    \<and> distinct (map fst (claims w))
    \<and> (conns (app_vm (w_app w)) c = Some cl \<and> (\<forall>p. held p c (calls (app_vm (w_app w))) = 0) \<longrightarrow>
         \<not> cl_broken cl \<and> session (cl_client cl) (calls (app_vm (w_app w))) = SIdle)"
proof -
  let ?s = "app_vm (w_app w)"
  have ok: "wire_ok A w"
    by (rule careful_run_wire [OF assms(1) world_ok_start [OF assms(2)] wire_ok_start [OF assms(2,3)] assms(4,5)])
  then have w: "wire ?s (claims w)" by (simp add: wire_ok_def)
  have world: "world_ok w"
    by (rule world_run_ok [OF careful_run_world [OF assms(1)] world_ok_start [OF assms(2)]])
  show ?thesis
  proof (intro conjI impI)
    show "session h (calls ?s) \<noteq> SWrong" by (rule wire_right [OF w])
    show "distinct (map fst (claims w))" by (rule wire_distinct [OF w])
    assume ro: "ro \<in> set (w_results w) \<and> ro_result ro = Some r \<and> \<not> res_released r"
    then have "(res_conn r, res_client r, {SQuery}) \<in> set (claims w)"
      by (force simp: claims_def ro_use_def result_use_def)
    with wire_claim(2) [OF w this] show "session (res_client r) (calls ?s) = SQuery" by simp
  next
    assume bo: "bo \<in> set (w_batches w) \<and> bo_batch bo = Some b \<and> \<not> bat_broken b"
    with ok have "\<not> bat_released b" by (auto simp: wire_ok_def list_all_iff bo_sane_def)
    with bo have "(bat_conn b, bat_client b, {SIdle}) \<in> set (claims w)"
      by (force simp: claims_def bo_use_def batch_use_def insert_states_def)
    with wire_claim(2) [OF w this] show "session (bat_client b) (calls ?s) = SIdle" by simp
  next
    assume c: "conns ?s c = Some cl \<and> (\<forall>p. held p c (calls ?s) = 0)"
    have "c \<notin> fst ` set (claims w)"
    proof
      assume "c \<in> fst ` set (claims w)"
      then obtain h' U where "(c, h', U) \<in> set (claims w)" by force
      with claimed_held obtain p where "0 < w_holds w p c" by blast
      with world c show False by (auto simp: world_ok_def)
    qed
    with wire_unclaimed [OF w] c show "\<not> cl_broken cl" and "session (cl_client cl) (calls ?s) = SIdle"
      by blast+
  qed
qed

text \<open>A library whose queries end at once, and an application without a connection.\<close>

definition ex_quiet_api :: "script ch_api" where
  "ex_quiet_api = ex_api\<lparr>cli_next_block := \<lambda>h x. (([], Inr None), x)\<rparr>"

definition ex_fresh_vm :: "script vm" where
  "ex_fresh_vm = \<lparr>eg_exception = None, conns = Map.empty, next_conn = 1, calls = [], ext = []\<rparr>"

lemma ex_quiet_clean: "lib_clean ex_quiet_api"
  by (simp add: lib_clean_def ex_quiet_api_def)

lemma ex_quiet_verdict: "abi_honours_verdict ex_quiet_api"
  by (simp add: abi_honours_verdict_def ex_quiet_api_def)

definition ex_connect :: call where
  "ex_connect = CConnect (client_options_of (connection_config
     (ch_client_object_create\<lparr>obj_pool := Some 1\<rparr>) 0)) False True (Some 7)"

lemma ex_fresh_acquire:
  "ch_pool_acquire ex_quiet_api ch_client_object_create ex_fresh_vm
     = (Some 1, ch_client_object_create\<lparr>obj_pool := Some 1\<rparr>,
        ex_fresh_vm\<lparr>conns := [1 \<mapsto> \<lparr>cl_client = 7, cl_broken = False\<rparr>], next_conn := 2,
          calls := [CNewPool 1 10, ex_connect, CAcquire 1 (Some 1)]\<rparr>)"
  by (simp add: ch_pool_acquire_def ch_pool_ensure_def pool_acquire_def ch_pool_factory_def
      choose_start_def ch_client_connect_def client_call_def ext_call_def log_call_def new_conn_def
      ex_quiet_api_def ex_api_def ex_fresh_vm_def ch_client_object_create_def connection_config_def
      ex_connect_def Let_def)

theorem protocol_safety_witness:
  "\<exists>w. careful_run ex_quiet_api (world_start ch_client_object_create ex_fresh_vm) w
     \<and> conns (app_vm (w_app w)) 1 = Some \<lparr>cl_client = 7, cl_broken = False\<rparr>
     \<and> length (w_batches w) = 1 \<and> session 7 (calls (app_vm (w_app w))) = SIdle"
proof -
  let ?A = ex_quiet_api
  let ?w = "world_start ch_client_object_create ex_fresh_vm"
  obtain b a where b: "client_insertBatch ?A ''t'' [] (w_app ?w) = (b, a)"
    by (metis surj_pair)
  let ?w1 = "?w\<lparr>w_app := a, w_batches := w_batches ?w @ of_option b\<rparr>"
  have "client_ready ?A ?w"
    by (simp add: world_start_def idle_lives_def ex_fresh_acquire)
  moreover have "acquires_free ?A (w_app ?w)"
    by (simp add: acquires_free_def world_start_def ex_fresh_acquire) (simp add: ex_fresh_vm_def)
  moreover have "\<not> retries_broken ?A ?w ?w1"
    by (simp add: retries_broken_def world_start_def)
  ultimately have run: "careful_run ?A ?w ?w1"
    by (intro careful_run.step [OF careful_run.start] world_step.insert_batch [OF _ b])
  let ?bat = "ch_batch_start ?A 1 7 1 ''t'' []"
  have out: "b = Some \<lparr>bo_batch = Some ?bat, bo_client = True\<rparr>"
    "conns (app_vm a) = [1 \<mapsto> \<lparr>cl_client = 7, cl_broken = False\<rparr>]"
    using b by (auto simp: client_insertBatch_def with_connection_def ex_fresh_acquire world_start_def
        ch_batch_object_create_def)
  have "bat_client ?bat = 7" "\<not> bat_broken ?bat"
    by (simp_all add: ch_batch_start_def split: prod.splits)
  with protocol_safety [OF run _ _ ex_quiet_clean ex_quiet_verdict,
      where bo = "\<lparr>bo_batch = Some ?bat, bo_client = True\<rparr>" and b = ?bat] out
  have "session 7 (calls (app_vm (w_app ?w1))) = SIdle"
    by (auto simp: ex_fresh_vm_def world_start_def)
  with run out show ?thesis
    by (intro exI [of _ ?w1]) (simp add: world_start_def)
qed

end
