(* ===== verification/Thm_Insert.thy ===== *)
theory Thm_Insert
  imports Ch_Example Ch_Equiv
begin

text \<open>
  The properties of inserting: what \<open>ch_send_block\<close> sends and in which state it leaves the
  connection, the statement, and the streaming batch.
\<close>

section \<open>One insert\<close>

text \<open>
  C10. A block that reaches \<open>SendInsertBlock\<close> holds all the rows: one column per requested name, of
  the types of the server's sample block, each with as many rows as were given, and the cell at row
  \<open>r\<close> of column \<open>i\<close> is the encoding of value \<open>i\<close> of row \<open>r\<close>. The sample has Map columns of at most
  one type below Arrays and Maps.
\<close>

theorem send_block_holds_rows:
  assumes "ch_lib_ok A" and "lib_block_ok A" and "lib_samples_ok A"
    and "ch_send_block A h stmt names rows broken s = ((ok, broken'), s')"
    and "fst (begin_insert A h stmt s) = Inr sample" and "one_cloned_map (block_types sample)"
    and "calls s' = calls s @ t" and "CSendInsertBlock h blk b \<in> set t"
  shows "map fst blk = names \<and> map (fst \<circ> snd) blk = map (fst \<circ> snd) sample
    \<and> (\<exists>R. enc_rows A (map (fst \<circ> snd) sample) (hash_values rows) = Inr R \<and> length R = length rows
        \<and> (\<forall>i < length blk. case blk ! i of (n, ty, c) \<Rightarrow>
            wf_col ty (length rows) c \<and> col_cells ty c = map (\<lambda>r. r ! i) R))"
  using ch_send_block_sends [OF assms]
proof cases
  case (1 data R)
  from block_holdsI [OF 1(2,5,3)] 1(1,4)
  have "block_holds A sample names (hash_values rows) blk" by simp
  with 1(3,4) show ?thesis by (auto simp: block_holds_def block_types_eq list_all_length)
qed

definition ex_rows :: hash_table where
  "ex_rows = [(KLong 0, php_list [ZLong 1, ZString ''a'']), (KLong 1, php_list [ZLong 2, ZString ''b''])]"

definition ex_block :: "block_column list" where
  "ex_block = [(''id'', Leaf TInt64, LeafCol [VInt64 1, VInt64 2]),
    (''name'', Leaf TString, LeafCol [VString ''a'', VString ''b''])]"

lemma ex_prepare:
  "prepare_block ex_api k [''id'', ''name''] (hash_values ex_rows) ex_sample = Inr ex_block"
  by (simp add: prepare_block_def ex_sample_def block_types_def append_rows_def append_row_def
      ex_rows_def hash_values_def php_list_def add_next_index_def append_leaf_def ex_append_eqs
      build_block_def append_column_def ex_block_def upt_rec)

lemma ex_one_cloned_map: "one_cloned_map (block_types ex_sample)"
  by (simp add: ex_sample_def block_types_def one_cloned_map_def one_map_def)

lemma ex_send_log:
  "ch_send_block ex_api 7 stmt [''id'', ''name''] ex_rows False ((ex_vm w)\<lparr>calls := cs\<rparr>)
     = ((True, False), (ex_vm w)\<lparr>calls := cs @ [CBeginInsert 7 stmt True,
         CSendInsertBlock 7 ex_block True, CEndInsert 7 True]\<rparr>)"
  by (simp add: ch_send_block_def send_block_body_def ebind_def client_call_def ext_call_def
      log_call_def ex_prepare ex_vm_def)

lemma ex_send:
  "ch_send_block ex_api 7 stmt [''id'', ''name''] ex_rows False (ex_vm w)
     = ((True, False), (ex_vm w)\<lparr>calls := [CBeginInsert 7 stmt True, CSendInsertBlock 7 ex_block True,
         CEndInsert 7 True]\<rparr>)"
  using ex_send_log [where w = w and cs = "[]"] by (simp add: ex_vm_def)

theorem send_block_holds_rows_witness:
  "map fst ex_block = [''id'', ''name''] \<and> map (fst \<circ> snd) ex_block = [Leaf TInt64, Leaf TString]"
  using send_block_holds_rows [OF ex_ch_lib_ok ex_lib_block_ok ex_lib_samples_ok
      ex_send [of "''INSERT''" "[]"] _ ex_one_cloned_map,
      of "[CBeginInsert 7 ''INSERT'' True, CSendInsertBlock 7 ex_block True, CEndInsert 7 True]"
        ex_block True]
  by (simp add: client_call_def ext_call_def) (simp add: ex_vm_def ex_sample_def block_types_def)

text \<open>
  C11. All or nothing: when some row does not fit the columns, in its shape or in one value, no
  block is sent at all, the insert reports failure, and a PHP exception is pending. (The sample has
  Map columns of at most one type below Arrays and Maps.)
\<close>

theorem send_block_all_or_nothing:
  assumes "ch_lib_ok A" and "lib_block_ok A" and "lib_samples_ok A"
    and "ch_send_block A h stmt names rows broken s = ((ok, broken'), s')"
    and "fst (begin_insert A h stmt s) = Inr sample" and "one_cloned_map (block_types sample)"
    and "enc_rows A (block_types sample) (hash_values rows) = Inl e"
  shows "\<not> ok \<and> eg_exception s' \<noteq> None
    \<and> (\<exists>t. calls s' = calls s @ t \<and> (\<forall>blk b. CSendInsertBlock h blk b \<notin> set t))"
proof -
  from ch_send_block_calls [OF assms(4)] obtain t where
    t: "calls s' = calls s @ t" "insert_trace A h stmt names (hash_values rows) s ok t" by blast
  have none: "CSendInsertBlock h blk b \<notin> set t" for blk b
  proof
    assume "CSendInsertBlock h blk b \<in> set t"
    with t(2) assms(5) have p: "prepare_block A (Suc (length (calls s))) names (hash_values rows) sample = Inr blk"
      by (auto simp: insert_trace_def)
    then have "length sample = length names"
      by (auto simp: prepare_block_def split: if_splits)
    from prepare_block_cases [OF assms(1,2) lib_samples_okD [OF assms(3,5)] assms(6) this,
        of "Suc (length (calls s))" "hash_values rows"]
    show False using p assms(7) by auto
  qed
  have "\<not> ok"
  proof
    assume ok
    with t(2) obtain blk where "CSendInsertBlock h blk True \<in> set t"
      by (auto simp: insert_trace_def)
    with none show False by blast
  qed
  with ch_send_block_broken [OF assms(4)] t(1) none show ?thesis by blast
qed

theorem send_block_all_or_nothing_witness:
  "fst (fst (ch_send_block ex_api 7 ''INSERT'' [''id'', ''name'']
       [(KLong 0, php_list [ZLong 1, ZString ''a'']), (KLong 1, php_list [ZLong 2])] False (ex_vm [])))
   = False"
proof -
  let ?rows = "[(KLong 0, php_list [ZLong 1, ZString ''a'']), (KLong 1, php_list [ZLong 2])]"
  obtain ok b s' where s: "ch_send_block ex_api 7 ''INSERT'' [''id'', ''name''] ?rows False (ex_vm [])
      = ((ok, b), s')"
    by (metis surj_pair)
  have "enc_rows ex_api (block_types ex_sample) (hash_values ?rows) = Inl row_too_few"
    by (simp add: enc_rows_def enc_row_def ex_sample_def block_types_def hash_values_def php_list_def
        add_next_index_def append_leaf_def ex_append_eqs)
  with send_block_all_or_nothing [OF ex_ch_lib_ok ex_lib_block_ok ex_lib_samples_ok s _ ex_one_cloned_map]
  have "\<not> ok" by (simp add: client_call_def ext_call_def)
  with s show ?thesis by simp
qed

text \<open>
  C12. A connection that the insert does not mark as broken is idle afterwards: on an idle
  connection, every path on which it succeeds or leaves the flag clear ends with an \<open>EndInsert\<close>
  that returned, whatever failed before; and the flag is never cleared.
\<close>

theorem send_block_leaves_idle:
  assumes "ch_send_block A h stmt names rows broken s = ((ok, broken'), s')"
    and "session h (calls s) = SIdle"
  shows "(ok \<or> \<not> broken' \<longrightarrow> session h (calls s') = SIdle) \<and> (broken \<longrightarrow> broken')
    \<and> (ok \<longrightarrow> broken' = broken) \<and> (ok \<or> eg_exception s' \<noteq> None)"
  using ch_send_block_session [OF assms] ch_send_block_broken [OF assms(1)] by blast

theorem send_block_leaves_idle_witness:
  "session 7 (ex_opened @ [CBeginInsert 7 ''INSERT'' True, CSendInsertBlock 7 ex_block True,
     CEndInsert 7 True]) = SIdle"
  using send_block_leaves_idle [OF ex_send_log [where stmt = "''INSERT''" and w = "[]" and cs = ex_opened]] by simp

text \<open>
  The statement lists the columns, converted to strings, in order and separated by commas,
  after the table name as C reads it; the collected names are the same strings.
\<close>

theorem insert_statement:
  "ch_build_insert_statement P table columns =
     (let names = map (zval_get_string P) (hash_values columns)
      in (''INSERT INTO '' @ c_str table @ '' ('' @ join '', '' names @ '') VALUES'', names))"
  by (rule ch_build_insert_statement_eq)

section \<open>The batch\<close>

text \<open>
  C15. A flush of a batch that nothing else touches meanwhile sends all its pending rows or keeps
  them all: when it succeeds, exactly one block was sent, between one \<open>BeginInsert\<close> and one
  \<open>EndInsert\<close> that returned, it was prepared from all the pending rows, so that it has a column of
  the sample's type for every name with the encoding of every row in order, and nothing is pending;
  when it fails, the same rows are still pending and an exception is thrown. A flush with nothing
  pending does nothing.
\<close>

theorem batch_flush_outcomes:
  assumes "ch_batch_flush A b s = (ok, b', s')"
  shows "(bat_pending b = [] \<longrightarrow> ok \<and> b' = b \<and> s' = s)
    \<and> (bat_pending b \<noteq> [] \<and> ok \<longrightarrow> bat_pending b' = []
        \<and> (\<exists>sample blk. fst (begin_insert A (bat_client b) (bat_statement b) s) = Inr sample
            \<and> calls s' = calls s @ [CBeginInsert (bat_client b) (bat_statement b) True,
                CSendInsertBlock (bat_client b) blk True, CEndInsert (bat_client b) True]
            \<and> prepare_block A (Suc (length (calls s))) (bat_names b) (hash_values (bat_pending b)) sample
                = Inr blk
            \<and> (ch_lib_ok A \<and> lib_block_ok A \<and> lib_samples_ok A \<and> one_cloned_map (block_types sample)
                \<longrightarrow> block_holds A sample (bat_names b) (hash_values (bat_pending b)) blk)))
    \<and> (\<not> ok \<longrightarrow> bat_pending b' = bat_pending b \<and> eg_exception s' \<noteq> None)"
proof (cases "bat_pending b = []")
  case True
  with assms show ?thesis by (auto simp: ch_batch_flush_def)
next
  case False
  then show ?thesis
  proof (cases rule: ch_batch_flush_cases [of b A s])
    case (sent broken s1)
    from ch_send_block_calls [OF sent(1)] obtain blk sample where
      t: "calls s1 = calls s @ [CBeginInsert (bat_client b) (bat_statement b) True,
          CSendInsertBlock (bat_client b) blk True, CEndInsert (bat_client b) True]"
      and p: "fst (begin_insert A (bat_client b) (bat_statement b) s) = Inr sample"
        "prepare_block A (Suc (length (calls s))) (bat_names b) (hash_values (bat_pending b)) sample = Inr blk"
      by (auto simp: insert_trace_def)
    have "block_holds A sample (bat_names b) (hash_values (bat_pending b)) blk"
      if "ch_lib_ok A" "lib_block_ok A" "lib_samples_ok A" "one_cloned_map (block_types sample)"
    proof -
      from t have "CSendInsertBlock (bat_client b) blk True \<in> set [CBeginInsert (bat_client b) (bat_statement b) True,
          CSendInsertBlock (bat_client b) blk True, CEndInsert (bat_client b) True]" by simp
      from ch_send_block_sends [OF that(1-3) sent(1) p(1) that(4) t this] show ?thesis
        using block_holdsI by (metis length_hash_values)
    qed
    with sent t p assms False show ?thesis by auto
  next
    case (failed broken s1)
    with ch_send_block_broken [OF failed(1)] assms False show ?thesis by auto
  qed
qed

definition ex_batch :: ch_batch where
  "ex_batch = \<lparr>bat_conn = 0, bat_client = 7, bat_pool = 1, bat_statement = ''INSERT'',
     bat_names = [''id'', ''name''], bat_pending = ex_rows, bat_broken = False, bat_released = False\<rparr>"

lemma ex_flush:
  "ch_batch_flush ex_api ex_batch (ex_vm w) = (True, ex_batch\<lparr>bat_pending := []\<rparr>,
     (ex_vm w)\<lparr>calls := [CBeginInsert 7 ''INSERT'' True, CSendInsertBlock 7 ex_block True,
         CEndInsert 7 True]\<rparr>)"
proof -
  have "ex_rows \<noteq> []" by (simp add: ex_rows_def)
  then show ?thesis
    by (simp add: ch_batch_flush_def ex_batch_def ex_send)
qed

theorem batch_flush_outcomes_witness:
  "block_holds ex_api ex_sample [''id'', ''name''] (hash_values ex_rows) ex_block"
proof -
  have "fst (begin_insert ex_api 7 stmt s) = Inr ex_sample" for stmt s
    by (simp add: client_call_def ext_call_def)
  moreover have "ex_rows \<noteq> []" by (simp add: ex_rows_def)
  ultimately show ?thesis
    using batch_flush_outcomes [OF ex_flush [of "[]"]] ex_ch_lib_ok ex_lib_block_ok ex_lib_samples_ok
      ex_one_cloned_map
    by (auto simp: ex_batch_def ex_vm_def)
qed

text \<open>
  C16. A flush does not look at the flag an earlier flush set: when a flush fails in a way that
  breaks the connection the rows stay buffered, and flushing the batch again starts a new insert
  on that connection although the old one is still open, a call out of order.
\<close>

theorem broken_batch_retried:
  assumes "ch_batch_flush A b s = (False, b1, s1)" and "\<not> bat_broken b" and "bat_broken b1"
    and "session (bat_client b) (calls s) = SIdle" and "ch_batch_flush A b1 s1 = (ok, b2, s2)"
  shows "bat_pending b1 = bat_pending b \<and> session (bat_client b) (calls s1) = SInsert
    \<and> (\<exists>began t. calls s2 = calls s1 @ CBeginInsert (bat_client b) (bat_statement b) began # t)
    \<and> session (bat_client b) (calls s2) = SWrong"
proof -
  have ne: "bat_pending b \<noteq> []"
    using assms(1) by (auto simp: ch_batch_flush_def)
  from ne show ?thesis
  proof (cases rule: ch_batch_flush_cases [of b A s])
    case (failed broken s')
    with assms(1) have b1: "b1 = b\<lparr>bat_broken := broken\<rparr>" and s': "s' = s1" by simp_all
    with assms(3) have broken: broken by simp
    note send = failed(1) [unfolded s']
    have open_insert: "session (bat_client b) (calls s1) = SInsert"
      by (rule ch_send_block_left_open [OF send assms(4)]) (use broken assms(2) in simp_all)
    let ?r = "ch_send_block A (bat_client b) (bat_statement b) (bat_names b) (bat_pending b) True s1"
    have "calls (snd ?r) = calls s2"
      using assms(5) ne broken by (auto simp: b1 ch_batch_flush_def split: prod.splits bool.splits)
    with ch_send_block_begins [of A "bat_client b" "bat_statement b" "bat_names b" "bat_pending b" True s1]
    obtain began t where t: "calls s2 = calls s1 @ CBeginInsert (bat_client b) (bat_statement b) began # t"
      by auto
    then have "session (bat_client b) (calls s2) = SWrong"
      using open_insert by (simp add: session_append session_wrong)
    with t open_insert b1 show ?thesis by auto
  qed (use assms(1) in simp)
qed

definition ex_reset_api :: "script ch_api" where
  "ex_reset_api =
     ex_api\<lparr>cli_begin_insert := \<lambda>h stmt x. (Inl (connection_error ''reset''), x)\<rparr>"

theorem broken_batch_retried_witness:
  "\<exists>b1 s1. ch_batch_flush ex_reset_api ex_batch ((ex_vm [])\<lparr>calls := ex_opened\<rparr>) = (False, b1, s1)
     \<and> session 7 (calls (snd (snd (ch_batch_flush ex_reset_api b1 s1)))) = SWrong"
proof -
  let ?s = "(ex_vm [])\<lparr>calls := ex_opened\<rparr>"
  obtain s1 where f: "ch_batch_flush ex_reset_api ex_batch ?s = (False, ex_batch\<lparr>bat_broken := True\<rparr>, s1)"
    by (simp add: ch_batch_flush_def ch_send_block_def send_block_body_def ebind_def client_call_def
        ext_call_def ex_reset_api_def ex_batch_def ex_rows_def)
  obtain ok b2 s2 where r: "ch_batch_flush ex_reset_api (ex_batch\<lparr>bat_broken := True\<rparr>) s1 = (ok, b2, s2)"
    by (metis surj_pair)
  from broken_batch_retried [OF f _ _ _ r] f r show ?thesis
    by (simp add: ex_batch_def)
qed

text \<open>
  C14. Over the whole life of a batch, through any sequence of appends and flushes whether they
  fail or not, the pending rows all have a value for every column, the connection is not given
  back before the batch is freed and exactly once then, the pool is told it may reuse the
  connection only if no flush broke it, and in that case the connection is idle.
\<close>

theorem batch_life:
  assumes "batch_run A (ch_batch_start P c h p table columns) s b s'"
    and "session h (calls s) = SIdle" and "conns s' c = Some cl"
  shows "list_all (row_fits b) (hash_values (bat_pending b))
    \<and> releases p c (calls s') = releases p c (calls s)
    \<and> (\<exists>keep t. calls (ch_batch_free A b s') = calls s' @ CRelease p c keep # t
        \<and> releases p c t = 0
        \<and> keep = (\<not> bat_broken b \<and> \<not> cl_broken cl)
        \<and> (keep \<longrightarrow> session h (calls s') = SIdle))"
proof -
  let ?b0 = "ch_batch_start P c h p table columns"
  have b0: "bat_conn ?b0 = c" "bat_client ?b0 = h" "bat_pool ?b0 = p" "\<not> bat_released ?b0"
    by (simp_all add: ch_batch_start_def split: prod.splits)
  from batch_run_invariant [OF assms(1) batch_ok_start, of p c] assms(2) b0
  have inv: "batch_ok b" "same_batch ?b0 b" "releases p c (calls s') = releases p c (calls s)"
    "\<not> bat_broken b \<longrightarrow> session h (calls s') = SIdle"
    by auto
  from inv(2) b0 have b: "bat_conn b = c" "bat_pool b = p" "\<not> bat_released b"
    by (auto simp: same_batch_def)
  from ch_batch_free_release [OF b(3), of s' cl A] assms(3) b obtain t where
    t: "calls (ch_batch_free A b s') = calls s' @ CRelease p c (\<not> bat_broken b \<and> \<not> cl_broken cl) # t"
    "\<forall>x \<in> set t. \<exists>h. x = CDelete h" by auto
  from t(2) have "releases p c t = 0"
    by (intro releases_none) auto
  with t inv show ?thesis by (auto simp: batch_ok_def)
qed

theorem batch_life_witness:
  "calls (ch_batch_free ex_api (ch_batch_start ex_api 0 7 1 ''t'' []) ((ex_vm [])\<lparr>calls := ex_opened\<rparr>))
     = ex_opened @ [CRelease 1 0 True]"
proof -
  let ?s = "(ex_vm [])\<lparr>calls := ex_opened\<rparr>"
  have "\<exists>keep t. calls (ch_batch_free ex_api (ch_batch_start ex_api 0 7 1 ''t'' []) ?s)
      = ex_opened @ CRelease 1 0 keep # t \<and> keep"
    using batch_life [where A = ex_api and P = ex_api and c = 0 and h = 7 and p = 1
        and table = "''t''" and columns = "[]" and s = ?s, OF batch_run.here]
    by (simp add: ex_vm_def ch_batch_start_def split: prod.splits) blast
  then show ?thesis
    by (auto simp: ch_batch_free_def ch_batch_release_def ch_batch_start_def pool_release_def
        ch_pool_before_release_def ch_client_is_broken_def ex_vm_def ext_call_def Let_def
        split: prod.splits if_splits)
qed

text \<open>
  \<open>append\<close> checks the shape of a row when it is buffered: a row with a value for every
  column is added at the end and the count grows by one; anything else throws a
  \<open>\ValueError\<close> and changes neither the buffer nor the connection. A buffered row cannot
  fail a flush by its shape: encoding it is encoding its values, one per column.
\<close>

theorem batch_append_shape:
  "(row_fits b row \<longrightarrow>
      ch_batch_append b row s = (True, b\<lparr>bat_pending := add_next_index (bat_pending b) row\<rparr>, s)
      \<and> (length ts = length (bat_names b) \<longrightarrow>
          (\<exists>cells. row = ZArray cells
            \<and> enc_row E ts row = map_res (\<lambda>(t, v). enc E t v) (zip ts (hash_values cells)))))
    \<and> (\<not> row_fits b row \<longrightarrow> (\<exists>msg. ch_batch_append b row s = (False, b, throw_php ValueError msg s)))"
  using ch_batch_append_fits [of b row s] ch_batch_append_rejects [of b row s] enc_row_fits [of b row ts E]
  by blast

theorem batch_append_shape_witness:
  "fst (ch_batch_append ex_batch (php_list [ZLong 3, ZString ''c'']) (ex_vm [])) \<and>
   \<not> fst (ch_batch_append ex_batch (php_list [ZLong 3]) (ex_vm []))"
proof -
  have "row_fits ex_batch (php_list [ZLong 3, ZString ''c''])"
    "\<not> row_fits ex_batch (php_list [ZLong 3])"
    by (auto simp: row_fits_def ex_batch_def php_list_def add_next_index_def)
  with batch_append_shape [of ex_batch "php_list [ZLong 3, ZString ''c'']" "ex_vm []" "[]" ex_api]
    batch_append_shape [of ex_batch "php_list [ZLong 3]" "ex_vm []" "[]" ex_api]
  show ?thesis by auto
qed

section \<open>Batch and insert\<close>

text \<open>
  C13. A batch is worth an insert: starting one on a usable connection, appending the rows one by
  one, flushing and freeing it is the same as one \<open>ch_client_insert\<close> of all the rows followed by
  the release of the connection. Both succeed or both fail, with the same calls on the library,
  the same exception, and in the end the same state of every connection.
\<close>

theorem batch_equals_insert:
  assumes "conns s c = Some \<lparr>cl_client = h, cl_broken = False\<rparr>"
    and "list_all (row_fits (ch_batch_start A c h p table columns)) (hash_values rows)" and "rows \<noteq> []"
    and "append_all (ch_batch_start A c h p table columns) (hash_values rows) s = (b, s0)"
  shows "\<exists>ok b' s1 s2. ch_batch_flush A b s0 = (ok, b', s2)
    \<and> ch_client_insert A c table columns rows s = (ok, s1)
    \<and> calls s1 = calls s2 \<and> eg_exception s1 = eg_exception s2 \<and> ext s1 = ext s2
    \<and> bat_pending b' = (if ok then [] else bat_pending b)
    \<and> ch_batch_free A b' s2 = pool_release A p c s1"
proof -
  obtain statement names ok broken s1 where
    send: "ch_send_block A h statement names rows False s = ((ok, broken), s1)"
    and ins: "ch_client_insert A c table columns rows s
       = (ok, s1\<lparr>conns := (conns s1)(c \<mapsto> \<lparr>cl_client = h, cl_broken = broken\<rparr>)\<rparr>)"
    and fl: "ch_batch_flush A b s0
       = (ok, b\<lparr>bat_broken := broken, bat_pending := (if ok then [] else bat_pending b)\<rparr>, s1)"
    by (rule flush_as_send [OF assms(1) refl assms(2-4)])
  have "b = (ch_batch_start A c h p table columns)\<lparr>bat_pending := bat_pending b\<rparr>"
    using append_all_fits [OF assms(2), of s] assms(4) by auto
  then have b: "bat_conn b = c" "bat_pool b = p" "\<not> bat_released b"
    by (metis ch_batch_start_sel)+
  have "conns s1 c = Some \<lparr>cl_client = h, cl_broken = False\<rparr>"
    using ch_send_block_conns [OF send] assms(1) by simp
  from flush_free_as_insert [OF this, of
      "b\<lparr>bat_broken := broken, bat_pending := (if ok then [] else bat_pending b)\<rparr>" p A] b ins fl
  show ?thesis by simp
qed

lemma ex_names: "hash_values [(KLong 0, ZString ''id''), (KLong 1, ZString ''name'')]
    = [ZString ''id'', ZString ''name'']"
  by (simp add: hash_values_def)

theorem batch_equals_insert_witness:
  "\<exists>b. append_all (ch_batch_start ex_api 0 7 1 ''t'' [(KLong 0, ZString ''id''), (KLong 1, ZString ''name'')])
       (hash_values ex_rows) (ex_vm []) = (b, ex_vm [])
     \<and> (\<exists>ok b' s1 s2. ch_batch_flush ex_api b (ex_vm []) = (ok, b', s2)
          \<and> ch_batch_free ex_api b' s2 = pool_release ex_api 1 0 s1
          \<and> ch_client_insert ex_api 0 ''t'' [(KLong 0, ZString ''id''), (KLong 1, ZString ''name'')]
              ex_rows (ex_vm []) = (ok, s1))"
proof -
  let ?b0 = "ch_batch_start ex_api 0 7 1 ''t'' [(KLong 0, ZString ''id''), (KLong 1, ZString ''name'')]"
  have "length (bat_names ?b0) = 2"
    by (simp add: ch_batch_start_def ch_build_insert_statement_def hash_values_def
        append_field_def case_prod_beta)
  then have "list_all (row_fits ?b0) (hash_values ex_rows)"
    by (simp add: row_fits_def ex_rows_def hash_values_def php_list_def add_next_index_def)
  moreover have "conns (ex_vm []) 0 = Some \<lparr>cl_client = 7, cl_broken = False\<rparr>"
    and "ex_rows \<noteq> []"
    by (simp_all add: ex_vm_def ex_rows_def)
  ultimately show ?thesis
    using batch_equals_insert [OF _ _ _ append_all_fits] append_all_fits by metis
qed

end
