(* ===== verification/Ch_Coroutine.thy ===== *)
theory Ch_Coroutine
  imports Ch_World
begin

text \<open>
  The operations that wait, as machines that stop at every call of the library: a coroutine is
  suspended in such a call, and other coroutines run before it goes on. Each machine, run without
  interruption, is the function of the same operation.
\<close>

section \<open>Machines that wait\<close>

text \<open>One step runs from one suspension to the next: the call that was waited for returns, and the
  code goes on up to the next call or to its end.\<close>

datatype ('a, 'b) progress = Waits 'a | Done 'b

text \<open>A machine that is never interrupted.\<close>

inductive alone ::
    "('a \<Rightarrow> 's \<Rightarrow> ('a, 'b) progress \<times> 's) \<Rightarrow> 'a \<Rightarrow> 's \<Rightarrow> 'b \<Rightarrow> 's \<Rightarrow> bool" for f where
  last: "f x s = (Done y, s') \<Longrightarrow> alone f x s y s'"
| more: "f x s = (Waits x1, s1) \<Longrightarrow> alone f x1 s1 y s' \<Longrightarrow> alone f x s y s'"

lemma alone_unique: "alone f x s y s' \<Longrightarrow> alone f x s z s'' \<Longrightarrow> z = y \<and> s'' = s'"
proof (induction rule: alone.induct)
  case (last x s y s')
  from last(2,1) show ?case by cases simp_all
next
  case (more x s x1 s1 y s')
  from more(4,1) have "alone f x1 s1 z s''" by cases simp_all
  then show ?case by (rule more(3))
qed

section \<open>Sending a block\<close>

text \<open>Where \<open>ch_send_block\<close> waits: in \<open>BeginInsert\<close>, in \<open>SendInsertBlock\<close>, in \<open>EndInsert\<close> at
  the end of the \<open>try\<close> block, and in the \<open>EndInsert\<close> that closes a failed insert.\<close>

datatype send_point = SpBegin | SpSend "block_column list" | SpEnd | SpClose cxx_exn

definition send_failed ::
    "cxx_exn \<Rightarrow> 'w vm \<Rightarrow> (send_point, bool \<times> bool) progress \<times> 'w vm" where
  "send_failed e s =
     (if ch_exception_poisons_connection e then (Done (False, True), throw_cxx e s)
      else (Waits (SpClose e), s))"

fun send_step ::
    "'w ch_api \<Rightarrow> nat \<Rightarrow> string \<Rightarrow> string list \<Rightarrow> zval list \<Rightarrow> bool \<Rightarrow> send_point \<Rightarrow> 'w vm
      \<Rightarrow> (send_point, bool \<times> bool) progress \<times> 'w vm" where
  "send_step A h stmt names rows broken SpBegin s =
     (case begin_insert A h stmt s of
        (Inl e, s1) \<Rightarrow> send_failed e s1
      | (Inr sample, s1) \<Rightarrow>
          (case prepare_block A (length (calls s1)) names rows sample of
             Inl e \<Rightarrow> send_failed e s1
           | Inr blk \<Rightarrow> (Waits (SpSend blk), s1)))"
| "send_step A h stmt names rows broken (SpSend blk) s =
     (case send_insert_block A h blk s of
        (Inl e, s1) \<Rightarrow> send_failed e s1
      | (Inr u, s1) \<Rightarrow> (Waits SpEnd, s1))"
| "send_step A h stmt names rows broken SpEnd s =
     (case end_insert A h s of
        (Inl e, s1) \<Rightarrow> send_failed e s1
      | (Inr u, s1) \<Rightarrow> (Done (True, broken), s1))"
| "send_step A h stmt names rows broken (SpClose e) s =
     (case end_insert A h s of
        (Inl e', s1) \<Rightarrow> (Done (False, True), throw_cxx e s1)
      | (Inr u, s1) \<Rightarrow> (Done (False, broken), throw_cxx e s1))"

lemma send_step_conns:
  assumes "send_step A h stmt names rows broken pt s = (out, s')"
  shows "conns s' = conns s \<and> next_conn s' = next_conn s"
  using assms
  by (cases pt)
    (auto simp: send_failed_def client_call_def ext_call_def split: prod.splits sum.splits if_splits)

text \<open>The failure path, and the whole machine, give what \<open>ch_send_block\<close> gives.\<close>

lemma send_alone_failed:
  assumes "send_step A h stmt names rows broken x s = send_failed e s1"
    and "(if ch_exception_poisons_connection e then ((False, True), throw_cxx e s1)
          else (case end_insert A h s1 of
                  (Inr _, s2) \<Rightarrow> ((False, broken), throw_cxx e s2)
                | (Inl _, s2) \<Rightarrow> ((False, True), throw_cxx e s2))) = (r, s')"
  shows "alone (send_step A h stmt names rows broken) x s r s'"
proof (cases "ch_exception_poisons_connection e")
  case True
  with assms show ?thesis by (intro alone.last) (simp add: send_failed_def)
next
  case False
  obtain q s2 where q: "end_insert A h s1 = (q, s2)" by (metis surj_pair)
  have "alone (send_step A h stmt names rows broken) (SpClose e) s1 r s'"
    using False q assms(2) by (cases q) (simp_all add: alone.last)
  from alone.more [OF _ this] False assms(1) show ?thesis by (simp add: send_failed_def)
qed

lemma send_alone_run:
  assumes "ch_send_block A h stmt names rows broken s = (r, s')"
  shows "alone (send_step A h stmt names (hash_values rows) broken) SpBegin s r s'"
    (is "alone ?f _ _ _ _")
proof -
  obtain b s1 where b: "begin_insert A h stmt s = (b, s1)" by (metis surj_pair)
  show ?thesis
  proof (cases b)
    case (Inl e)
    with b assms show ?thesis
      by (intro send_alone_failed [of A h stmt names "hash_values rows" broken SpBegin s e s1])
        (auto simp: ch_send_block_def send_block_body_def)
  next
    case (Inr sample)
    note b = b [unfolded Inr]
    show ?thesis
    proof (cases "prepare_block A (length (calls s1)) names (hash_values rows) sample")
      case (Inl e)
      with b assms show ?thesis
        by (intro send_alone_failed [of A h stmt names "hash_values rows" broken SpBegin s e s1])
          (auto simp: ch_send_block_def send_block_body_def)
    next
      case (Inr blk)
      note p = this
      obtain x s2 where x: "send_insert_block A h blk s1 = (x, s2)" by (metis surj_pair)
      have "alone ?f (SpSend blk) s1 r s'"
      proof (cases x)
        case (Inl e)
        with b p x assms show ?thesis
          by (intro send_alone_failed [of A h stmt names "hash_values rows" broken "SpSend blk" s1 e s2])
            (auto simp: ch_send_block_def send_block_body_def)
      next
        case (Inr u)
        obtain y s3 where y: "end_insert A h s2 = (y, s3)" by (metis surj_pair)
        have "alone ?f SpEnd s2 r s'"
        proof (cases y)
          case (Inl e)
          with b p x y \<open>x = Inr u\<close> assms show ?thesis
            by (intro send_alone_failed [of A h stmt names "hash_values rows" broken SpEnd s2 e s3])
              (simp_all add: ch_send_block_def send_block_body_def)
        next
          case (Inr v)
          with b p x y \<open>x = Inr u\<close> assms show ?thesis
            by (intro alone.last) (simp add: ch_send_block_def send_block_body_def)
        qed
        from alone.more [OF _ this] x Inr show ?thesis by simp
      qed
      from alone.more [OF _ this] b p show ?thesis by simp
    qed
  qed
qed

lemma send_alone:
  "alone (send_step A h stmt names (hash_values rows) broken) SpBegin s r s'
    \<longleftrightarrow> ch_send_block A h stmt names rows broken s = (r, s')"
proof
  assume run: "alone (send_step A h stmt names (hash_values rows) broken) SpBegin s r s'"
  obtain r1 s1 where c: "ch_send_block A h stmt names rows broken s = (r1, s1)" by (metis surj_pair)
  from alone_unique [OF run send_alone_run [OF c]] c
  show "ch_send_block A h stmt names rows broken s = (r, s')" by simp
qed (rule send_alone_run)

section \<open>Pulling blocks\<close>

text \<open>One iteration of the loop of \<open>ch_result_next\<close>, and one of the priming loop.\<close>

definition pull_step ::
    "'w ch_api \<Rightarrow> ch_result \<Rightarrow> 'w vm \<Rightarrow> (ch_result, zval option \<times> ch_result) progress \<times> 'w vm" where
  "pull_step A r s =
     (if res_row r < res_rows r then
        (case read_row A (res_keys r) (res_cols r) (res_row r) of
           Inl e \<Rightarrow> (case result_failed A e r s of (r1, s1) \<Rightarrow> (Done (None, r1), s1))
         | Inr ht \<Rightarrow> (Done (Some (ZArray ht), r\<lparr>res_row := Suc (res_row r)\<rparr>), s))
      else if res_done r then (Done (None, r), s)
      else
        (case next_block A r s of
           (Inl e, r1, s1) \<Rightarrow> (case result_failed A e r1 s1 of (r2, s2) \<Rightarrow> (Done (None, r2), s2))
         | (Inr None, r1, s1) \<Rightarrow> (case ch_result_finish A r1 s1 of (r2, s2) \<Rightarrow> (Done (None, r2), s2))
         | (Inr (Some b), r1, s1) \<Rightarrow> (Waits (ch_result_load_block b r1), s1)))"

definition prime_step ::
    "'w ch_api \<Rightarrow> ch_result \<Rightarrow> 'w vm
      \<Rightarrow> (ch_result, (cxx_exn + unit) \<times> ch_result) progress \<times> 'w vm" where
  "prime_step A r s =
     (case next_block A r s of
        (Inl e, r1, s1) \<Rightarrow> (Done (Inl e, r1), s1)
      | (Inr None, r1, s1) \<Rightarrow> (case ch_result_finish A r1 s1 of (r2, s2) \<Rightarrow> (Done (Inr (), r2), s2))
      | (Inr (Some b), r1, s1) \<Rightarrow>
          if 0 < blk_rows b then (Done (Inr (), ch_result_load_block b r1), s1) else (Waits r1, s1))"

lemma pull_alone_next: "alone (pull_step A) r s out s' \<Longrightarrow> ch_result_next A r s = Some (fst out, snd out, s')"
proof (induction rule: alone.induct)
  case (last r s y s')
  then show ?case
    by (subst ch_result_next.simps)
      (auto simp: pull_step_def split: if_splits sum.splits prod.splits option.splits)
next
  case (more r s r1 s1 y s')
  then show ?case
    by (subst ch_result_next.simps)
      (auto simp: pull_step_def split: if_splits sum.splits prod.splits option.splits)
qed

lemma pull_alone:
  "alone (pull_step A) r s (out, r') s' \<longleftrightarrow> ch_result_next A r s = Some (out, r', s')"
proof
  assume "ch_result_next A r s = Some (out, r', s')"
  then show "alone (pull_step A) r s (out, r') s'"
    by (induction rule: ch_result_next_induct) (auto simp: pull_step_def intro: alone.intros)
qed (use pull_alone_next [of A r s "(out, r')" s'] in simp)

lemma prime_alone_loop: "alone (prime_step A) r s out s' \<Longrightarrow> prime_loop A r s = Some (fst out, snd out, s')"
proof (induction rule: alone.induct)
  case (last r s y s')
  then show ?case
    by (subst prime_loop.simps)
      (auto simp: prime_step_def split: if_splits sum.splits prod.splits option.splits)
next
  case (more r s r1 s1 y s')
  then show ?case
    by (subst prime_loop.simps)
      (auto simp: prime_step_def split: if_splits sum.splits prod.splits option.splits)
qed

lemma prime_alone:
  "alone (prime_step A) r s (out, r') s' \<longleftrightarrow> prime_loop A r s = Some (out, r', s')"
proof
  assume "prime_loop A r s = Some (out, r', s')"
  then show "alone (prime_step A) r s (out, r') s'"
    by (induction rule: prime_loop_induct) (auto simp: prime_step_def intro: alone.intros)
qed (use prime_alone_loop [of A r s "(out, r')" s'] in simp)

section \<open>A flush\<close>

text \<open>One step of \<open>ch_batch_flush\<close>. The batch is shared: what it buffers is read when the block is
  built, and dropped when the insert is through, whatever it holds then.\<close>

definition flush_step ::
    "'w ch_api \<Rightarrow> ch_batch \<Rightarrow> send_point \<Rightarrow> 'w vm \<Rightarrow> (send_point, bool) progress \<times> ch_batch \<times> 'w vm" where
  "flush_step A b pt s =
     (case send_step A (bat_client b) (bat_statement b) (bat_names b) (hash_values (bat_pending b))
             (bat_broken b) pt s of
        (Waits pt1, s1) \<Rightarrow> (Waits pt1, b, s1)
      | (Done (True, broken), s1) \<Rightarrow> (Done True, b\<lparr>bat_broken := broken, bat_pending := []\<rparr>, s1)
      | (Done (False, broken), s1) \<Rightarrow> (Done False, b\<lparr>bat_broken := broken\<rparr>, s1))"

section \<open>Methods in progress\<close>

datatype request =
    RQuery string "hash_table option" "hash_table option"
  | RInsert string hash_table hash_table
  | RBatch string hash_table

text \<open>What the methods of a Result do with a row that was pulled.\<close>

datatype pull_use = UFetch | UFetchAll "zval list" | UFetchOne | UAdvance

text \<open>
  A coroutine inside a method: in front of the pool; waiting for a connection of the pool, or for
  the factory to open one; in \<open>BeginExecute\<close>, in \<open>NextBlock\<close> of a query that is being primed, in
  \<open>ch_send_block\<close> of \<open>Client::insert\<close>; pulling a Result; flushing a Batch. The object whose
  method runs belongs to the coroutine until the method returns.
\<close>

datatype coroutine =
    CoEnter request
  | CoWait request nat
  | CoConnect request nat client_config
  | CoBegin ch_result query
  | CoPrime ch_result
  | CoInsert nat nat nat string "string list" "zval list" send_point
  | CoPull pull_use result_object ch_result
  | CoFlush batch_object ch_batch send_point

text \<open>What a method hands to PHP code when it returns.\<close>

datatype returned =
    RetNone
  | RetResult result_object
  | RetBatch batch_object
  | RetPulled zval result_object
  | RetFlushed batch_object

abbreviation start_query :: "'w ch_api \<Rightarrow> string \<Rightarrow> hash_table option \<Rightarrow> hash_table option \<Rightarrow> query" where
  "start_query A sql params options \<equiv>
     ch_apply_params_settings A \<lparr>q_text = c_str sql, q_params = [], q_settings = []\<rparr> params
       (query_settings options)"

text \<open>The method goes on with the connection \<open>c\<close> of the pool \<open>p\<close>.\<close>

definition co_connected ::
    "'w ch_api \<Rightarrow> request \<Rightarrow> nat \<Rightarrow> nat \<Rightarrow> 'w app \<Rightarrow> (coroutine, returned) progress \<times> 'w app" where
  "co_connected A req p c a =
     (case conns (app_vm a) c of
        None \<Rightarrow> (Done RetNone, a)
      | Some cl \<Rightarrow>
          (case req of
             RQuery sql params options \<Rightarrow>
               (Waits (CoBegin (new_result A c (cl_client cl) p (app_vm a))
                         (start_query A sql params options)), a)
           | RInsert table columns rows \<Rightarrow>
               (case ch_build_insert_statement A table columns of
                  (statement, names) \<Rightarrow>
                    (Waits (CoInsert c (cl_client cl) p statement names (hash_values rows) SpBegin), a))
           | RBatch table columns \<Rightarrow>
               (Done (RetBatch (ch_batch_object_create
                  \<lparr>bo_batch := Some (ch_batch_start A c (cl_client cl) p table columns), bo_client := True\<rparr>)),
                a\<lparr>app_refs := app_refs a + 1\<rparr>)))"

definition co_primed ::
    "'w ch_api \<Rightarrow> (cxx_exn + unit) \<Rightarrow> ch_result \<Rightarrow> 'w app \<Rightarrow> (coroutine, returned) progress \<times> 'w app" where
  "co_primed A res r a =
     (case res of
        Inl e \<Rightarrow> (Done RetNone, a\<lparr>app_vm := snd (result_failed A e r (app_vm a))\<rparr>)
      | Inr u \<Rightarrow>
          (Done (RetResult (ch_result_object_create\<lparr>ro_result := Some r, ro_client := True\<rparr>)),
           a\<lparr>app_refs := app_refs a + 1\<rparr>))"

fun co_pulled :: "pull_use \<Rightarrow> zval option \<Rightarrow> result_object \<Rightarrow> ch_result \<Rightarrow> (coroutine, returned) progress" where
  "co_pulled UFetch row obj r =
     Done (RetPulled (case row of Some v \<Rightarrow> v | None \<Rightarrow> ZNull) (obj\<lparr>ro_result := Some r\<rparr>))"
| "co_pulled (UFetchAll rows) row obj r =
     (case row of
        Some v \<Rightarrow> Waits (CoPull (UFetchAll (rows @ [v])) obj r)
      | None \<Rightarrow> Done (RetPulled (php_list rows) (obj\<lparr>ro_result := Some r\<rparr>)))"
| "co_pulled UFetchOne row obj r =
     Done (RetPulled (case row of Some (ZArray ht) \<Rightarrow> first_value ht | _ \<Rightarrow> ZNull) (obj\<lparr>ro_result := Some r\<rparr>))"
| "co_pulled UAdvance row obj r =
     Done (RetPulled ZNull
       (case row of
          Some v \<Rightarrow> obj\<lparr>ro_result := Some r, ro_current := Some v, ro_valid := True, ro_pos := ro_pos obj + 1\<rparr>
        | None \<Rightarrow> obj\<lparr>ro_result := Some r, ro_valid := False\<rparr>))"

text \<open>One step of a coroutine, from the return of the call it waits for to the next call.\<close>

fun co_step :: "'w ch_api \<Rightarrow> coroutine \<Rightarrow> 'w app \<Rightarrow> (coroutine, returned) progress \<times> 'w app" where
  "co_step A (CoEnter req) a =
     (case ch_pool_ensure A (app_client a) (app_vm a) of
        (ok, obj1, s1) \<Rightarrow>
          (case obj_pool obj1 of
             Some p \<Rightarrow> (if ok then Waits (CoWait req p) else Done RetNone, a\<lparr>app_client := obj1, app_vm := s1\<rparr>)
           | None \<Rightarrow> (Done RetNone, a\<lparr>app_client := obj1, app_vm := s1\<rparr>)))"
| "co_step A (CoWait req p) a =
     (case ext_call (abi_acquire A p ch_pool_accept) (app_vm a) of
        (AcqIdle c, s1) \<Rightarrow> co_connected A req p c (a\<lparr>app_vm := log_call (CAcquire p (Some c)) s1\<rparr>)
      | (AcqNew, s1) \<Rightarrow>
          (case choose_start A (app_client a) s1 of
             (start, obj1, s2) \<Rightarrow>
               (Waits (CoConnect req p (connection_config obj1 start)), a\<lparr>app_client := obj1, app_vm := s2\<rparr>))
      | (AcqFail, s1) \<Rightarrow> (Done RetNone, a\<lparr>app_vm := log_call (CAcquire p None) s1\<rparr>))"
| "co_step A (CoConnect req p cfg) a =
     (case ch_client_connect A cfg (app_vm a) of
        (Some c, s1) \<Rightarrow> co_connected A req p c (a\<lparr>app_vm := log_call (CAcquire p (Some c)) s1\<rparr>)
      | (None, s1) \<Rightarrow> (Done RetNone, a\<lparr>app_vm := log_call (CAcquire p None) s1\<rparr>))"
| "co_step A (CoBegin r q) a =
     (case begin_execute A q r (app_vm a) of
        (Inl e, r1, s1) \<Rightarrow> (Done RetNone, a\<lparr>app_vm := snd (result_failed A e r1 s1)\<rparr>)
      | (Inr u, r1, s1) \<Rightarrow> (Waits (CoPrime r1), a\<lparr>app_vm := s1\<rparr>))"
| "co_step A (CoPrime r) a =
     (case prime_step A r (app_vm a) of
        (Waits r1, s1) \<Rightarrow> (Waits (CoPrime r1), a\<lparr>app_vm := s1\<rparr>)
      | (Done (res, r1), s1) \<Rightarrow> co_primed A res r1 (a\<lparr>app_vm := s1\<rparr>))"
| "co_step A (CoInsert c h p stmt names rows pt) a =
     (case send_step A h stmt names rows (ch_client_is_broken c (app_vm a)) pt (app_vm a) of
        (Waits pt1, s1) \<Rightarrow> (Waits (CoInsert c h p stmt names rows pt1), a\<lparr>app_vm := s1\<rparr>)
      | (Done (ok, broken), s1) \<Rightarrow>
          (Done RetNone,
           a\<lparr>app_vm := pool_release A p c
               (s1\<lparr>conns := (conns s1)(c := map_option (\<lambda>cl. cl\<lparr>cl_broken := broken\<rparr>) (conns s1 c))\<rparr>)\<rparr>))"
| "co_step A (CoPull use obj r) a =
     (case pull_step A r (app_vm a) of
        (Waits r1, s1) \<Rightarrow> (Waits (CoPull use obj r1), a\<lparr>app_vm := s1\<rparr>)
      | (Done (row, r1), s1) \<Rightarrow> (co_pulled use row obj r1, a\<lparr>app_vm := s1\<rparr>))"
| "co_step A (CoFlush obj b pt) a =
     (case flush_step A b pt (app_vm a) of
        (Waits pt1, b1, s1) \<Rightarrow> (Waits (CoFlush obj b1 pt1), a\<lparr>app_vm := s1\<rparr>)
      | (Done ok, b1, s1) \<Rightarrow> (Done (RetFlushed (obj\<lparr>bo_batch := Some b1\<rparr>)), a\<lparr>app_vm := s1\<rparr>))"

end
