(* ===== verification/Ch_Scene.thy ===== *)
theory Ch_Scene
  imports Ch_Coroutine
begin

text \<open>
  Many coroutines in one application: PHP code starts methods on the Client and on the objects it
  holds, each of them stops where it waits, and the ones that can go on do so in any order. A method
  that runs without interruption is one step of \<open>world_step\<close>.
\<close>

section \<open>Scenes\<close>

text \<open>\<open>sc_world\<close> has the objects no method of which is running.\<close>

record 'w scene =
  sc_world :: "'w world"
  sc_running :: "coroutine list"

text \<open>How a method of a Result that has a handle begins.\<close>

inductive enters :: "result_object \<Rightarrow> pull_use \<Rightarrow> result_object \<Rightarrow> bool" where
  fetch: "enters obj UFetch obj"
| fetchAll: "enters obj (UFetchAll []) obj"
| fetchOne: "enters obj UFetchOne obj"
| rewind: "\<not> ro_started obj \<Longrightarrow> enters obj UAdvance (obj\<lparr>ro_started := True, ro_current := None\<rparr>)"
| "next": "enters obj UAdvance (obj\<lparr>ro_current := None\<rparr>)"

text \<open>The steps of PHP code that do not wait.\<close>

inductive prompt_step :: "'w ch_api \<Rightarrow> 'w world \<Rightarrow> 'w world \<Rightarrow> bool" for A w where
  get_pool: "w_user w \<Longrightarrow> client_getPool A (w_app w) = (p, a) \<Longrightarrow> prompt_step A w (w\<lparr>w_app := a\<rparr>)"
| new_result: "prompt_step A w (w\<lparr>w_results := w_results w @ [ch_result_object_create]\<rparr>)"
| new_batch: "prompt_step A w (w\<lparr>w_batches := w_batches w @ [ch_batch_object_create]\<rparr>)"
| result_call: "w_results w = xs @ obj # ys \<Longrightarrow> ro_result obj = None \<Longrightarrow>
    result_method A obj (app_vm (w_app w)) obj' s \<Longrightarrow>
    prompt_step A w (w\<lparr>w_app := (w_app w)\<lparr>app_vm := s\<rparr>, w_results := xs @ obj' # ys\<rparr>)"
| batch_call: "w_batches w = bs @ bobj # cs \<Longrightarrow>
    batch_method A bobj (app_vm (w_app w)) bobj' s \<Longrightarrow>
    (\<And>b. bo_batch bobj = Some b \<Longrightarrow> batch_flush A bobj (app_vm (w_app w)) = (bobj', s) \<Longrightarrow>
       bat_pending b = []) \<Longrightarrow>
    prompt_step A w (w\<lparr>w_app := (w_app w)\<lparr>app_vm := s\<rparr>, w_batches := bs @ bobj' # cs\<rparr>)"
| free_result: "w_results w = xs @ obj # ys \<Longrightarrow>
    prompt_step A w (w\<lparr>w_app := ch_result_object_free A obj (w_app w), w_results := xs @ ys\<rparr>)"
| free_batch: "w_batches w = bs @ bobj # cs \<Longrightarrow>
    prompt_step A w (w\<lparr>w_app := ch_batch_object_free A bobj (w_app w), w_batches := bs @ cs\<rparr>)"
| drop_client: "w_user w \<Longrightarrow>
    prompt_step A w (w\<lparr>w_app := obj_release A (w_app w), w_user := False\<rparr>)"

text \<open>
  A method that returns: what it hands to PHP code joins the objects of the world (in any place),
  and a method of the Client drops the reference its call held.
\<close>

inductive hands_over :: "'w ch_api \<Rightarrow> returned \<Rightarrow> 'w world \<Rightarrow> 'w world \<Rightarrow> bool" for A where
  none: "hands_over A RetNone w (w\<lparr>w_app := obj_release A (w_app w)\<rparr>)"
| result: "hands_over A (RetResult obj) w
    (w\<lparr>w_app := obj_release A (w_app w), w_results := w_results w @ [obj]\<rparr>)"
| batch: "hands_over A (RetBatch bobj) w
    (w\<lparr>w_app := obj_release A (w_app w), w_batches := w_batches w @ [bobj]\<rparr>)"
| pulled: "w_results w = xs @ ys \<Longrightarrow>
    hands_over A (RetPulled v obj) w (w\<lparr>w_results := xs @ obj # ys\<rparr>)"
| flushed: "w_batches w = bs @ cs \<Longrightarrow>
    hands_over A (RetFlushed bobj) w (w\<lparr>w_batches := bs @ bobj # cs\<rparr>)"

abbreviation add_ref :: "'w world \<Rightarrow> 'w world" where
  "add_ref w \<equiv> w\<lparr>w_app := (w_app w)\<lparr>app_refs := app_refs (w_app w) + 1\<rparr>\<rparr>"

text \<open>
  One step of the scene: PHP code does something that does not wait, or starts a method that may;
  a suspended coroutine goes on, and waits again or returns; or coroutines that have nothing to do
  with this Client run, which changes the outside state and the exception that is pending.
\<close>

inductive scene_step :: "'w ch_api \<Rightarrow> 'w scene \<Rightarrow> 'w scene \<Rightarrow> bool" for A sc where
  prompt: "prompt_step A (sc_world sc) w' \<Longrightarrow> scene_step A sc (sc\<lparr>sc_world := w'\<rparr>)"
| call: "w_user (sc_world sc) \<Longrightarrow>
    scene_step A sc \<lparr>sc_world = add_ref (sc_world sc), sc_running = sc_running sc @ [CoEnter req]\<rparr>"
| pull: "w_results (sc_world sc) = xs @ obj # ys \<Longrightarrow> ro_result obj = Some r \<Longrightarrow> enters obj use obj' \<Longrightarrow>
    scene_step A sc \<lparr>sc_world = (sc_world sc)\<lparr>w_results := xs @ ys\<rparr>,
      sc_running = sc_running sc @ [CoPull use obj' r]\<rparr>"
| flush: "w_batches (sc_world sc) = bs @ bobj # cs \<Longrightarrow> bo_batch bobj = Some b \<Longrightarrow> bat_pending b \<noteq> [] \<Longrightarrow>
    scene_step A sc \<lparr>sc_world = (sc_world sc)\<lparr>w_batches := bs @ cs\<rparr>,
      sc_running = sc_running sc @ [CoFlush bobj b SpBegin]\<rparr>"
| goes_on: "sc_running sc = us @ co # vs \<Longrightarrow> co_step A co (w_app (sc_world sc)) = (Waits co', a) \<Longrightarrow>
    scene_step A sc \<lparr>sc_world = (sc_world sc)\<lparr>w_app := a\<rparr>, sc_running = us @ co' # vs\<rparr>"
| returns: "sc_running sc = us @ co # vs \<Longrightarrow> co_step A co (w_app (sc_world sc)) = (Done ret, a) \<Longrightarrow>
    hands_over A ret ((sc_world sc)\<lparr>w_app := a\<rparr>) w' \<Longrightarrow>
    scene_step A sc \<lparr>sc_world = w', sc_running = us @ vs\<rparr>"
| others: "scene_step A sc (sc\<lparr>sc_world := (sc_world sc)\<lparr>w_app := (w_app (sc_world sc))
      \<lparr>app_vm := (app_vm (w_app (sc_world sc)))\<lparr>eg_exception := e, ext := x\<rparr>\<rparr>\<rparr>\<rparr>)"

inductive scene_run :: "'w ch_api \<Rightarrow> 'w scene \<Rightarrow> 'w scene \<Rightarrow> bool" for A sc where
  start: "scene_run A sc sc"
| step: "scene_run A sc sc1 \<Longrightarrow> scene_step A sc1 sc2 \<Longrightarrow> scene_run A sc sc2"

lemma scene_run_trans: "scene_run A sc1 sc2 \<Longrightarrow> scene_run A sc sc1 \<Longrightarrow> scene_run A sc sc2"
  by (induction rule: scene_run.induct) (auto intro: scene_run.step)

lemma scene_run_one: "scene_step A sc sc' \<Longrightarrow> scene_run A sc sc'"
  by (rule scene_run.step [OF scene_run.start])

section \<open>One coroutine at a time\<close>

text \<open>A coroutine that runs to its end without interruption, in front of the others.\<close>

definition scene_of :: "'w world \<Rightarrow> coroutine list \<Rightarrow> 'w scene" where
  "scene_of w cos = \<lparr>sc_world = w, sc_running = cos\<rparr>"

lemma scene_of_sel [simp]: "sc_world (scene_of w cos) = w" "sc_running (scene_of w cos) = cos"
  by (simp_all add: scene_of_def)

lemma scene_alone:
  assumes "alone (co_step A) co (w_app w) ret a" and "hands_over A ret (w\<lparr>w_app := a\<rparr>) w'"
  shows "scene_run A (scene_of w (cos @ [co])) (scene_of w' cos)"
  using assms
proof (induction co "w_app w" ret a arbitrary: w rule: alone.induct)
  case (last co ret a)
  from scene_step.returns [of "scene_of w (cos @ [co])" cos co "[]" A ret a w'] last
  show ?case by (simp add: scene_of_def scene_run_one)
next
  case (more co co1 a1 ret a)
  have "scene_step A (scene_of w (cos @ [co])) (scene_of (w\<lparr>w_app := a1\<rparr>) (cos @ [co1]))"
    using scene_step.goes_on [of "scene_of w (cos @ [co])" cos co "[]" A co1 a1] more
    by (simp add: scene_of_def)
  with more(3) [of "w\<lparr>w_app := a1\<rparr>"] more(4) show ?case
    by (auto intro: scene_run_trans scene_run_one)
qed

text \<open>A machine inside a coroutine.\<close>

lemma alone_inside:
  assumes "alone f x s y s'" and "I s"
    and waits: "\<And>x x1 s s1. f x s = (Waits x1, s1) \<Longrightarrow> I s \<Longrightarrow>
      I s1 \<and> co_step A (co x) (a\<lparr>app_vm := s\<rparr>) = (Waits (co x1), a\<lparr>app_vm := s1\<rparr>)"
    and rest: "\<And>x s. f x s = (Done y, s') \<Longrightarrow> I s \<Longrightarrow>
      alone (co_step A) (co x) (a\<lparr>app_vm := s\<rparr>) ret a'"
  shows "alone (co_step A) (co x) (a\<lparr>app_vm := s\<rparr>) ret a'"
  using assms(1,2) rest
proof (induction rule: alone.induct)
  case (more x s x1 s1 y s')
  from alone.more [OF conjunct2 [OF waits [OF more(1,4)]] more(3) [OF _ more(5)]]
    waits [OF more(1,4)] show ?case by simp
qed

section \<open>Client methods alone\<close>

text \<open>\<open>with_ref a\<close>: the call of a method holds a reference to the Client.\<close>

abbreviation with_ref :: "'w app \<Rightarrow> 'w app" where
  "with_ref a \<equiv> a\<lparr>app_refs := app_refs a + 1\<rparr>"

lemma ensure_pool: "ch_pool_ensure A obj s = (ok, obj1, s1) \<Longrightarrow> ok = (obj_pool obj1 \<noteq> None)"
  by (auto dest: ch_pool_ensure_keeps)

lemma app_refs_outside [simp]:
  "a\<lparr>app_refs := n, app_client := obj\<rparr> = a\<lparr>app_client := obj, app_refs := n\<rparr>"
  "a\<lparr>app_refs := n, app_vm := s\<rparr> = a\<lparr>app_vm := s, app_refs := n\<rparr>"
  by simp_all

text \<open>The way to a connection: from the start of the method to the point where it has one.\<close>

lemma connect_alone:
  assumes c: "with_connection A a = (x, a1)"
    and none: "x = None \<Longrightarrow> ret = RetNone \<and> a' = with_ref a1"
    and some: "\<And>c h p. x = Some (c, h, p) \<Longrightarrow>
      (case co_connected A req p c (with_ref a1) of
         (Done r, a2) \<Rightarrow> r = ret \<and> a2 = a'
       | (Waits co, a2) \<Rightarrow> alone (co_step A) co a2 ret a')"
  shows "alone (co_step A) (CoEnter req) (with_ref a) ret a'"
proof -
  obtain ok obj1 s1 where e: "ch_pool_ensure A (app_client a) (app_vm a) = (ok, obj1, s1)"
    by (metis surj_pair)
  note ok = ensure_pool [OF e]
  show ?thesis
  proof (cases "obj_pool obj1")
    case None
    with e ok c have "x = None" "a1 = a\<lparr>app_client := obj1, app_vm := s1\<rparr>"
      by (auto simp: with_connection_def ch_pool_acquire_def Let_def)
    with none e None show ?thesis by (intro alone.last) simp
  next
    case (Some p)
    obtain q s2 where q: "ext_call (abi_acquire A p ch_pool_accept) s1 = (q, s2)"
      by (metis surj_pair)
    let ?a = "(with_ref a)\<lparr>app_client := obj1, app_vm := s1\<rparr>"
    have enter: "co_step A (CoEnter req) (with_ref a) = (Waits (CoWait req p), ?a)"
      using e ok Some by simp
    have goon: "alone (co_step A) co b ret a'"
      if "co_step A co b = co_connected A req p c' (a2\<lparr>app_refs := app_refs a + 1\<rparr>)"
        "with_connection A a
           = (case conns (app_vm a2) c' of None \<Rightarrow> (None, a2) | Some cl \<Rightarrow> (Some (c', cl_client cl, p), a2))"
        "app_refs a2 = app_refs a" for co b c' a2
    proof (cases "conns (app_vm a2) c'")
      case None
      with that c none have "co_step A co b = (Done RetNone, with_ref a1)" "ret = RetNone" "a' = with_ref a1"
        by (simp_all add: co_connected_def)
      then show ?thesis by (intro alone.last) simp
    next
      case (Some cl)
      with that c have "x = Some (c', cl_client cl, p)" "a1 = a2" by simp_all
      with some that show ?thesis
        by (cases "co_connected A req p c' (with_ref a1)"; cases "fst (co_connected A req p c' (with_ref a1))")
          (auto intro: alone.last alone.more)
    qed
    have pool: "obj_pool obj2 = Some p" if "pool_acquire A p obj1 s1 = (c, obj2, s3)" for c obj2 s3
      using that Some
      by (auto simp: pool_acquire_def ch_pool_factory_def choose_start_def Let_def
          split: prod.splits acquired.splits if_splits)
    obtain d obj3 s5 where d: "pool_acquire A p obj1 s1 = (d, obj3, s5)" by (metis surj_pair)
    have w: "with_connection A a = (case d of
        None \<Rightarrow> (None, a\<lparr>app_client := obj3, app_vm := s5\<rparr>)
      | Some c \<Rightarrow>
          (case conns s5 c of
             None \<Rightarrow> (None, a\<lparr>app_client := obj3, app_vm := s5\<rparr>)
           | Some cl \<Rightarrow> (Some (c, cl_client cl, p), a\<lparr>app_client := obj3, app_vm := s5\<rparr>)))"
      using e ok Some d pool [OF d]
      by (simp add: with_connection_def ch_pool_acquire_def Let_def split: option.split)
    have "alone (co_step A) (CoWait req p) ?a ret a'"
    proof (cases q)
      case (AcqIdle c')
      have out: "d = Some c'" "obj3 = obj1" "s5 = log_call (CAcquire p (Some c')) s2"
        using d q AcqIdle by (auto simp: pool_acquire_def)
      from q AcqIdle w show ?thesis
        by (intro goon [of _ _ c' "a\<lparr>app_client := obj3, app_vm := s5\<rparr>"]) (simp_all add: out)
    next
      case AcqFail
      have out: "d = None" "obj3 = obj1" "s5 = log_call (CAcquire p None) s2"
        using d q AcqFail by (auto simp: pool_acquire_def)
      from q AcqFail w c none show ?thesis
        by (intro alone.last) (simp add: out)
    next
      case AcqNew
      obtain start obj2 s3 where ch: "choose_start A obj1 s2 = (start, obj2, s3)"
        by (metis surj_pair)
      let ?cfg = "connection_config obj2 start"
      let ?b = "(with_ref a)\<lparr>app_client := obj2, app_vm := s3\<rparr>"
      obtain s4 where con: "ch_client_connect A ?cfg s3 = (d, s4)"
        and out: "obj3 = obj2" "s5 = log_call (CAcquire p d) s4"
        using d q AcqNew ch by (auto simp: pool_acquire_def ch_pool_factory_def split: prod.splits)
      have "alone (co_step A) (CoConnect req p ?cfg) ?b ret a'"
      proof (cases d)
        case None
        with w c none con show ?thesis
          by (intro alone.last) (simp add: out)
      next
        case (Some c')
        with w con show ?thesis
          by (intro goon [of _ _ c' "a\<lparr>app_client := obj3, app_vm := s5\<rparr>"]) (simp_all add: out)
      qed
      with alone.more [of "co_step A" "CoWait req p" ?a "CoConnect req p ?cfg" ?b] q AcqNew ch
      show ?thesis by simp
    qed
    from alone.more [OF enter this] show ?thesis .
  qed
qed

text \<open>The reference of the call is never the last one.\<close>

lemma release_with_ref: "0 < app_refs a \<Longrightarrow> obj_release A (with_ref a) = a"
  by (simp add: obj_release_def)

lemma with_connection_some:
  assumes "with_connection A a = (Some (c, h, p), a1)"
  obtains cl where "conns (app_vm a1) c = Some cl" "cl_client cl = h"
  using assms by (auto simp: with_connection_def Let_def split: prod.splits option.splits)

lemma with_connection_refs: "with_connection A a = (x, a1) \<Longrightarrow> app_refs a1 = app_refs a"
  by (auto simp: with_connection_def Let_def split: prod.splits option.splits)

lemma query_alone:
  assumes q: "client_query A sql params options a = Some (r, a')"
  shows "alone (co_step A) (CoEnter (RQuery sql params options)) (with_ref a)
    (case r of None \<Rightarrow> RetNone | Some obj \<Rightarrow> RetResult obj) (with_ref a')"
proof -
  obtain x a1 where c: "with_connection A a = (x, a1)" by (metis surj_pair)
  show ?thesis
  proof (rule connect_alone [OF c], goal_cases)
    case 1
    with q c show ?case by (simp add: client_query_def)
  next
    case (2 cn h p)
    obtain cl where cl: "conns (app_vm a1) cn = Some cl" "cl_client cl = h"
      using c [unfolded 2] by (rule with_connection_some)
    let ?n = "new_result A cn h p (app_vm a1)" and ?q = "start_query A sql params options"
    let ?ret = "case r of None \<Rightarrow> RetNone | Some obj \<Rightarrow> RetResult obj"
    obtain out s2 where st: "ch_result_start A cn h p sql params (query_settings options) (app_vm a1) = Some (out, s2)"
      using q c 2 by (auto simp: client_query_def split: option.splits)
    obtain res r1 s1 where b: "begin_execute A ?q ?n (app_vm a1) = (res, r1, s1)" by (metis surj_pair)
    have "alone (co_step A) (CoBegin ?n ?q) (with_ref a1) ?ret (with_ref a')"
    proof (cases res)
      case (Inl e)
      with q c 2 st b show ?thesis
        by (intro alone.last) (auto simp: client_query_def ch_result_start_def)
    next
      case (Inr u)
      with st b obtain res2 r2 s3 where l: "prime_loop A r1 s1 = Some (res2, r2, s3)"
        by (auto simp: ch_result_start_def split: option.splits)
      from l have "alone (prime_step A) r1 s1 (res2, r2) s3" by (simp add: prime_alone)
      then have "alone (co_step A) (CoPrime r1) ((with_ref a1)\<lparr>app_vm := s1\<rparr>) ?ret (with_ref a')"
      proof (rule alone_inside [where I = "\<lambda>s. True" and co = CoPrime])
        fix x s assume "prime_step A x s = (Done (res2, r2), s3)"
        with q c 2 st b l Inr
        show "alone (co_step A) (CoPrime x) ((with_ref a1)\<lparr>app_vm := s\<rparr>) ?ret (with_ref a')"
          by (intro alone.last) (cases res2; auto simp: client_query_def ch_result_start_def co_primed_def)
      qed simp_all
      with alone.more [of "co_step A" "CoBegin ?n ?q" "with_ref a1" "CoPrime r1"
          "(with_ref a1)\<lparr>app_vm := s1\<rparr>"] b Inr show ?thesis by simp
    qed
    with cl show ?case by (simp add: co_connected_def)
  qed
qed

lemma insert_alone:
  assumes q: "client_insert A table columns rows a = (ok, a')"
  shows "alone (co_step A) (CoEnter (RInsert table columns rows)) (with_ref a) RetNone (with_ref a')"
proof -
  obtain x a1 where c: "with_connection A a = (x, a1)" by (metis surj_pair)
  obtain stmt names where b: "ch_build_insert_statement A table columns = (stmt, names)"
    by (metis surj_pair)
  show ?thesis
  proof (rule connect_alone [OF c], goal_cases)
    case 1
    with q c show ?case by (simp add: client_insert_def)
  next
    case (2 cn h p)
    obtain cl where cl: "conns (app_vm a1) cn = Some cl" "cl_client cl = h"
      using c [unfolded 2] by (rule with_connection_some)
    obtain ok' broken s1 where
      snd: "ch_send_block A h stmt names rows (cl_broken cl) (app_vm a1) = ((ok', broken), s1)"
      by (metis surj_pair)
    let ?co = "CoInsert cn h p stmt names (hash_values rows)"
    have "alone (co_step A) (?co SpBegin) ((with_ref a1)\<lparr>app_vm := app_vm a1\<rparr>) RetNone (with_ref a')"
    proof (rule alone_inside [OF snd [folded send_alone], where I = "\<lambda>s. conns s = conns (app_vm a1)"])
      fix pt pt1 s s2
      assume "send_step A h stmt names (hash_values rows) (cl_broken cl) pt s = (Waits pt1, s2)"
        "conns s = conns (app_vm a1)"
      with cl send_step_conns [OF this(1)]
      show "conns s2 = conns (app_vm a1) \<and> co_step A (?co pt) ((with_ref a1)\<lparr>app_vm := s\<rparr>)
          = (Waits (?co pt1), (with_ref a1)\<lparr>app_vm := s2\<rparr>)"
        by (simp add: ch_client_is_broken_def)
    next
      fix pt s
      assume f: "send_step A h stmt names (hash_values rows) (cl_broken cl) pt s = (Done (ok', broken), s1)"
        "conns s = conns (app_vm a1)"
      with send_step_conns [OF f(1)] cl have "conns s1 cn = Some cl" by simp
      with f q c 2 b snd cl
      show "alone (co_step A) (?co pt) ((with_ref a1)\<lparr>app_vm := s\<rparr>) RetNone (with_ref a')"
        by (intro alone.last) (auto simp: client_insert_def ch_client_insert_def ch_client_is_broken_def)
    qed simp
    with cl b show ?case by (simp add: co_connected_def)
  qed
qed

lemma insertBatch_alone:
  assumes q: "client_insertBatch A table columns a = (r, a')"
  shows "alone (co_step A) (CoEnter (RBatch table columns)) (with_ref a)
    (case r of None \<Rightarrow> RetNone | Some obj \<Rightarrow> RetBatch obj) (with_ref a')"
proof -
  obtain x a1 where c: "with_connection A a = (x, a1)" by (metis surj_pair)
  show ?thesis
  proof (rule connect_alone [OF c], goal_cases)
    case 1
    with q c show ?case by (simp add: client_insertBatch_def)
  next
    case (2 cn h p)
    obtain cl where "conns (app_vm a1) cn = Some cl" "cl_client cl = h"
      using c [unfolded 2] by (rule with_connection_some)
    with q c 2 show ?case by (auto simp: co_connected_def client_insertBatch_def)
  qed
qed

section \<open>Methods of objects alone\<close>

lemma pull_inside:
  assumes "ch_result_next A r s = Some (row, r', s')"
    and "\<And>s. (case co_pulled use row obj r' of
        Done x \<Rightarrow> x = ret \<and> a\<lparr>app_vm := s'\<rparr> = a'
      | Waits co \<Rightarrow> alone (co_step A) co (a\<lparr>app_vm := s'\<rparr>) ret a')"
  shows "alone (co_step A) (CoPull use obj r) (a\<lparr>app_vm := s\<rparr>) ret a'"
proof (rule alone_inside [OF assms(1) [folded pull_alone], where I = "\<lambda>s. True" and co = "CoPull use obj"])
  fix x s assume p: "pull_step A x s = (Done (row, r'), s')"
  show "alone (co_step A) (CoPull use obj x) (a\<lparr>app_vm := s\<rparr>) ret a'"
  proof (cases "co_pulled use row obj r'")
    case (Waits co)
    with p assms(2) alone.more [of "co_step A" "CoPull use obj x" "a\<lparr>app_vm := s\<rparr>" co "a\<lparr>app_vm := s'\<rparr>"]
    show ?thesis by simp
  next
    case (Done y)
    with p assms(2) show ?thesis by (intro alone.last) simp
  qed
qed simp_all

lemma fetchAll_alone:
  assumes "drain (\<lambda>(r, s). ch_result_next A r s) (r, s) acc = Some (rows, r', s')"
  shows "alone (co_step A) (CoPull (UFetchAll acc) obj r) (a\<lparr>app_vm := s\<rparr>)
    (RetPulled (php_list rows) (obj\<lparr>ro_result := Some r'\<rparr>)) (a\<lparr>app_vm := s'\<rparr>)"
proof -
  have "pull = (\<lambda>(r, s). ch_result_next A r s) \<Longrightarrow>
      alone (co_step A) (CoPull (UFetchAll acc) obj (fst st)) (a\<lparr>app_vm := snd st\<rparr>)
        (RetPulled (php_list (fst y)) (obj\<lparr>ro_result := Some (fst (snd y))\<rparr>)) (a\<lparr>app_vm := snd (snd y)\<rparr>)"
    if "drain pull st acc = Some y" for pull st acc y
    using that
  proof (induction pull st acc y rule: drain.raw_induct [rotated 1, consumes 1, case_names call])
    case (call f pull st acc y)
    note step = call(2) and ih = call(1) and p = call(3)
    obtain r s where st: "st = (r, s)" by (cases st)
    with step p obtain row r1 s1 where n: "ch_result_next A r s = Some (row, r1, s1)"
      by (auto split: option.splits)
    show ?case
    proof (cases row)
      case None
      with step p n st pull_inside [OF n] show ?thesis by auto
    next
      case (Some v)
      with step p n st have "f pull (r1, s1) (acc @ [v]) = Some y" by simp
      from ih [OF this p] pull_inside [OF n] Some st show ?thesis by simp
    qed
  qed
  from this [OF assms] show ?thesis by simp
qed

text \<open>Every method of a Result with a handle is a run of a coroutine, or does nothing.\<close>

lemma result_method_alone:
  assumes "result_method A obj s obj' s'" and r: "ro_result obj = Some r"
  shows "obj' = obj \<and> s' = s \<or>
    (\<exists>use obj0 v. enters obj use obj0 \<and>
       alone (co_step A) (CoPull use obj0 r) (a\<lparr>app_vm := s\<rparr>) (RetPulled v obj') (a\<lparr>app_vm := s'\<rparr>))"
proof -
  have advance: "alone (co_step A) (CoPull UAdvance (o1\<lparr>ro_current := None\<rparr>) r) (a\<lparr>app_vm := s\<rparr>)
      (RetPulled ZNull obj') (a\<lparr>app_vm := s'\<rparr>)"
    if "ch_result_object_advance A o1 s = Some (obj', s')" "ro_result o1 = Some r" for o1
    using that
    by (auto simp: ch_result_object_advance_def pull_row_def split: option.splits intro!: pull_inside)
  have pull: "alone (co_step A) (CoPull use obj r) (a\<lparr>app_vm := s\<rparr>) (RetPulled v obj') (a\<lparr>app_vm := s'\<rparr>)"
    if "pull_row A obj s = Some (row, obj', s')"
      "\<And>r'. co_pulled use row obj r' = Done (RetPulled v (obj\<lparr>ro_result := Some r'\<rparr>))" for use v row
    using that r by (auto simp: pull_row_def split: option.splits intro!: pull_inside)
  from assms(1) show ?thesis
  proof cases
    case (fetch v)
    then obtain row where "pull_row A obj s = Some (row, obj', s')"
      by (auto simp: result_fetch_def split: option.splits)
    from pull [OF this, of UFetch "case row of Some v \<Rightarrow> v | None \<Rightarrow> ZNull"] show ?thesis
      by (auto intro: enters.fetch)
  next
    case (fetchAll v)
    with r obtain rows r' where
      d: "drain (\<lambda>(r, s). ch_result_next A r s) (r, s) [] = Some (rows, r', s')"
      and obj': "obj' = obj\<lparr>ro_result := Some r'\<rparr>"
      by (auto simp: result_fetchAll_def split: option.splits)
    from fetchAll_alone [OF d, of obj a] obj' show ?thesis
      by (auto intro: enters.fetchAll)
  next
    case (fetchOne v)
    then obtain row where "pull_row A obj s = Some (row, obj', s')"
      by (auto simp: result_fetchOne_def split: option.splits zval.splits)
    from pull [OF this, of UFetchOne "case row of Some (ZArray ht) \<Rightarrow> first_value ht | _ \<Rightarrow> ZNull"]
    show ?thesis by (auto intro: enters.fetchOne)
  next
    case rewind
    show ?thesis
    proof (cases "ro_started obj")
      case True
      with rewind show ?thesis by (simp add: result_rewind_def)
    next
      case False
      with rewind r advance [of "obj\<lparr>ro_started := True\<rparr>"] enters.rewind [OF False] show ?thesis
        by (auto simp: result_rewind_def)
    qed
  next
    case "next"
    with r advance [of obj] enters.next [of obj] show ?thesis
      by (auto simp: result_next_def)
  qed
qed

lemma flush_alone:
  assumes f: "batch_flush A bobj s = (bobj', s')" and b: "bo_batch bobj = Some b" "bat_pending b \<noteq> []"
  shows "alone (co_step A) (CoFlush bobj b SpBegin) (a\<lparr>app_vm := s\<rparr>) (RetFlushed bobj') (a\<lparr>app_vm := s'\<rparr>)"
proof -
  obtain ok broken s1 where snd: "ch_send_block A (bat_client b) (bat_statement b) (bat_names b)
      (bat_pending b) (bat_broken b) s = ((ok, broken), s1)"
    by (metis surj_pair)
  have out: "s' = s1" "bobj' = bobj\<lparr>bo_batch := Some (if ok then b\<lparr>bat_broken := broken, bat_pending := []\<rparr>
      else b\<lparr>bat_broken := broken\<rparr>)\<rparr>"
    using f b snd by (auto simp: batch_flush_def ch_batch_this_def ch_batch_flush_def split: prod.splits bool.splits)
  show ?thesis
  proof (rule alone_inside [OF snd [folded send_alone], where I = "\<lambda>s. True" and co = "CoFlush bobj b"])
    fix pt s0 assume "send_step A (bat_client b) (bat_statement b) (bat_names b)
      (hash_values (bat_pending b)) (bat_broken b) pt s0 = (Done (ok, broken), s1)"
    with out show "alone (co_step A) (CoFlush bobj b pt) (a\<lparr>app_vm := s0\<rparr>) (RetFlushed bobj') (a\<lparr>app_vm := s'\<rparr>)"
      by (intro alone.last) (cases ok; simp add: flush_step_def)
  qed (simp_all add: flush_step_def)
qed

section \<open>A step of the application as a run of the scene\<close>

lemma scene_prompt: "prompt_step A w w' \<Longrightarrow> scene_run A (scene_of w cos) (scene_of w' cos)"
  using scene_step.prompt [of A "scene_of w cos" w'] by (simp add: scene_of_def scene_run_one)

lemma scene_call:
  assumes "w_user w" and "alone (co_step A) (CoEnter req) (with_ref (w_app w)) ret (with_ref a')"
    and "hands_over A ret (w\<lparr>w_app := with_ref a'\<rparr>) w'"
  shows "scene_run A (scene_of w cos) (scene_of w' cos)"
proof -
  have "scene_step A (scene_of w cos) (scene_of (add_ref w) (cos @ [CoEnter req]))"
    using scene_step.call [of "scene_of w cos" A req] assms(1) by (simp add: scene_of_def)
  moreover from scene_alone [of A "CoEnter req" "add_ref w" ret "with_ref a'" w' cos] assms(2,3)
  have "scene_run A (scene_of (add_ref w) (cos @ [CoEnter req])) (scene_of w' cos)" by simp
  ultimately show ?thesis by (blast intro: scene_run_trans scene_run_one)
qed

lemma client_refs:
  "client_query A sql params options a = Some (r, a') \<Longrightarrow> app_refs a \<le> app_refs a'"
  "client_insert A table columns rows a = (ok, a') \<Longrightarrow> app_refs a \<le> app_refs a'"
  "client_insertBatch A table columns a = (b, a') \<Longrightarrow> app_refs a \<le> app_refs a'"
  using with_connection_refs [of A a]
  by (auto simp: client_query_def client_insert_def client_insertBatch_def
      split: prod.splits option.splits)

lemma world_step_scene:
  assumes "world_step A w w'" and refs: "w_user w \<Longrightarrow> 0 < app_refs (w_app w)"
  shows "scene_run A (scene_of w cos) (scene_of w' cos)"
  using assms(1)
proof cases
  case (query sql params options r a)
  with refs query(2) client_refs(1) [OF query(3)] have a: "0 < app_refs a" by simp
  have "hands_over A (case r of None \<Rightarrow> RetNone | Some obj \<Rightarrow> RetResult obj) (w\<lparr>w_app := with_ref a\<rparr>) w'"
    using query(1) release_with_ref [OF a, of A]
      hands_over.none [of A "w\<lparr>w_app := with_ref a\<rparr>"]
      hands_over.result [of A _ "w\<lparr>w_app := with_ref a\<rparr>"]
    by (cases r) auto
  with query show ?thesis by (intro scene_call [OF _ query_alone [OF query(3)]]) simp_all
next
  case (insert table columns rows ok a)
  with refs insert(2) client_refs(2) [OF insert(3)] have a: "0 < app_refs a" by simp
  have "hands_over A RetNone (w\<lparr>w_app := with_ref a\<rparr>) w'"
    using insert(1) release_with_ref [OF a, of A]
      hands_over.none [of A "w\<lparr>w_app := with_ref a\<rparr>"] by simp
  with insert show ?thesis by (intro scene_call [OF _ insert_alone [OF insert(3)]]) simp_all
next
  case (insert_batch table columns b a)
  with refs insert_batch(2) client_refs(3) [OF insert_batch(3)] have a: "0 < app_refs a" by simp
  have "hands_over A (case b of None \<Rightarrow> RetNone | Some obj \<Rightarrow> RetBatch obj) (w\<lparr>w_app := with_ref a\<rparr>) w'"
    using insert_batch(1) release_with_ref [OF a, of A]
      hands_over.none [of A "w\<lparr>w_app := with_ref a\<rparr>"]
      hands_over.batch [of A _ "w\<lparr>w_app := with_ref a\<rparr>"]
    by (cases b) auto
  with insert_batch show ?thesis
    by (intro scene_call [OF _ insertBatch_alone [OF insert_batch(3)]]) simp_all
next
  case (result_call xs obj ys obj' s)
  show ?thesis
  proof (cases "ro_result obj")
    case None
    from prompt_step.result_call [OF result_call(2) None result_call(3)] result_call(1)
    show ?thesis by (simp add: scene_prompt)
  next
    case (Some r)
    from result_method_alone [OF result_call(3) Some, of "w_app w"] show ?thesis
    proof (elim disjE exE conjE)
      assume "obj' = obj" "s = app_vm (w_app w)"
      with result_call have "w' = w" by simp
      then show ?thesis by (simp add: scene_run.start)
    next
      fix use obj0 v
      assume e: "enters obj use obj0"
        and run: "alone (co_step A) (CoPull use obj0 r) ((w_app w)\<lparr>app_vm := app_vm (w_app w)\<rparr>)
          (RetPulled v obj') ((w_app w)\<lparr>app_vm := s\<rparr>)"
      let ?w = "w\<lparr>w_results := xs @ ys\<rparr>"
      have "scene_step A (scene_of w cos) (scene_of ?w (cos @ [CoPull use obj0 r]))"
        using scene_step.pull [of "scene_of w cos" xs obj ys r use obj0 A] result_call(2) Some e
        by (simp add: scene_of_def)
      moreover have "hands_over A (RetPulled v obj') (?w\<lparr>w_app := (w_app w)\<lparr>app_vm := s\<rparr>\<rparr>) w'"
        using hands_over.pulled [of "?w\<lparr>w_app := (w_app w)\<lparr>app_vm := s\<rparr>\<rparr>" xs ys A v obj'] result_call(1)
        by simp
      with run have "scene_run A (scene_of ?w (cos @ [CoPull use obj0 r])) (scene_of w' cos)"
        by (intro scene_alone) simp_all
      ultimately show ?thesis by (blast intro: scene_run_trans scene_run_one)
    qed
  qed
next
  case (batch_call bs bobj cs bobj' s)
  show ?thesis
  proof (cases "\<exists>b. bo_batch bobj = Some b \<and> batch_flush A bobj (app_vm (w_app w)) = (bobj', s) \<and> bat_pending b \<noteq> []")
    case False
    with prompt_step.batch_call [OF batch_call(2,3)] batch_call(1) show ?thesis
      by (auto intro!: scene_prompt)
  next
    case True
    then obtain b where b: "bo_batch bobj = Some b" "bat_pending b \<noteq> []"
      and f: "batch_flush A bobj (app_vm (w_app w)) = (bobj', s)" by blast
    let ?w = "w\<lparr>w_batches := bs @ cs\<rparr>"
    have "scene_step A (scene_of w cos) (scene_of ?w (cos @ [CoFlush bobj b SpBegin]))"
      using scene_step.flush [of "scene_of w cos" bs bobj cs b A] batch_call(2) b
      by (simp add: scene_of_def)
    moreover have "hands_over A (RetFlushed bobj') (?w\<lparr>w_app := (w_app w)\<lparr>app_vm := s\<rparr>\<rparr>) w'"
      using hands_over.flushed [of "?w\<lparr>w_app := (w_app w)\<lparr>app_vm := s\<rparr>\<rparr>" bs cs A bobj'] batch_call(1)
      by simp
    with flush_alone [OF f b, of "w_app w"]
    have "scene_run A (scene_of ?w (cos @ [CoFlush bobj b SpBegin])) (scene_of w' cos)"
      by (intro scene_alone) simp_all
    ultimately show ?thesis by (blast intro: scene_run_trans scene_run_one)
  qed
qed (auto intro: scene_prompt prompt_step.intros)

text \<open>Every use of the application is a run of the scene in which no coroutine is interrupted.\<close>

lemma world_run_scene:
  assumes "world_run A w w'" and "world_ok w"
  shows "scene_run A (scene_of w cos) (scene_of w' cos)"
  using assms
proof (induction rule: world_run.induct)
  case (step w1 w2)
  from world_run_ok [OF step(1,4)] have "w_user w1 \<Longrightarrow> 0 < app_refs (w_app w1)"
    by (simp add: world_ok_def w_refs_def)
  from world_step_scene [OF step(2) this] step show ?case by (blast intro: scene_run_trans)
qed (rule scene_run.start)

end
