(* ===== verification/Ch_Steps.thy ===== *)
theory Ch_Steps
  imports Ch_Coroutine Ch_Safety
begin

text \<open>
  What one step of a coroutine does: to the claim it has on a connection, beside any other claims,
  and to the books of who holds which connection and who keeps the Client alive.
\<close>

section \<open>What a coroutine uses\<close>

text \<open>The states of the client at each point where \<open>ch_send_block\<close> waits.\<close>

definition send_states :: "send_point \<Rightarrow> session set" where
  "send_states pt = (if pt = SpBegin then {SIdle} else {SInsert})"

fun co_use :: "coroutine \<Rightarrow> claim list" where
  "co_use (CoBegin r q) = [(res_conn r, res_client r, {SIdle})]"
| "co_use (CoPrime r) = [(res_conn r, res_client r, {SQuery})]"
| "co_use (CoInsert c h p stmt names rows pt) = [(c, h, send_states pt)]"
| "co_use (CoPull use obj r) = result_use r"
| "co_use (CoFlush obj b pt) = [(bat_conn b, bat_client b, send_states pt)]"
| "co_use co = []"

fun co_holds :: "coroutine \<Rightarrow> nat \<Rightarrow> nat \<Rightarrow> int" where
  "co_holds (CoBegin r q) = result_holds r"
| "co_holds (CoPrime r) = result_holds r"
| "co_holds (CoInsert c h p stmt names rows pt) = one p c"
| "co_holds (CoPull use obj r) = result_holds r"
| "co_holds (CoFlush obj b pt) = batch_holds b"
| "co_holds co = (\<lambda>p c. 0)"

text \<open>References to the Client: the call of one of its methods, or the object whose method runs.\<close>

fun co_refs :: "coroutine \<Rightarrow> nat" where
  "co_refs (CoPull use obj r) = of_bool (ro_client obj)"
| "co_refs (CoFlush obj b pt) = of_bool (bo_client obj)"
| "co_refs co = 1"

definition fresh_result :: "ch_result \<Rightarrow> bool" where
  "fresh_result r \<longleftrightarrow> \<not> res_released r \<and> \<not> res_done r \<and> \<not> res_broken r"

fun co_sane :: "'w ch_api \<Rightarrow> coroutine \<Rightarrow> bool" where
  "co_sane A (CoBegin r q) = fresh_result r"
| "co_sane A (CoPrime r) = fresh_result r"
| "co_sane A (CoPull use obj r) = (ro_client obj \<and> result_sane A r)"
| "co_sane A (CoFlush obj b pt) = (bo_client obj \<and> \<not> bat_released b)"
| "co_sane A co = True"

fun ret_use :: "returned \<Rightarrow> claim list" where
  "ret_use (RetResult obj) = ro_use obj"
| "ret_use (RetBatch bobj) = bo_use bobj"
| "ret_use (RetPulled v obj) = ro_use obj"
| "ret_use (RetFlushed bobj) = bo_use bobj"
| "ret_use RetNone = []"

fun ret_holds :: "returned \<Rightarrow> nat \<Rightarrow> nat \<Rightarrow> int" where
  "ret_holds (RetResult obj) = ro_holds obj"
| "ret_holds (RetBatch bobj) = bo_holds bobj"
| "ret_holds (RetPulled v obj) = ro_holds obj"
| "ret_holds (RetFlushed bobj) = bo_holds bobj"
| "ret_holds RetNone = (\<lambda>p c. 0)"

text \<open>A method of the Client returns before its reference is dropped.\<close>

fun ret_refs :: "returned \<Rightarrow> nat" where
  "ret_refs (RetResult obj) = 1 + of_bool (ro_client obj)"
| "ret_refs (RetBatch bobj) = 1 + of_bool (bo_client bobj)"
| "ret_refs (RetPulled v obj) = of_bool (ro_client obj)"
| "ret_refs (RetFlushed bobj) = of_bool (bo_client bobj)"
| "ret_refs RetNone = 1"

fun ret_sane :: "'w ch_api \<Rightarrow> returned \<Rightarrow> bool" where
  "ret_sane A (RetResult obj) = ro_sane A obj"
| "ret_sane A (RetBatch bobj) = bo_sane bobj"
| "ret_sane A (RetPulled v obj) = ro_sane A obj"
| "ret_sane A (RetFlushed bobj) = bo_sane bobj"
| "ret_sane A RetNone = True"

text \<open>The same for either outcome of a step.\<close>

definition out_use :: "(coroutine, returned) progress \<Rightarrow> claim list" where
  "out_use x = (case x of Waits co \<Rightarrow> co_use co | Done ret \<Rightarrow> ret_use ret)"

definition out_holds :: "(coroutine, returned) progress \<Rightarrow> nat \<Rightarrow> nat \<Rightarrow> int" where
  "out_holds x = (case x of Waits co \<Rightarrow> co_holds co | Done ret \<Rightarrow> ret_holds ret)"

definition out_refs :: "(coroutine, returned) progress \<Rightarrow> nat" where
  "out_refs x = (case x of Waits co \<Rightarrow> co_refs co | Done ret \<Rightarrow> ret_refs ret)"

definition out_sane :: "'w ch_api \<Rightarrow> (coroutine, returned) progress \<Rightarrow> bool" where
  "out_sane A x = (case x of Waits co \<Rightarrow> co_sane A co | Done ret \<Rightarrow> ret_sane A ret)"

lemma out_simps [simp]:
  "out_use (Waits co) = co_use co" "out_use (Done ret) = ret_use ret"
  "out_holds (Waits co) = co_holds co" "out_holds (Done ret) = ret_holds ret"
  "out_refs (Waits co) = co_refs co" "out_refs (Done ret) = ret_refs ret"
  "out_sane A (Waits co) = co_sane A co" "out_sane A (Done ret) = ret_sane A ret"
  by (simp_all add: out_use_def out_holds_def out_refs_def out_sane_def)

section \<open>What the code relies on\<close>

text \<open>
  A connection the pool hands out is one nobody took and did not give back, it exists, and no other
  live connection has the same library client.
\<close>

definition handout_ok :: "'w vm \<Rightarrow> 'w vm \<Rightarrow> bool" where
  "handout_ok s s' \<longleftrightarrow>
     (\<forall>p c t. calls s' = calls s @ t \<and> CAcquire p (Some c) \<in> set t \<longrightarrow>
        (\<forall>q. held q c (calls s) = 0) \<and>
        (\<exists>cl. conns s' c = Some cl \<and>
           (\<forall>d cl'. conns s' d = Some cl' \<longrightarrow> cl_client cl' = cl_client cl \<longrightarrow> d = c)))"

lemma handout_okD:
  assumes "handout_ok s s'" and "calls s' = calls s @ t" and "CAcquire p (Some c) \<in> set t"
  obtains cl where "\<forall>q. held q c (calls s) = 0" "conns s' c = Some cl"
    "\<And>d cl'. conns s' d = Some cl' \<Longrightarrow> cl_client cl' = cl_client cl \<Longrightarrow> d = c"
  using assms unfolding handout_ok_def by blast

text \<open>Every claim is on a connection somebody holds.\<close>

definition held_claims :: "'w vm \<Rightarrow> claim list \<Rightarrow> bool" where
  "held_claims s H \<longleftrightarrow> (\<forall>c h U. (c, h, U) \<in> set H \<longrightarrow> (\<exists>q. held q c (calls s) \<noteq> 0))"

section \<open>One step of a send\<close>

text \<open>The states after a step: those of the next point, or those of a finished insert.\<close>

definition sent_states :: "(send_point, bool \<times> bool) progress \<Rightarrow> session set" where
  "sent_states x = (case x of Waits pt \<Rightarrow> send_states pt | Done (ok, broken) \<Rightarrow> insert_states broken)"

lemma send_step_calls:
  assumes "send_step A h stmt names rows broken pt s = (x, s')"
  obtains y where "calls s' = calls s @ [y]" "insert_call h stmt y"
    "session_step h (if pt = SpBegin then SIdle else SInsert) y \<in> sent_states x \<inter> alive"
proof (cases pt)
  case SpBegin
  show thesis
  proof (cases rule: client_call_cases [of "\<lambda>r. CBeginInsert h stmt (is_ok r)" "cli_begin_insert A h stmt" s])
    case (error e s1)
    with SpBegin assms show thesis
      by (intro that [of "CBeginInsert h stmt False"])
        (auto simp: send_failed_def insert_call_def sent_states_def insert_states_def send_states_def
          split: if_splits)
  next
    case (normal sample s1)
    with SpBegin assms show thesis
      by (intro that [of "CBeginInsert h stmt True"])
        (auto simp: send_failed_def insert_call_def sent_states_def insert_states_def send_states_def
          split: if_splits sum.splits)
  qed
next
  case (SpSend blk)
  show thesis
  proof (cases rule: client_call_cases [of "\<lambda>r. CSendInsertBlock h blk (is_ok r)"
        "cli_send_insert_block A h blk" s])
    case (error e s1)
    with SpSend assms show thesis
      by (intro that [of "CSendInsertBlock h blk False"])
        (auto simp: send_failed_def insert_call_def sent_states_def insert_states_def send_states_def
          split: if_splits)
  next
    case (normal u s1)
    with SpSend assms show thesis
      by (intro that [of "CSendInsertBlock h blk True"])
        (auto simp: insert_call_def sent_states_def send_states_def)
  qed
next
  case SpEnd
  show thesis
  proof (cases rule: client_call_cases [of "\<lambda>r. CEndInsert h (is_ok r)" "cli_end_insert A h" s])
    case (error e s1)
    with SpEnd assms show thesis
      by (intro that [of "CEndInsert h False"])
        (auto simp: send_failed_def insert_call_def sent_states_def insert_states_def send_states_def
          split: if_splits)
  next
    case (normal u s1)
    with SpEnd assms show thesis
      by (intro that [of "CEndInsert h True"])
        (auto simp: insert_call_def sent_states_def insert_states_def)
  qed
next
  case (SpClose e)
  show thesis
  proof (cases rule: client_call_cases [of "\<lambda>r. CEndInsert h (is_ok r)" "cli_end_insert A h" s])
    case (error e' s1)
    with SpClose assms show thesis
      by (intro that [of "CEndInsert h False"])
        (auto simp: insert_call_def sent_states_def insert_states_def)
  next
    case (normal u s1)
    with SpClose assms show thesis
      by (intro that [of "CEndInsert h True"])
        (auto simp: insert_call_def sent_states_def insert_states_def)
  qed
qed

lemma send_step_wire:
  assumes st: "send_step A h stmt names rows broken pt s = (x, s')"
    and w: "wire s ((c, h, send_states pt) # H)"
  shows "wire s' ((c, h, sent_states x) # H)"
  using st
proof (rule send_step_calls)
  fix y assume y: "calls s' = calls s @ [y]" "insert_call h stmt y"
    "session_step h (if pt = SpBegin then SIdle else SInsert) y \<in> sent_states x \<inter> alive"
  show ?thesis
  proof (rule wire_calls [OF w y(1)])
    show "only_client h [y]" using y(2) by (intro insert_call_only [of h stmt]) simp
    show "session h (calls s') \<in> sent_states x \<inter> alive"
      using y wire_head(2) [OF w] by (auto simp: session_append send_states_def split: if_splits)
  qed (use send_step_conns [OF st] in simp_all)
qed

lemma send_step_keeps:
  assumes "send_step A h stmt names rows broken pt s = (x, s')"
  shows "keeps s s'"
  using assms
  by (rule send_step_calls) (auto simp: insert_call_def intro: moves_one)

section \<open>One step of a pull\<close>

lemma pull_step_wire:
  assumes st: "pull_step A r s = (x, s')" and lib: "lib_clean A" "abi_honours_verdict A"
    and w: "wire s (result_use r @ H)" and sane: "result_sane A r"
  shows "wire s' ((case x of Waits r1 \<Rightarrow> result_use r1 | Done (row, r1) \<Rightarrow> result_use r1) @ H)
    \<and> result_sane A (case x of Waits r1 \<Rightarrow> r1 | Done (row, r1) \<Rightarrow> r1)"
proof (cases x)
  case (Done y)
  obtain row r1 where y: "y = (row, r1)" by (cases y)
  from st Done y have "alone (pull_step A) r s (row, r1) s'" by (intro alone.last) simp
  then have "ch_result_next A r s = Some (row, r1, s')" by (simp add: pull_alone)
  from result_next_wire [OF this lib w sane] Done y show ?thesis by simp
next
  case (Waits r1)
  then obtain b r0 where nb: "next_block A r s = (Inr (Some b), r0, s')" "r1 = ch_result_load_block b r0"
    and nd: "\<not> res_done r"
    using st by (auto simp: pull_step_def split: if_splits sum.splits prod.splits option.splits)
  with sane have live: "\<not> res_released r" "\<not> res_broken r" by (auto simp: result_sane_def split: if_splits)
  note f = next_block_frame [OF nb(1)]
  from next_block_wire [OF nb(1), of "res_conn r" H] w live
  have "wire s' ((res_conn r, res_client r, {SQuery}) # H)" by (simp add: result_use_def)
  moreover have "result_sane A r1"
    using next_block_clean [OF lib(1) nb(1)] f live nd nb(2)
    by (auto simp: result_sane_def ch_result_load_block_def)
  ultimately show ?thesis
    using f live nb(2) Waits by (simp add: result_use_def same_handle_def)
qed

lemma pull_step_booked:
  assumes st: "pull_step A r s = (x, s')"
  shows "booked result_holds r s (case x of Waits r1 \<Rightarrow> r1 | Done (row, r1) \<Rightarrow> r1) s'"
proof (cases x)
  case (Done y)
  obtain row r1 where y: "y = (row, r1)" by (cases y)
  from st Done y have "alone (pull_step A) r s (row, r1) s'" by (intro alone.last) simp
  then have "ch_result_next A r s = Some (row, r1, s')" by (simp add: pull_alone)
  from booked_next [OF this] Done y show ?thesis by simp
next
  case (Waits r1)
  then obtain b r0 where nb: "next_block A r s = (Inr (Some b), r0, s')" "r1 = ch_result_load_block b r0"
    using st by (auto simp: pull_step_def split: if_splits sum.splits prod.splits option.splits)
  from booked_trans [OF booked_next_block [OF nb(1)] booked_load_block] Waits nb(2) show ?thesis by simp
qed

text \<open>Priming: the handle is fresh until the query has rows or is over.\<close>

lemma prime_step_wire:
  assumes st: "prime_step A r s = (x, s')" and lib: "lib_clean A" "abi_honours_verdict A"
    and w: "wire s ((res_conn r, res_client r, {SQuery}) # H)" and r: "fresh_result r"
  shows "case x of
      Waits r1 \<Rightarrow> wire s' ((res_conn r1, res_client r1, {SQuery}) # H) \<and> fresh_result r1
    | Done (Inl e, r1) \<Rightarrow> \<not> res_released r1 \<and> clean_failure e
        \<and> wire s' ((res_conn r1, res_client r1, next_states (Inl e)) # H)
    | Done (Inr u, r1) \<Rightarrow> wire s' (result_use r1 @ H) \<and> result_sane A r1"
proof (cases x)
  case (Done y)
  obtain out r1 where y: "y = (out, r1)" by (cases y)
  from st Done y have "alone (prime_step A) r s (out, r1) s'" by (intro alone.last) simp
  then have l: "prime_loop A r s = Some (out, r1, s')" by (simp add: prime_alone)
  from prime_loop_wire [OF l lib, of H] w r Done y show ?thesis
    by (cases out) (simp_all add: fresh_result_def)
next
  case (Waits r1)
  then obtain b where nb: "next_block A r s = (Inr (Some b), r1, s')"
    using st by (auto simp: prime_step_def split: if_splits sum.splits prod.splits option.splits)
  from next_block_wire [OF nb, of "res_conn r" H] w next_block_frame [OF nb] r Waits show ?thesis
    by (simp add: same_handle_def fresh_result_def)
qed

lemma prime_step_booked:
  assumes st: "prime_step A r s = (x, s')"
  shows "booked result_holds r s (case x of Waits r1 \<Rightarrow> r1 | Done (out, r1) \<Rightarrow> r1) s'"
proof (cases x)
  case (Done y)
  obtain out r1 where y: "y = (out, r1)" by (cases y)
  from st Done y have "alone (prime_step A) r s (out, r1) s'" by (intro alone.last) simp
  then have "prime_loop A r s = Some (out, r1, s')" by (simp add: prime_alone)
  from booked_prime [OF this] Done y show ?thesis by simp
next
  case (Waits r1)
  then obtain b where nb: "next_block A r s = (Inr (Some b), r1, s')"
    using st by (auto simp: prime_step_def split: if_splits sum.splits prod.splits option.splits)
  from booked_next_block [OF nb] Waits show ?thesis by simp
qed

section \<open>One step of a coroutine\<close>

lemma co_connected_wire:
  assumes st: "co_connected A req p c a = (x, a')" and cl: "conns (app_vm a) c = Some cl"
    and w: "wire (app_vm a) ((c, cl_client cl, {SIdle}) # H)"
  shows "wire (app_vm a') (out_use x @ H) \<and> out_sane A x"
proof (cases req)
  case (RQuery sql params options)
  with assms show ?thesis
    by (auto simp: co_connected_def fresh_result_def new_result_def)
next
  case (RInsert table columns rows)
  with assms show ?thesis
    by (auto simp: co_connected_def send_states_def split: prod.splits)
next
  case (RBatch table columns)
  have "\<not> bat_released (ch_batch_start A c (cl_client cl) p table columns)"
    by (simp add: ch_batch_start_def split: prod.splits)
  with RBatch assms show ?thesis
    by (auto simp: co_connected_def bo_use_def bo_sane_def batch_start_use)
qed

lemma log_acquire [simp]: "wire (log_call (CAcquire p x) s) H = wire s H"
  by (rule unnoticed_wire [OF unnoticed_log]) simp

lemma co_wait_wire:
  assumes st: "co_step A (CoWait req p) a = (x, a')" and w: "wire (app_vm a) H"
    and ok: "handout_ok (app_vm a) (app_vm a')" and h: "held_claims (app_vm a) H"
  shows "wire (app_vm a') (out_use x @ H) \<and> out_sane A x"
proof -
  obtain q s1 where q: "ext_call (abi_acquire A p ch_pool_accept) (app_vm a) = (q, s1)"
    by (metis surj_pair)
  have w1: "wire s1 H" using w unnoticed_ext [OF q] by (simp add: unnoticed_wire)
  note f = ext_call_frame [OF q]
  show ?thesis
  proof (cases q)
    case (AcqIdle c)
    let ?a = "a\<lparr>app_vm := log_call (CAcquire p (Some c)) s1\<rparr>"
    from st q AcqIdle have st': "co_connected A req p c ?a = (x, a')" by simp
    then have "app_vm a' = app_vm ?a"
      by (auto simp: co_connected_def split: option.splits request.splits prod.splits)
    with f have "calls (app_vm a') = calls (app_vm a) @ [CAcquire p (Some c)]" and cs: "conns (app_vm a') = conns s1"
      by simp_all
    from this(1) obtain cl where
      free: "\<forall>q. held q c (calls (app_vm a)) = 0" and cl: "conns (app_vm a') c = Some cl"
      by (rule handout_okD [OF ok, of _ p c]) simp
    have "c \<notin> fst ` set H"
    proof
      assume "c \<in> fst ` set H"
      then obtain h U where "(c, h, U) \<in> set H" by force
      with assms(4) free show False by (auto simp: held_claims_def)
    qed
    with wire_claimed_idle [OF w1, of c cl] cl cs
    have "wire (app_vm ?a) ((c, cl_client cl, {SIdle}) # H)" by simp
    with co_connected_wire [OF st', of cl H] cl cs show ?thesis by simp
  next
    case AcqNew
    obtain start obj1 s2 where ch: "choose_start A (app_client a) s1 = (start, obj1, s2)"
      by (metis surj_pair)
    with st q AcqNew w1 unnoticed_wire [OF choose_start_unnoticed [OF ch], of H] show ?thesis
      by auto
  next
    case AcqFail
    with st q w1 show ?thesis by auto
  qed
qed

lemma co_connect_wire:
  assumes st: "co_step A (CoConnect req p cfg) a = (x, a')" and w: "wire (app_vm a) H"
    and ok: "handout_ok (app_vm a) (app_vm a')"
  shows "wire (app_vm a') (out_use x @ H) \<and> out_sane A x"
proof -
  obtain d s1 where con: "ch_client_connect A cfg (app_vm a) = (d, s1)"
    by (metis surj_pair)
  note o = ch_client_connect_opens [OF con]
  show ?thesis
  proof (cases d)
    case None
    with st con o w show ?thesis by (auto simp: unnoticed_wire)
  next
    case (Some c)
    let ?a = "a\<lparr>app_vm := log_call (CAcquire p (Some c)) s1\<rparr>"
    from o Some obtain h where op: "opens c h (app_vm a) s1" by auto
    from st con Some have st': "co_connected A req p c ?a = (x, a')" by simp
    then have vm: "app_vm a' = app_vm ?a"
      by (auto simp: co_connected_def split: option.splits request.splits prod.splits)
    from ch_client_connect_calls [of A cfg "app_vm a"] con obtain y where
      "calls s1 = calls (app_vm a) @ [y]" by auto
    with vm have "calls (app_vm a') = calls (app_vm a) @ [y, CAcquire p (Some c)]" by simp
    then obtain cl where cl: "conns (app_vm a') c = Some cl"
      and other: "\<And>d cl'. conns (app_vm a') d = Some cl' \<Longrightarrow> cl_client cl' = cl_client cl \<Longrightarrow> d = c"
    proof (rule handout_okD [OF ok, of _ p c])
      show "CAcquire p (Some c) \<in> set [y, CAcquire p (Some c)]" by simp
    qed blast
    from cl op vm have h: "cl_client cl = h" by (auto simp: opens_def)
    have "wire s1 ((c, h, {SIdle}) # H)"
      using w op by (rule wire_opens) (use other vm h in simp)
    with h have "wire (app_vm ?a) ((c, cl_client cl, {SIdle}) # H)" by simp
    with co_connected_wire [OF st', of cl H] cl vm show ?thesis by simp
  qed
qed

lemma co_begin_wire:
  assumes st: "co_step A (CoBegin r q) a = (x, a')" and lib: "lib_clean A" "abi_honours_verdict A"
    and w: "wire (app_vm a) ((res_conn r, res_client r, {SIdle}) # H)" and r: "fresh_result r"
  shows "wire (app_vm a') (out_use x @ H) \<and> out_sane A x"
proof -
  obtain res r1 s1 where b: "begin_execute A q r (app_vm a) = (res, r1, s1)" by (metis surj_pair)
  from begin_execute_frame(1) [OF b] obtain pks where f: "r1 = deliver pks r" ..
  note w1 = begin_execute_wire [OF b w]
  show ?thesis
  proof (cases res)
    case (Inl e)
    note c = begin_execute_clean [OF lib(1) b [unfolded Inl]]
    obtain r2 s2 where fl: "result_failed A e r1 s1 = (r2, s2)" by (metis surj_pair)
    from w1 Inl f have "wire s1 ((res_conn r1, res_client r1, next_states (Inl e)) # H)" by simp
    from result_failed_wire [OF fl _ this lib(2) clean_states [OF c]] f r
    have "wire s2 H" by (simp add: fresh_result_def)
    with st b Inl fl show ?thesis by auto
  next
    case (Inr u)
    with st b w1 f r show ?thesis by (auto simp: fresh_result_def)
  qed
qed

lemma co_prime_wire:
  assumes st: "co_step A (CoPrime r) a = (x, a')" and lib: "lib_clean A" "abi_honours_verdict A"
    and w: "wire (app_vm a) ((res_conn r, res_client r, {SQuery}) # H)" and r: "fresh_result r"
  shows "wire (app_vm a') (out_use x @ H) \<and> out_sane A x"
proof -
  obtain y s1 where p: "prime_step A r (app_vm a) = (y, s1)" by (metis surj_pair)
  note pw = prime_step_wire [OF p lib w r]
  show ?thesis
  proof (cases y)
    case (Waits r1)
    with st p pw show ?thesis by auto
  next
    case (Done z)
    obtain res r1 where z: "z = (res, r1)" by (cases z)
    show ?thesis
    proof (cases res)
      case (Inl e)
      obtain r2 s2 where fl: "result_failed A e r1 s1 = (r2, s2)" by (metis surj_pair)
      from pw Done z Inl result_failed_wire [OF fl _ _ lib(2) clean_states, of H]
      have "wire s2 H" by simp
      with st p Done z Inl fl show ?thesis by (auto simp: co_primed_def)
    next
      case (Inr u)
      with st p Done z pw show ?thesis
        by (auto simp: co_primed_def ro_use_def ro_sane_def)
    qed
  qed
qed

lemma co_insert_wire:
  assumes st: "co_step A (CoInsert c h p stmt names rows pt) a = (x, a')" and "abi_honours_verdict A"
    and w: "wire (app_vm a) ((c, h, send_states pt) # H)"
  shows "wire (app_vm a') (out_use x @ H) \<and> out_sane A x"
proof -
  let ?s = "app_vm a"
  obtain y s1 where y: "send_step A h stmt names rows (ch_client_is_broken c ?s) pt ?s = (y, s1)"
    by (metis surj_pair)
  note w1 = send_step_wire [OF y w] and f = send_step_conns [OF y] and hd = wire_head(1) [OF w]
  show ?thesis
  proof (cases y)
    case (Waits pt1)
    with st y w1 show ?thesis by (auto simp: sent_states_def)
  next
    case (Done z)
    obtain ok broken where z: "z = (ok, broken)" by (cases z)
    let ?s2 = "s1\<lparr>conns := (conns s1)(c \<mapsto> \<lparr>cl_client = h, cl_broken = broken\<rparr>)\<rparr>"
    from w1 Done z have "wire s1 ((c, h, insert_states broken) # H)" by (simp add: sent_states_def)
    then have "wire (pool_release A p c ?s2) H"
      by (rule wire_release [OF _ assms(2)]) (auto simp: insert_states_def)
    with st y Done z hd f show ?thesis by auto
  qed
qed

lemma co_pull_wire:
  assumes st: "co_step A (CoPull use obj r) a = (x, a')" and lib: "lib_clean A" "abi_honours_verdict A"
    and w: "wire (app_vm a) (result_use r @ H)" and sane: "ro_client obj" "result_sane A r"
  shows "wire (app_vm a') (out_use x @ H) \<and> out_sane A x"
proof -
  obtain y s1 where p: "pull_step A r (app_vm a) = (y, s1)" by (metis surj_pair)
  note pw = pull_step_wire [OF p lib w sane(2)]
  show ?thesis
  proof (cases y)
    case (Waits r1)
    with st p pw sane show ?thesis by auto
  next
    case (Done z)
    obtain row r1 where z: "z = (row, r1)" by (cases z)
    from st p Done z have "x = co_pulled use row obj r1" "app_vm a' = s1" by auto
    with pw Done z sane show ?thesis
      by (cases use) (auto simp: ro_use_def ro_sane_def split: option.split)
  qed
qed

lemma flush_step_frame:
  assumes "flush_step A b pt s = (y, b1, s1)"
  shows "bat_conn b1 = bat_conn b \<and> bat_client b1 = bat_client b \<and> bat_pool b1 = bat_pool b
    \<and> bat_released b1 = bat_released b"
  using assms by (auto simp: flush_step_def split: progress.splits prod.splits bool.splits)

lemma flush_step_send:
  assumes "flush_step A b pt s = (y, b1, s1)"
  obtains z where "send_step A (bat_client b) (bat_statement b) (bat_names b) (hash_values (bat_pending b))
      (bat_broken b) pt s = (z, s1)"
    "case z of Waits pt1 \<Rightarrow> y = Waits pt1 \<and> b1 = b
     | Done (ok, broken) \<Rightarrow> y = Done ok \<and> bat_broken b1 = broken"
  using assms by (auto simp: flush_step_def split: progress.splits prod.splits bool.splits)

lemma co_flush_wire:
  assumes st: "co_step A (CoFlush obj b pt) a = (x, a')"
    and w: "wire (app_vm a) ((bat_conn b, bat_client b, send_states pt) # H)"
    and sane: "bo_client obj" "\<not> bat_released b"
  shows "wire (app_vm a') (out_use x @ H) \<and> out_sane A x"
proof -
  obtain y b1 s1 where p: "flush_step A b pt (app_vm a) = (y, b1, s1)" by (metis surj_pair)
  note f = flush_step_frame [OF p]
  from p obtain z where z: "send_step A (bat_client b) (bat_statement b) (bat_names b)
      (hash_values (bat_pending b)) (bat_broken b) pt (app_vm a) = (z, s1)"
    and out: "case z of Waits pt1 \<Rightarrow> y = Waits pt1 \<and> b1 = b
     | Done (ok, broken) \<Rightarrow> y = Done ok \<and> bat_broken b1 = broken"
    by (rule flush_step_send)
  from send_step_wire [OF z w] out st p f sane show ?thesis
    by (cases z) (auto simp: sent_states_def bo_use_def bo_sane_def batch_use_def)
qed

lemma co_step_wire:
  assumes st: "co_step A co a = (x, a')" and w: "wire (app_vm a) (co_use co @ H)" and sane: "co_sane A co"
    and ok: "handout_ok (app_vm a) (app_vm a')" "held_claims (app_vm a) H"
    and lib: "lib_clean A" "abi_honours_verdict A"
  shows "wire (app_vm a') (out_use x @ H) \<and> out_sane A x"
proof (cases co)
  case (CoEnter req)
  obtain ok' obj1 s1 where e: "ch_pool_ensure A (app_client a) (app_vm a) = (ok', obj1, s1)"
    by (metis surj_pair)
  with st w CoEnter unnoticed_wire [OF ch_pool_ensure_unnoticed [OF e], of H] show ?thesis
    by (auto split: option.splits if_splits)
next
  case (CoWait req p)
  with co_wait_wire [OF st [unfolded CoWait] _ ok] w show ?thesis by simp
next
  case (CoConnect req p cfg)
  with co_connect_wire [OF st [unfolded CoConnect] _ ok(1)] w show ?thesis by simp
next
  case (CoBegin r q)
  with co_begin_wire [OF st [unfolded CoBegin] lib] w sane show ?thesis by simp
next
  case (CoPrime r)
  with co_prime_wire [OF st [unfolded CoPrime] lib] w sane show ?thesis by simp
next
  case (CoInsert c h p stmt names rows pt)
  with co_insert_wire [OF st [unfolded CoInsert] lib(2)] w show ?thesis by simp
next
  case (CoPull use obj r)
  with co_pull_wire [OF st [unfolded CoPull] lib] w sane show ?thesis by simp
next
  case (CoFlush obj b pt)
  with co_flush_wire [OF st [unfolded CoFlush]] w sane show ?thesis by simp
qed

section \<open>The ledger\<close>

text \<open>A step books exactly the change of what the coroutine holds, and keeps count of its reference
  to the Client.\<close>

definition co_booked :: "coroutine \<Rightarrow> 'w app \<Rightarrow> (coroutine, returned) progress \<Rightarrow> 'w app \<Rightarrow> bool" where
  "co_booked co a x a' \<longleftrightarrow>
     moves (\<lambda>p c. out_holds x p c - co_holds co p c) (app_vm a) (app_vm a')
     \<and> app_refs a' + co_refs co = app_refs a + out_refs x \<and> (co_refs co = 0 \<longrightarrow> out_refs x = 0)"

lemma co_connected_vm: "co_connected A req p c a = (x, a') \<Longrightarrow> app_vm a' = app_vm a"
  by (auto simp: co_connected_def split: option.splits request.splits prod.splits)

lemma co_connected_holds:
  assumes "co_connected A req p c a = (x, a')" and "conns (app_vm a) c = Some cl"
  shows "out_holds x = one p c \<and> app_refs a' + 1 = app_refs a + out_refs x"
  using assms
  by (auto simp: co_connected_def new_result_def result_holds_def bo_holds_def batch_holds_def
      ch_batch_start_def fun_eq_iff split: request.splits prod.splits)

lemma co_connected_booked:
  assumes st: "co_connected A req p c (a\<lparr>app_vm := log_call (CAcquire p (Some c)) s1\<rparr>) = (x, a')"
    and co: "co_holds co = (\<lambda>p c. 0)" "co_refs co = 1" and "keeps (app_vm a) s1"
    and ok: "handout_ok (app_vm a) (app_vm a')"
  shows "co_booked co a x a'"
proof -
  let ?a = "a\<lparr>app_vm := log_call (CAcquire p (Some c)) s1\<rparr>"
  from co_connected_vm [OF st] have vm: "app_vm a' = log_call (CAcquire p (Some c)) s1" by simp
  from assms(4) obtain t where "calls s1 = calls (app_vm a) @ t" by (auto simp: moves_def)
  with vm have "calls (app_vm a') = calls (app_vm a) @ (t @ [CAcquire p (Some c)])" by simp
  then obtain cl where "conns (app_vm a') c = Some cl"
    by (rule handout_okD [OF ok, of _ p c]) simp
  with vm have cl: "conns (app_vm ?a) c = Some cl" by simp
  have "moves (one p c) s1 (app_vm a')"
    unfolding vm by (rule moves_one [of _ _ "CAcquire p (Some c)"]) (auto simp: one_def)
  with co_connected_holds [OF st cl] co keeps_moves [OF assms(4)] show ?thesis
    by (simp add: co_booked_def)
qed

lemma failed_holds: "result_failed A e r s = (r', s') \<Longrightarrow> result_holds r' = (\<lambda>p c. 0)"
  using failed_frame [of A e r s r' s'] by (simp add: result_holds_def fun_eq_iff)

lemma booked_gone:
  assumes "booked result_holds r s r1 s1"
  shows "moves (\<lambda>p c. - result_holds r p c) s (snd (result_failed A e r1 s1))"
proof -
  obtain r2 s2 where f: "result_failed A e r1 s1 = (r2, s2)" by (metis surj_pair)
  from booked_trans [OF assms booked_failed [OF f]] failed_holds [OF f] f show ?thesis
    by (simp add: booked_def)
qed

lemma begin_execute_booked:
  assumes "begin_execute A q r s = (res, r1, s1)"
  shows "booked result_holds r s r1 s1"
proof -
  from begin_execute_frame(1) [OF assms] obtain pks where "r1 = deliver pks r" ..
  with begin_execute_frame(2) [OF assms] show ?thesis
    by (intro booked_keeps) (auto simp: result_holds_def fun_eq_iff intro: moves_one)
qed

lemma co_step_booked:
  assumes st: "co_step A co a = (x, a')" and ok: "handout_ok (app_vm a) (app_vm a')"
  shows "co_booked co a x a'"
proof (cases co)
  case (CoEnter req)
  obtain ok' obj1 s1 where e: "ch_pool_ensure A (app_client a) (app_vm a) = (ok', obj1, s1)"
    by (metis surj_pair)
  from ch_pool_ensure_keeps [OF e] have "keeps (app_vm a) s1" by simp
  with st e CoEnter show ?thesis by (auto simp: co_booked_def split: option.splits if_splits)
next
  case (CoWait req p)
  obtain q s1 where q: "ext_call (abi_acquire A p ch_pool_accept) (app_vm a) = (q, s1)"
    by (metis surj_pair)
  have k: "keeps (app_vm a) s1" using ext_call_frame [OF q] by (intro keeps_same) simp
  show ?thesis
  proof (cases q)
    case (AcqIdle c)
    with st q CoWait show ?thesis
      by (intro co_connected_booked [OF _ _ _ k ok]) simp_all
  next
    case AcqNew
    obtain start obj1 s2 where ch: "choose_start A (app_client a) s1 = (start, obj1, s2)"
      by (metis surj_pair)
    have "keeps s1 s2" using choose_start_frame [OF ch] by (intro keeps_same) simp
    with k have "keeps (app_vm a) s2" by (rule moves_keeps)
    with st q CoWait AcqNew ch show ?thesis by (auto simp: co_booked_def)
  next
    case AcqFail
    have "keeps s1 (log_call (CAcquire p None) s1)" by (rule moves_one [of _ _ "CAcquire p None"]) simp_all
    with k have "keeps (app_vm a) (log_call (CAcquire p None) s1)" by (rule moves_keeps)
    with st q CoWait AcqFail show ?thesis by (auto simp: co_booked_def)
  qed
next
  case (CoConnect req p cfg)
  obtain d s1 where con: "ch_client_connect A cfg (app_vm a) = (d, s1)" by (metis surj_pair)
  have k: "keeps (app_vm a) s1"
    using ch_client_connect_calls [of A cfg "app_vm a"] con by (auto intro!: moves_one)
  show ?thesis
  proof (cases d)
    case (Some c)
    with st con CoConnect show ?thesis
      by (intro co_connected_booked [OF _ _ _ k ok]) simp_all
  next
    case None
    have "keeps s1 (log_call (CAcquire p None) s1)" by (rule moves_one [of _ _ "CAcquire p None"]) simp_all
    with k have "keeps (app_vm a) (log_call (CAcquire p None) s1)" by (rule moves_keeps)
    with st con CoConnect None show ?thesis by (auto simp: co_booked_def)
  qed
next
  case (CoBegin r q)
  obtain res r1 s1 where b: "begin_execute A q r (app_vm a) = (res, r1, s1)" by (metis surj_pair)
  note k = begin_execute_booked [OF b]
  with st b CoBegin booked_gone [OF k, of A] show ?thesis
    by (cases res) (auto simp: co_booked_def booked_def)
next
  case (CoPrime r)
  obtain y s1 where p: "prime_step A r (app_vm a) = (y, s1)" by (metis surj_pair)
  note k = prime_step_booked [OF p]
  show ?thesis
  proof (cases y)
    case (Waits r1)
    with st p k CoPrime show ?thesis by (auto simp: co_booked_def booked_def)
  next
    case (Done z)
    obtain res r1 where z: "z = (res, r1)" by (cases z)
    from k Done z have k: "booked result_holds r (app_vm a) r1 s1" by simp
    with st p Done z CoPrime booked_gone [OF k, of A] show ?thesis
      by (cases res) (auto simp: co_booked_def booked_def co_primed_def ro_holds_def)
  qed
next
  case (CoInsert c h p stmt names rows pt)
  let ?s = "app_vm a"
  obtain y s1 where y: "send_step A h stmt names rows (ch_client_is_broken c ?s) pt ?s = (y, s1)"
    by (metis surj_pair)
  note k = send_step_keeps [OF y]
  have rel: "moves (\<lambda>p' c'. - one p c p' c') ?s (pool_release A p c s2)" if "calls s2 = calls s1" for s2
    using keeps_moves [OF k keeps_moves [OF keeps_same [OF that] pool_release_moves]] .
  show ?thesis
    using st y CoInsert k
    by (cases y) (auto simp: co_booked_def intro!: rel split: prod.splits)
next
  case (CoPull use obj r)
  obtain y s1 where p: "pull_step A r (app_vm a) = (y, s1)" by (metis surj_pair)
  note k = pull_step_booked [OF p]
  show ?thesis
  proof (cases y)
    case (Waits r1)
    with st p k CoPull show ?thesis by (auto simp: co_booked_def booked_def)
  next
    case (Done z)
    obtain row r1 where z: "z = (row, r1)" by (cases z)
    from st p Done z CoPull have "x = co_pulled use row obj r1" "a' = a\<lparr>app_vm := s1\<rparr>" by auto
    with k Done z CoPull show ?thesis
      by (cases use) (auto simp: co_booked_def booked_def ro_holds_def split: option.split)
  qed
next
  case (CoFlush obj b pt)
  obtain y b1 s1 where p: "flush_step A b pt (app_vm a) = (y, b1, s1)" by (metis surj_pair)
  have same: "batch_holds b1 = batch_holds b"
    using flush_step_frame [OF p] by (simp add: batch_holds_def fun_eq_iff)
  from p obtain z where "send_step A (bat_client b) (bat_statement b) (bat_names b)
      (hash_values (bat_pending b)) (bat_broken b) pt (app_vm a) = (z, s1)"
    by (rule flush_step_send)
  from send_step_keeps [OF this] st p CoFlush same show ?thesis
    by (cases y) (auto simp: co_booked_def bo_holds_def)
qed

end
