(* ===== verification/Ch_Interleave.thy ===== *)
theory Ch_Interleave
  imports Ch_Scene Ch_Steps
begin

text \<open>
  The wire protocol under interleaving: the claims of the objects and of the suspended coroutines
  are claims on different connections, whatever the order in which the coroutines go on.
\<close>

section \<open>The books of a scene\<close>

text \<open>\<open>ledger g n a\<close>: by the log, \<open>g\<close> is held and \<open>n\<close> references keep the Client alive.\<close>

definition ledger :: "(nat \<Rightarrow> nat \<Rightarrow> int) \<Rightarrow> nat \<Rightarrow> 'w app \<Rightarrow> bool" where
  "ledger g n a \<longleftrightarrow>
     (\<forall>p c. held p c (calls (app_vm a)) = g p c) \<and> app_refs a = n \<and> (0 < n \<longrightarrow> no_close (app_vm a))"

lemma ledger_cong: "ledger g n a \<Longrightarrow> (\<And>p c. g' p c = g p c) \<Longrightarrow> n' = n \<Longrightarrow> ledger g' n' a"
  by (simp add: ledger_def)

lemma ledger_moves:
  assumes "ledger g n a" and "moves d (app_vm a) (app_vm a')" and "app_refs a' + n = app_refs a + n'"
    and "\<And>p c. g' p c = g p c + d p c" and "n = 0 \<Longrightarrow> n' = 0"
  shows "ledger g' n' a'"
  using assms moves_held [OF assms(2)] no_close_moves [OF assms(2)]
  by (cases "n = 0") (auto simp: ledger_def)

lemma ledger_release: "ledger g (Suc n) a \<Longrightarrow> ledger g n (obj_release A a)"
  using obj_release_alive [of a A]
  by (auto simp: ledger_def obj_release_held obj_release_refs)

lemma ledger_free:
  assumes "ledger g n a" and "app_refs a1 = app_refs a" and "moves (\<lambda>p c. - h p c) (app_vm a) (app_vm a1)"
    and "a' = (if client then obj_release A a1 else a1)"
    and "\<And>p c. g p c = g' p c + h p c" and "n = n' + of_bool client"
  shows "ledger g' n' a'"
proof -
  have "ledger g' n a1" by (rule ledger_moves [OF assms(1,3)]) (use assms(2,5) in simp_all)
  with assms(4,6) ledger_release [of g' n' a1 A] show ?thesis by (cases client) simp_all
qed

definition run_holds :: "coroutine list \<Rightarrow> nat \<Rightarrow> nat \<Rightarrow> int" where
  "run_holds cos p c = (\<Sum>co\<leftarrow>cos. co_holds co p c)"

definition run_refs :: "coroutine list \<Rightarrow> nat" where
  "run_refs cos = sum_list (map co_refs cos)"

lemma run_simps [simp]:
  "run_holds [] p c = 0" "run_holds (co # cos) p c = co_holds co p c + run_holds cos p c"
  "run_holds (us @ vs) p c = run_holds us p c + run_holds vs p c"
  "run_refs [] = 0" "run_refs (co # cos) = co_refs co + run_refs cos"
  "run_refs (us @ vs) = run_refs us + run_refs vs"
  by (simp_all add: run_holds_def run_refs_def)

definition scene_ok :: "'w scene \<Rightarrow> bool" where
  "scene_ok sc \<longleftrightarrow>
     ledger (\<lambda>p c. w_holds (sc_world sc) p c + run_holds (sc_running sc) p c)
       (w_refs (sc_world sc) + run_refs (sc_running sc)) (w_app (sc_world sc))"

text \<open>A step that does not wait changes the books of the world and nothing else.\<close>

lemma prompt_step_books:
  assumes st: "prompt_step A w w'"
    and l: "ledger (\<lambda>p c. w_holds w p c + g p c) (w_refs w + n) (w_app w)"
  shows "ledger (\<lambda>p c. w_holds w' p c + g p c) (w_refs w' + n) (w_app w')"
  using st
proof cases
  case (get_pool p a)
  with client_getPool_moves [OF get_pool(3)] show ?thesis
    by (intro ledger_moves [OF l]) (auto simp: w_refs_def)
next
  case new_result
  then show ?thesis
    by (intro ledger_moves [OF l keeps_same])
      (simp_all add: w_holds_def w_refs_def ch_result_object_create_def ro_holds_def)
next
  case new_batch
  then show ?thesis
    by (intro ledger_moves [OF l keeps_same])
      (simp_all add: w_holds_def w_refs_def ch_batch_object_create_def bo_holds_def)
next
  case (result_call xs obj ys obj' s)
  with result_method_step [OF result_call(4)] show ?thesis
    by (intro ledger_moves [OF l]) (auto simp: w_holds_def w_refs_def ro_step_def booked_def)
next
  case (batch_call bs bobj cs bobj' s)
  with batch_method_step [OF batch_call(3)] show ?thesis
    by (intro ledger_moves [OF l]) (auto simp: w_holds_def w_refs_def booked_def)
next
  case (free_result xs obj ys)
  obtain a1 where "app_refs a1 = app_refs (w_app w)"
    "moves (\<lambda>p c. - ro_holds obj p c) (app_vm (w_app w)) (app_vm a1)"
    "ch_result_object_free A obj (w_app w) = (if ro_client obj then obj_release A a1 else a1)"
    by (rule ch_result_object_free_alt)
  with free_result show ?thesis
    by (intro ledger_free [OF l, of a1 "ro_holds obj" _ "ro_client obj" A]) (auto simp: w_holds_def w_refs_def)
next
  case (free_batch bs bobj cs)
  obtain a1 where "app_refs a1 = app_refs (w_app w)"
    "moves (\<lambda>p c. - bo_holds bobj p c) (app_vm (w_app w)) (app_vm a1)"
    "ch_batch_object_free A bobj (w_app w) = (if bo_client bobj then obj_release A a1 else a1)"
    by (rule ch_batch_object_free_alt)
  with free_batch show ?thesis
    by (intro ledger_free [OF l, of a1 "bo_holds bobj" _ "bo_client bobj" A]) (auto simp: w_holds_def w_refs_def)
next
  case drop_client
  then show ?thesis
    by (intro ledger_free [OF l, of "w_app w" "\<lambda>p c. 0" _ True A])
      (auto simp: w_holds_def w_refs_def keeps_same)
qed

text \<open>A method that returns: its claim becomes that of an object of the world.\<close>

lemma hands_over_books:
  assumes h: "hands_over A ret w w'"
    and l: "ledger (\<lambda>p c. w_holds w p c + ret_holds ret p c + g p c) (w_refs w + ret_refs ret + n) (w_app w)"
  shows "ledger (\<lambda>p c. w_holds w' p c + g p c) (w_refs w' + n) (w_app w')"
  using assms
proof (induction rule: hands_over.induct)
  case (none w)
  then have "ledger (\<lambda>p c. w_holds w p c + g p c) (Suc (w_refs w + n)) (w_app w)"
    by (rule ledger_cong) simp_all
  from ledger_release [OF this, of A] show ?case by (auto elim!: ledger_cong simp: w_refs_def)
next
  case (result obj w)
  then have "ledger (\<lambda>p c. w_holds w p c + ro_holds obj p c + g p c)
      (Suc (w_refs w + of_bool (ro_client obj) + n)) (w_app w)"
    by (rule ledger_cong) simp_all
  from ledger_release [OF this, of A] show ?case
    by (auto elim!: ledger_cong simp: w_refs_def w_holds_def)
next
  case (batch bobj w)
  then have "ledger (\<lambda>p c. w_holds w p c + bo_holds bobj p c + g p c)
      (Suc (w_refs w + of_bool (bo_client bobj) + n)) (w_app w)"
    by (rule ledger_cong) simp_all
  from ledger_release [OF this, of A] show ?case
    by (auto elim!: ledger_cong simp: w_refs_def w_holds_def)
next
  case (pulled w xs ys v obj)
  then show ?case by (auto elim!: ledger_cong simp: w_refs_def w_holds_def)
next
  case (flushed w bs cs bobj)
  then show ?case by (auto elim!: ledger_cong simp: w_refs_def w_holds_def)
qed

lemma enters_frame: "enters obj use obj' \<Longrightarrow> ro_client obj' = ro_client obj"
  by (induction rule: enters.induct) simp_all

text \<open>In this state, whichever coroutine goes on, the pool hands out only what it may.\<close>

definition hands_out_free :: "'w ch_api \<Rightarrow> 'w scene \<Rightarrow> bool" where
  "hands_out_free A sc \<longleftrightarrow>
     (\<forall>co \<in> set (sc_running sc). \<forall>x a. co_step A co (w_app (sc_world sc)) = (x, a) \<longrightarrow>
        handout_ok (app_vm (w_app (sc_world sc))) (app_vm a))"

lemma hands_out_freeD:
  assumes "hands_out_free A sc" and "sc_running sc = us @ co # vs"
    and "co_step A co (w_app (sc_world sc)) = (x, a)"
  shows "handout_ok (app_vm (w_app (sc_world sc))) (app_vm a)"
  using assms unfolding hands_out_free_def by auto

lemma scene_step_ok:
  assumes st: "scene_step A sc sc'" and ok: "scene_ok sc" and free: "hands_out_free A sc"
  shows "scene_ok sc'"
  using st
proof cases
  case (prompt w')
  with prompt_step_books [OF prompt(2)] ok show ?thesis by (simp add: scene_ok_def)
next
  case (call req)
  from ok call show ?thesis
    unfolding scene_ok_def
    by (elim ledger_moves [OF _ keeps_same]) (auto simp: w_refs_def w_holds_def)
next
  case (pull xs obj ys r use obj')
  with ok enters_frame [OF pull(4)] show ?thesis
    unfolding scene_ok_def by (auto elim!: ledger_cong simp: w_holds_def w_refs_def ro_holds_def)
next
  case (flush bs bobj cs b)
  with ok show ?thesis
    unfolding scene_ok_def by (auto elim!: ledger_cong simp: w_holds_def w_refs_def bo_holds_def)
next
  case (goes_on us co vs co' a)
  from co_step_booked [OF goes_on(3) hands_out_freeD [OF free goes_on(2,3)]]
  have m: "moves (\<lambda>p c. co_holds co' p c - co_holds co p c) (app_vm (w_app (sc_world sc))) (app_vm a)"
    "app_refs a + co_refs co = app_refs (w_app (sc_world sc)) + co_refs co'"
    "co_refs co = 0 \<Longrightarrow> co_refs co' = 0"
    by (simp_all add: co_booked_def)
  from ok m goes_on(1,2) show ?thesis
    unfolding scene_ok_def by (elim ledger_moves) (auto simp: w_refs_def w_holds_def)
next
  case (returns us co vs ret a w')
  let ?w = "(sc_world sc)\<lparr>w_app := a\<rparr>"
  from co_step_booked [OF returns(3) hands_out_freeD [OF free returns(2,3)]]
  have m: "moves (\<lambda>p c. ret_holds ret p c - co_holds co p c) (app_vm (w_app (sc_world sc))) (app_vm a)"
    "app_refs a + co_refs co = app_refs (w_app (sc_world sc)) + ret_refs ret"
    "co_refs co = 0 \<Longrightarrow> ret_refs ret = 0"
    by (simp_all add: co_booked_def)
  from ok m returns(2)
  have "ledger (\<lambda>p c. w_holds ?w p c + ret_holds ret p c + (run_holds us p c + run_holds vs p c))
      (w_refs ?w + ret_refs ret + (run_refs us + run_refs vs)) (w_app ?w)"
    unfolding scene_ok_def by (elim ledger_moves) (auto simp: w_refs_def w_holds_def)
  from hands_over_books [OF returns(4) this] returns(1) show ?thesis by (simp add: scene_ok_def)
next
  case (others e x)
  with ok show ?thesis by (simp add: scene_ok_def ledger_def w_refs_def no_close_def)
qed

section \<open>The claims of a scene\<close>

definition sc_claims :: "'w scene \<Rightarrow> claim list" where
  "sc_claims sc = claims (sc_world sc) @ concat (map co_use (sc_running sc))"

definition scene_wire :: "'w ch_api \<Rightarrow> 'w scene \<Rightarrow> bool" where
  "scene_wire A sc \<longleftrightarrow>
     wire (app_vm (w_app (sc_world sc))) (sc_claims sc) \<and>
     list_all (ro_sane A) (w_results (sc_world sc)) \<and> list_all bo_sane (w_batches (sc_world sc)) \<and>
     list_all (co_sane A) (sc_running sc)"

text \<open>Who claims a connection holds it.\<close>

lemma co_holds_use: "co_sane A co \<Longrightarrow> (c, h, U) \<in> set (co_use co) \<Longrightarrow> \<exists>p. 0 < co_holds co p c"
  by (cases co)
    (auto simp: fresh_result_def result_use_def result_holds_def batch_holds_def one_def split: if_splits)

lemma co_holds_nonneg: "0 \<le> co_holds co p c"
  by (cases co) (auto simp: result_holds_def batch_holds_def one_def)

lemma run_holds_nonneg: "0 \<le> run_holds cos p c"
  unfolding run_holds_def by (rule sum_list_nonneg) (auto simp: co_holds_nonneg)

lemma w_holds_nonneg: "0 \<le> w_holds w p c"
  unfolding w_holds_def
  by (intro add_nonneg_nonneg sum_list_nonneg) (auto simp: ro_holds_nonneg bo_holds_nonneg)

lemma scene_held:
  assumes "scene_ok sc" and "list_all (co_sane A) (sc_running sc)"
  shows "held_claims (app_vm (w_app (sc_world sc))) (sc_claims sc)"
  unfolding held_claims_def
proof (intro allI impI)
  fix c h U assume "(c, h, U) \<in> set (sc_claims sc)"
  then have "\<exists>p. 0 < w_holds (sc_world sc) p c + run_holds (sc_running sc) p c"
  proof (unfold sc_claims_def set_append Un_iff, elim disjE)
    assume "(c, h, U) \<in> set (claims (sc_world sc))"
    then obtain p where "0 < w_holds (sc_world sc) p c" using claimed_held by blast
    with run_holds_nonneg [of "sc_running sc" p c] show ?thesis by (intro exI [of _ p]) simp
  next
    assume "(c, h, U) \<in> set (concat (map co_use (sc_running sc)))"
    then obtain co where co: "co \<in> set (sc_running sc)" "(c, h, U) \<in> set (co_use co)" by auto
    with assms(2) have "co_sane A co" by (auto simp: list_all_iff)
    from co_holds_use [OF this co(2)] obtain p where "0 < co_holds co p c" ..
    from sum_list_positive [where f = "\<lambda>co. co_holds co p c", OF co(1) this co_holds_nonneg]
      w_holds_nonneg [of "sc_world sc" p c]
    show ?thesis by (intro exI [of _ p]) (simp add: run_holds_def)
  qed
  then obtain p where "0 < w_holds (sc_world sc) p c + run_holds (sc_running sc) p c" ..
  moreover from assms(1) have "held p c (calls (app_vm (w_app (sc_world sc))))
      = w_holds (sc_world sc) p c + run_holds (sc_running sc) p c"
    by (simp add: scene_ok_def ledger_def)
  ultimately show "\<exists>q. held q c (calls (app_vm (w_app (sc_world sc)))) \<noteq> 0"
    by (intro exI [of _ p]) simp
qed

text \<open>No reference to the Client, no claim.\<close>

lemma unreferenced_run: "list_all (co_sane A) cos \<Longrightarrow> run_refs cos = 0 \<Longrightarrow> concat (map co_use cos) = []"
proof (induction cos)
  case (Cons co cos)
  then show ?case by (cases co) auto
qed simp

lemma unreferenced_all:
  assumes "list_all (ro_sane A) (w_results w)" and "list_all bo_sane (w_batches w)"
    and "list_all (co_sane A) cos" and "w_refs w + run_refs cos = 0"
  shows "claims w @ concat (map co_use cos) = []"
  using unreferenced_claims [OF assms(1,2)] unreferenced_run [OF assms(3)] assms(4) by simp

text \<open>A step that does not wait, beside the claims \<open>H\<close> of the coroutines.\<close>

lemma focus_result_in:
  assumes "wire s (claims w @ H)" and "w_results w = xs @ obj # ys"
  shows "wire s (ro_use obj @ claims (w\<lparr>w_results := xs @ ys\<rparr>) @ H)"
  by (rule wire_perm [OF assms(1)]) (use assms(2) in \<open>auto simp: claims_def\<close>)

lemma focus_batch_in:
  assumes "wire s (claims w @ H)" and "w_batches w = xs @ obj # ys"
  shows "wire s (bo_use obj @ claims (w\<lparr>w_batches := xs @ ys\<rparr>) @ H)"
  by (rule wire_perm [OF assms(1)]) (use assms(2) in \<open>auto simp: claims_def\<close>)

lemma prompt_step_wire:
  assumes st: "prompt_step A w w'" and w: "wire (app_vm (w_app w)) (claims w @ H)"
    and rs: "list_all (ro_sane A) (w_results w)" and bs: "list_all bo_sane (w_batches w)"
    and refs: "app_refs (w_app w) = w_refs w + n" and n: "n = 0 \<Longrightarrow> H = []"
    and lib: "lib_clean A" "abi_honours_verdict A"
  shows "wire (app_vm (w_app w')) (claims w' @ H) \<and> list_all (ro_sane A) (w_results w')
    \<and> list_all bo_sane (w_batches w')"
  using st
proof cases
  case (get_pool p a)
  from unnoticed_wire [OF client_getPool_wire [OF get_pool(3)]] get_pool w rs bs
  show ?thesis by (simp add: claims_def)
next
  case new_result
  with w rs bs show ?thesis
    by (simp add: claims_def ch_result_object_create_def ro_use_def ro_sane_def)
next
  case new_batch
  with w rs bs show ?thesis
    by (simp add: claims_def ch_batch_object_create_def bo_use_def bo_sane_def)
next
  case (result_call xs obj ys obj' s)
  from rs result_call(2) have sane: "ro_sane A obj" "list_all (ro_sane A) (xs @ ys)" by simp_all
  from result_method_wire [OF result_call(4) focus_result_in [OF w result_call(2)] sane(1) lib]
  have "wire s (ro_use obj' @ claims (w\<lparr>w_results := xs @ ys\<rparr>) @ H)" "ro_sane A obj'" by simp_all
  from wire_perm [OF this(1), of "claims w' @ H"] this(2) sane result_call(1) bs show ?thesis
    by (simp add: claims_def)
next
  case (batch_call xs obj ys obj' s)
  from bs batch_call(2) have sane: "bo_sane obj" "list_all bo_sane (xs @ ys)" by simp_all
  from batch_method_wire [OF batch_call(3) focus_batch_in [OF w batch_call(2)] sane(1)] batch_call(4)
  have "wire s (bo_use obj' @ claims (w\<lparr>w_batches := xs @ ys\<rparr>) @ H)" "bo_sane obj'" by simp_all
  from wire_perm [OF this(1), of "claims w' @ H"] this(2) sane batch_call(1) rs show ?thesis
    by (simp add: claims_def)
next
  case (free_result xs obj ys)
  let ?w = "w\<lparr>w_results := xs @ ys\<rparr>"
  from rs free_result(2) have sane: "ro_sane A obj" "list_all (ro_sane A) (xs @ ys)" by simp_all
  have "claims ?w @ H = []" if "ro_client obj" "app_refs (w_app w) = 1"
    using that refs free_result(2) sane bs n unreferenced_claims [of A ?w] by (auto simp: w_refs_def)
  from result_object_free_wire [OF focus_result_in [OF w free_result(2)] sane(1) lib(2) this]
    free_result(1) sane bs show ?thesis by (simp add: claims_def)
next
  case (free_batch xs obj ys)
  let ?w = "w\<lparr>w_batches := xs @ ys\<rparr>"
  from bs free_batch(2) have sane: "bo_sane obj" "list_all bo_sane (xs @ ys)" by simp_all
  have "claims ?w @ H = []" if "bo_client obj" "app_refs (w_app w) = 1"
    using that refs free_batch(2) sane rs n unreferenced_claims [of A ?w] by (auto simp: w_refs_def)
  from batch_object_free_wire [OF focus_batch_in [OF w free_batch(2)] lib(2) this]
    free_batch(1) sane rs show ?thesis by (simp add: claims_def)
next
  case drop_client
  let ?w = "w\<lparr>w_user := False\<rparr>"
  have "claims w @ H = []" if "app_refs (w_app w) = 1"
    using that refs drop_client(2) rs bs n unreferenced_claims [of A ?w] by (auto simp: w_refs_def claims_def)
  from obj_release_wire [OF w this] drop_client(1) rs bs show ?thesis by (simp add: claims_def)
qed

lemma hands_over_wire:
  assumes "hands_over A ret w w'" and "wire (app_vm (w_app w)) (ret_use ret @ claims w @ H)"
    and "list_all (ro_sane A) (w_results w)" and "list_all bo_sane (w_batches w)" and "ret_sane A ret"
    and "app_refs (w_app w) = w_refs w + ret_refs ret + n" and n: "n = 0 \<Longrightarrow> H = []"
  shows "wire (app_vm (w_app w')) (claims w' @ H) \<and> list_all (ro_sane A) (w_results w')
    \<and> list_all bo_sane (w_batches w')"
  using assms(1-6)
proof (induction rule: hands_over.induct)
  case (none w)
  have "claims w @ H = []" if "app_refs (w_app w) = 1"
    using that none n unreferenced_claims [of A w] by simp
  from obj_release_wire [where A = A and a = "w_app w" and H = "claims w @ H", OF _ this] none show ?case by (simp add: claims_def)
next
  case (result obj w)
  have "\<not> ro_client obj \<Longrightarrow> ro_use obj = []"
    using result(4) by (auto simp: ro_sane_def ro_use_def split: option.splits)
  then have "ro_use obj @ claims w @ H = []" if "app_refs (w_app w) = 1"
    using that result n unreferenced_claims [of A w] by (cases "ro_client obj") simp_all
  from obj_release_wire [where A = A and a = "w_app w" and H = "ro_use obj @ claims w @ H", OF _ this] result
  have "wire (app_vm (obj_release A (w_app w))) (ro_use obj @ claims w @ H)" by simp
  from wire_perm [OF this, of "claims (w\<lparr>w_results := w_results w @ [obj]\<rparr>) @ H"] result
  show ?case by (simp add: claims_def)
next
  case (batch bobj w)
  have "\<not> bo_client bobj \<Longrightarrow> bo_use bobj = []"
    using batch(4) by (auto simp: bo_sane_def bo_use_def split: option.splits)
  then have "bo_use bobj @ claims w @ H = []" if "app_refs (w_app w) = 1"
    using that batch n unreferenced_claims [of A w] by (cases "bo_client bobj") simp_all
  from obj_release_wire [where A = A and a = "w_app w" and H = "bo_use bobj @ claims w @ H", OF _ this] batch
  have "wire (app_vm (obj_release A (w_app w))) (bo_use bobj @ claims w @ H)" by simp
  from wire_perm [OF this, of "claims (w\<lparr>w_batches := w_batches w @ [bobj]\<rparr>) @ H"] batch
  show ?case by (simp add: claims_def)
next
  case (pulled w xs ys v obj)
  from wire_perm [OF pulled(2), of "claims (w\<lparr>w_results := xs @ obj # ys\<rparr>) @ H"] pulled
  show ?case by (simp add: claims_def)
next
  case (flushed w bs cs bobj)
  from wire_perm [OF flushed(2), of "claims (w\<lparr>w_batches := bs @ bobj # cs\<rparr>) @ H"] flushed
  show ?case by (simp add: claims_def)
qed

section \<open>Every interleaving keeps the protocol\<close>

text \<open>A coroutine flushes a batch whose connection an earlier flush broke.\<close>

definition flushes_broken :: "'w scene \<Rightarrow> bool" where
  "flushes_broken sc \<longleftrightarrow>
     (\<exists>bobj b. CoFlush bobj b SpBegin \<in> set (sc_running sc) \<and> bat_broken b)"

inductive careful_scene :: "'w ch_api \<Rightarrow> 'w scene \<Rightarrow> 'w scene \<Rightarrow> bool" for A sc where
  start: "careful_scene A sc sc"
| step: "careful_scene A sc sc1 \<Longrightarrow> scene_step A sc1 sc2 \<Longrightarrow> hands_out_free A sc1 \<Longrightarrow>
    \<not> flushes_broken sc2 \<Longrightarrow> careful_scene A sc sc2"

lemma scene_wireI:
  assumes "wire (app_vm (w_app (sc_world sc))) H" and "mset (sc_claims sc) = mset H"
    and "list_all (ro_sane A) (w_results (sc_world sc))" and "list_all bo_sane (w_batches (sc_world sc))"
    and "list_all (co_sane A) (sc_running sc)"
  shows "scene_wire A sc"
  using wire_perm [OF assms(1,2)] assms(3-5) by (simp add: scene_wire_def)

text \<open>The claim of the coroutine that goes on, in front of the others.\<close>

lemma focus_coroutine:
  assumes ok: "scene_ok sc" "scene_wire A sc" and run: "sc_running sc = us @ co # vs"
    and H: "H = claims (sc_world sc) @ concat (map co_use (us @ vs))"
  shows "wire (app_vm (w_app (sc_world sc))) (co_use co @ H)" and "co_sane A co"
    and "list_all (co_sane A) (us @ vs)" and "held_claims (app_vm (w_app (sc_world sc))) H"
proof -
  show "wire (app_vm (w_app (sc_world sc))) (co_use co @ H)"
    by (rule wire_perm [of _ "sc_claims sc"]) (use ok(2) run H in \<open>auto simp: scene_wire_def sc_claims_def\<close>)
  have "held_claims (app_vm (w_app (sc_world sc))) (sc_claims sc)"
    by (rule scene_held [OF ok(1), of A]) (use ok(2) in \<open>simp add: scene_wire_def\<close>)
  then show "held_claims (app_vm (w_app (sc_world sc))) H"
    using run H by (simp add: held_claims_def sc_claims_def)
qed (use ok(2) run in \<open>auto simp: scene_wire_def\<close>)

lemma wire_outside: "wire (s\<lparr>eg_exception := e, ext := x\<rparr>) H = wire s H"
  by (rule wire_frame) simp_all

lemma scene_step_wire:
  assumes st: "scene_step A sc sc'" and ok: "scene_ok sc" "scene_wire A sc"
    and free: "hands_out_free A sc" and careful: "\<not> flushes_broken sc'"
    and lib: "lib_clean A" "abi_honours_verdict A"
  shows "scene_wire A sc'"
proof -
  let ?w = "sc_world sc" and ?H = "concat (map co_use (sc_running sc))"
  have w: "wire (app_vm (w_app ?w)) (claims ?w @ ?H)" and rs: "list_all (ro_sane A) (w_results ?w)"
    and bs: "list_all bo_sane (w_batches ?w)" and cs: "list_all (co_sane A) (sc_running sc)"
    using ok(2) by (simp_all add: scene_wire_def sc_claims_def)
  have refs: "app_refs (w_app ?w) = w_refs ?w + run_refs (sc_running sc)"
    using ok(1) by (simp add: scene_ok_def ledger_def)
  from st show ?thesis
  proof cases
    case (prompt w')
    from prompt_step_wire [OF prompt(2) w rs bs refs unreferenced_run [OF cs] lib] prompt(1) cs
    show ?thesis by (simp add: scene_wire_def sc_claims_def)
  next
    case (call req)
    with w rs bs cs show ?thesis by (simp add: scene_wire_def sc_claims_def claims_def)
  next
    case (pull xs obj ys r use obj')
    from focus_result_in [OF w pull(2)] pull(3)
    have "wire (app_vm (w_app ?w)) (result_use r @ claims (?w\<lparr>w_results := xs @ ys\<rparr>) @ ?H)"
      by (simp add: ro_use_def)
    with rs bs cs pull enters_frame [OF pull(4)] show ?thesis
      by (intro scene_wireI) (auto simp: sc_claims_def ro_sane_def)
  next
    case (flush xs obj ys b)
    with careful have "\<not> bat_broken b" by (auto simp: flushes_broken_def)
    with focus_batch_in [OF w flush(2)] flush(2,3) bs
    have "wire (app_vm (w_app ?w)) ((bat_conn b, bat_client b, {SIdle})
        # claims (?w\<lparr>w_batches := xs @ ys\<rparr>) @ ?H)"
      by (simp add: bo_use_def batch_use_def insert_states_def bo_sane_def)
    with rs bs cs flush show ?thesis
      by (intro scene_wireI) (auto simp: sc_claims_def bo_sane_def send_states_def)
  next
    case (goes_on us co vs co' a)
    note f = focus_coroutine [OF ok goes_on(2) refl]
    from co_step_wire [OF goes_on(3) f(1,2) hands_out_freeD [OF free goes_on(2,3)] f(4) lib]
      goes_on(1) f(3) rs bs
    show ?thesis by (intro scene_wireI) (auto simp: sc_claims_def claims_def)
  next
    case (returns us co vs ret a w')
    note f = focus_coroutine [OF ok returns(2) refl]
    let ?w1 = "?w\<lparr>w_app := a\<rparr>" and ?n = "run_refs (us @ vs)"
    from co_step_wire [OF returns(3) f(1,2) hands_out_freeD [OF free returns(2,3)] f(4) lib]
    have w1: "wire (app_vm (w_app ?w1)) (ret_use ret @ claims ?w1 @ concat (map co_use (us @ vs)))"
      and sane: "ret_sane A ret"
      by (simp_all add: claims_def)
    from co_step_booked [OF returns(3) hands_out_freeD [OF free returns(2,3)]] refs returns(2)
    have r1: "app_refs (w_app ?w1) = w_refs ?w1 + ret_refs ret + ?n"
      by (simp add: co_booked_def w_refs_def)
    from hands_over_wire [OF returns(4) w1 _ _ sane r1 unreferenced_run [OF f(3)]] rs bs f(3) returns(1)
    show ?thesis by (simp add: scene_wire_def sc_claims_def)
  next
    case (others e x)
    with w rs bs cs show ?thesis
      by (simp add: scene_wire_def sc_claims_def claims_def wire_outside)
  qed
qed

lemma careful_scene_ok:
  assumes "careful_scene A sc sc'" and "scene_ok sc" and "scene_wire A sc"
    and "lib_clean A" and "abi_honours_verdict A"
  shows "scene_ok sc' \<and> scene_wire A sc'"
  using assms
proof (induction rule: careful_scene.induct)
  case (step sc1 sc2)
  then have "scene_ok sc1" "scene_wire A sc1" by simp_all
  with scene_step_ok [OF step(2) _ step(3)] scene_step_wire [OF step(2) _ _ step(3,4)] step(8,9)
  show ?case by simp
qed simp

lemma scene_start_ok: "calls s = [] \<Longrightarrow> scene_ok (scene_of (world_start obj s) [])"
  using world_ok_start [of s obj] by (simp add: scene_ok_def ledger_def world_ok_def)

lemma scene_start_wire:
  "calls s = [] \<Longrightarrow> conns s = Map.empty \<Longrightarrow> scene_wire A (scene_of (world_start obj s) [])"
  using wire_ok_start [of s A obj] by (simp add: scene_wire_def sc_claims_def wire_ok_def)

end
