(* ===== verification/Thm_Coroutine.thy ===== *)
theory Thm_Coroutine
  imports Thm_Insert Thm_Protocol Ch_Interleave
begin

text \<open>
  Properties of concurrent use: coroutines that are suspended in calls of the library while others
  run, and the one way of sharing a Batch that loses rows.
\<close>

section \<open>Every interleaving is in order\<close>

text \<open>
  C2. Careful concurrent use keeps to the wire protocol: however many coroutines use one Client, its
  Results and its Batches, wherever each of them is suspended and in whatever order they go on,
  provided that (a) no two of them are inside methods of the same Result or Batch, (b) a batch that
  broke is not flushed again, (c) the pool hands out no connection that is taken, and (d) a query
  fails with a server error or with one that poisons its connection, and delivered rows can be
  read: no library client is ever called out of order; no two suspended coroutines or live objects
  share a connection; a coroutine that waits in a call finds its client in the state the call
  needs; a Result has its own unread blocks on its connection; and every live connection nobody
  holds is unbroken and idle. Each of (a), (b) and (d) is needed: \<open>concurrent_flush\<close>,
  \<open>broken_batch_retried\<close> and \<open>other_failure_reused_dirty\<close> show what happens without it.
\<close>

theorem coroutine_safety:
  assumes "careful_scene A (scene_of (world_start obj s) []) sc" and "calls s = []"
    and "conns s = Map.empty" and "lib_clean A" and "abi_honours_verdict A"
  shows "session h (calls (app_vm (w_app (sc_world sc)))) \<noteq> SWrong
    \<and> distinct (map fst (sc_claims sc))
    \<and> (CoBegin r q \<in> set (sc_running sc) \<longrightarrow>
         session (res_client r) (calls (app_vm (w_app (sc_world sc)))) = SIdle)
    \<and> (CoPrime r \<in> set (sc_running sc) \<longrightarrow>
         session (res_client r) (calls (app_vm (w_app (sc_world sc)))) = SQuery)
    \<and> (CoPull use ro r \<in> set (sc_running sc) \<and> \<not> res_released r \<longrightarrow>
         session (res_client r) (calls (app_vm (w_app (sc_world sc)))) = SQuery)
    \<and> (CoInsert c h' p stmt names rows pt \<in> set (sc_running sc) \<or>
       CoFlush bo b pt \<in> set (sc_running sc) \<and> h' = bat_client b \<longrightarrow>
         session h' (calls (app_vm (w_app (sc_world sc)))) = (if pt = SpBegin then SIdle else SInsert))
    \<and> (ro \<in> set (w_results (sc_world sc)) \<and> ro_result ro = Some r \<and> \<not> res_released r \<longrightarrow>
         session (res_client r) (calls (app_vm (w_app (sc_world sc)))) = SQuery)
    \<and> (conns (app_vm (w_app (sc_world sc))) d = Some cl
         \<and> (\<forall>p. held p d (calls (app_vm (w_app (sc_world sc)))) = 0) \<longrightarrow>
         \<not> cl_broken cl \<and> session (cl_client cl) (calls (app_vm (w_app (sc_world sc)))) = SIdle)"
proof -
  let ?s = "app_vm (w_app (sc_world sc))"
  have ok: "scene_ok sc" "scene_wire A sc"
    using careful_scene_ok [OF assms(1) scene_start_ok [OF assms(2)] scene_start_wire [OF assms(2,3)] assms(4,5)]
    by simp_all
  from ok(2) have w: "wire ?s (sc_claims sc)" by (simp add: scene_wire_def)
  have running: "session h0 (calls ?s) \<in> U"
    if "co \<in> set (sc_running sc)" "(c0, h0, U) \<in> set (co_use co)" for co c0 h0 U
    using wire_claim(2) [OF w, of c0 h0 U] that by (auto simp: sc_claims_def)
  show ?thesis
  proof (intro conjI impI)
    show "session h (calls ?s) \<noteq> SWrong" by (rule wire_right [OF w])
    show "distinct (map fst (sc_claims sc))" by (rule wire_distinct [OF w])
    show "session (res_client r) (calls ?s) = SIdle" if "CoBegin r q \<in> set (sc_running sc)"
      using running [OF that] by simp
    show "session (res_client r) (calls ?s) = SQuery" if "CoPrime r \<in> set (sc_running sc)"
      using running [OF that] by simp
    show "session (res_client r) (calls ?s) = SQuery"
      if "CoPull use ro r \<in> set (sc_running sc) \<and> \<not> res_released r"
      using running [OF conjunct1 [OF that]] that by (simp add: result_use_def)
    show "session h' (calls ?s) = (if pt = SpBegin then SIdle else SInsert)"
      if "CoInsert c h' p stmt names rows pt \<in> set (sc_running sc) \<or>
        CoFlush bo b pt \<in> set (sc_running sc) \<and> h' = bat_client b"
      using that running by (fastforce simp: send_states_def)
    assume ro: "ro \<in> set (w_results (sc_world sc)) \<and> ro_result ro = Some r \<and> \<not> res_released r"
    then have "(res_conn r, res_client r, {SQuery}) \<in> set (sc_claims sc)"
      by (force simp: sc_claims_def claims_def ro_use_def result_use_def)
    with wire_claim(2) [OF w this] show "session (res_client r) (calls ?s) = SQuery" by simp
  next
    assume c: "conns ?s d = Some cl \<and> (\<forall>p. held p d (calls ?s) = 0)"
    have "held_claims ?s (sc_claims sc)"
      by (rule scene_held [OF ok(1), of A]) (use ok(2) in \<open>simp add: scene_wire_def\<close>)
    with c have "d \<notin> fst ` set (sc_claims sc)"
      by (force simp: held_claims_def)
    with wire_unclaimed [OF w] c show "\<not> cl_broken cl" and "session (cl_client cl) (calls ?s) = SIdle"
      by blast+
  qed
qed

text \<open>A library whose clients are numbered as they are opened, and two coroutines that insert.\<close>

definition ex_many_api :: "script ch_api" where
  "ex_many_api = ex_quiet_api
     \<lparr>cli_connect := \<lambda>opts tls verify (eg, w). (Inr (7 + length w), (eg, ([], Inr None) # w))\<rparr>"

lemma ex_many_ok: "lib_clean ex_many_api" "abi_honours_verdict ex_many_api"
  by (simp_all add: lib_clean_def abi_honours_verdict_def ex_many_api_def ex_quiet_api_def)

definition ex_vm_of :: "(nat \<Rightarrow> ch_client option) \<Rightarrow> nat \<Rightarrow> call list \<Rightarrow> script \<Rightarrow> script vm" where
  "ex_vm_of cs k l w = \<lparr>eg_exception = None, conns = cs, next_conn = k, calls = l, ext = w\<rparr>"

definition ex_app :: "bool \<Rightarrow> nat \<Rightarrow> script vm \<Rightarrow> script app" where
  "ex_app pool n s =
     \<lparr>app_client = (if pool then ch_client_object_create\<lparr>obj_pool := Some 1\<rparr> else ch_client_object_create),
      app_refs = n, app_vm = s\<rparr>"

definition ex_scene :: "script app \<Rightarrow> coroutine list \<Rightarrow> script scene" where
  "ex_scene a cos =
     \<lparr>sc_world = \<lparr>w_app = a, w_user = True, w_results = [], w_batches = []\<rparr>, sc_running = cos\<rparr>"

definition ex_req :: request where
  "ex_req = RInsert ''t'' [(KLong 0, ZString ''id''), (KLong 1, ZString ''name'')] ex_rows"

definition ex_cfg :: client_config where
  "ex_cfg = connection_config (ch_client_object_create\<lparr>obj_pool := Some 1\<rparr>) 0"

definition ex_stmt :: string where
  "ex_stmt = fst (ch_build_insert_statement ex_many_api ''t''
     [(KLong 0, ZString ''id''), (KLong 1, ZString ''name'')])"

lemma ex_many_sel [simp]:
  "zval_get_long ex_many_api = zval_get_long ex_api" "zval_get_string ex_many_api = zval_get_string ex_api"
  "lib_append ex_many_api = ex_append"
  "cli_begin_insert ex_many_api h stmt x = (Inr ex_sample, x)"
  "cli_send_insert_block ex_many_api h blk x = (Inr (), x)"
  "lib_append_column ex_many_api blk bc = None"
  "cli_connect ex_many_api opts tls verify (eg, w) = (Inr (7 + length w), (eg, ([], Inr None) # w))"
  "abi_new_pool ex_many_api m x = (Some 1, x)" "abi_acquire ex_many_api p accept x = (AcqNew, x)"
  by (simp_all add: ex_many_api_def ex_quiet_api_def) (simp_all add: ex_api_def)

lemma ex_statement: "ch_build_insert_statement ex_many_api ''t''
    [(KLong 0, ZString ''id''), (KLong 1, ZString ''name'')] = (ex_stmt, [''id'', ''name''])"
proof -
  have "snd (ch_build_insert_statement ex_many_api ''t''
      [(KLong 0, ZString ''id''), (KLong 1, ZString ''name'')]) = [''id'', ''name'']"
    by (simp add: ch_build_insert_statement_def append_field_def hash_values_def Let_def)
  then show ?thesis by (simp add: ex_stmt_def prod_eq_iff)
qed

abbreviation ex_co :: "nat \<Rightarrow> nat \<Rightarrow> send_point \<Rightarrow> coroutine" where
  "ex_co c h pt \<equiv> CoInsert c h 1 ex_stmt [''id'', ''name''] (hash_values ex_rows) pt"

lemma ex_prepare_many:
  "prepare_block ex_many_api k [''id'', ''name''] (hash_values ex_rows) ex_sample = Inr ex_block"
  by (simp add: prepare_block_def ex_sample_def block_types_def append_rows_def append_row_def
      ex_rows_def hash_values_def php_list_def add_next_index_def append_leaf_def ex_append_eqs
      build_block_def append_column_def ex_block_def upt_rec)

lemma ex_steps:
  "co_step ex_many_api (CoEnter r) (ex_app False n (ex_vm_of cs k l w))
     = (Waits (CoWait r 1), ex_app True n (ex_vm_of cs k (l @ [CNewPool 1 10]) w))"
  "co_step ex_many_api (CoEnter r) (ex_app True n s) = (Waits (CoWait r 1), ex_app True n s)"
  "co_step ex_many_api (CoWait r 1) (ex_app True n (ex_vm_of cs k l w))
     = (Waits (CoConnect r 1 ex_cfg), ex_app True n (ex_vm_of cs k l w))"
  "co_step ex_many_api (CoConnect ex_req 1 ex_cfg) (ex_app True n (ex_vm_of cs k l w))
     = (Waits (ex_co k (7 + length w) SpBegin),
        ex_app True n (ex_vm_of (cs(k \<mapsto> \<lparr>cl_client = 7 + length w, cl_broken = False\<rparr>)) (Suc k)
          (l @ [CConnect (client_options_of ex_cfg) False True (Some (7 + length w)), CAcquire 1 (Some k)])
          (([], Inr None) # w)))"
  "co_step ex_many_api (ex_co c h SpBegin) (ex_app True n (ex_vm_of cs k l w))
     = (Waits (ex_co c h (SpSend ex_block)),
        ex_app True n (ex_vm_of cs k (l @ [CBeginInsert h ex_stmt True]) w))"
  "co_step ex_many_api (ex_co c h (SpSend blk)) (ex_app True n (ex_vm_of cs k l w))
     = (Waits (ex_co c h SpEnd),
        ex_app True n (ex_vm_of cs k (l @ [CSendInsertBlock h blk True]) w))"
  subgoal
    by (simp add: ex_app_def ex_vm_of_def ch_pool_ensure_def ext_call_def log_call_def
        ch_client_object_create_def)
  subgoal by (simp add: ex_app_def ch_pool_ensure_def)
  subgoal
    by (simp add: ex_app_def ex_vm_of_def ext_call_def choose_start_def ex_cfg_def
        ch_client_object_create_def Let_def)
  subgoal
  proof -
    have tls: "\<not> cfg_tls ex_cfg" "cfg_tls_verify ex_cfg"
      by (simp_all add: ex_cfg_def connection_config_def ch_client_object_create_def)
    show ?thesis
      by (simp add: tls ex_app_def ex_vm_of_def ch_client_connect_def client_call_def ext_call_def
          log_call_def new_conn_def co_connected_def ex_req_def ex_statement Let_def)
  qed
  subgoal
    by (simp add: ex_app_def ex_vm_of_def client_call_def ext_call_def log_call_def ex_prepare_many)
  subgoal
    by (simp add: ex_app_def ex_vm_of_def client_call_def ext_call_def log_call_def)
  done

declare co_step.simps [simp del] One_nat_def [simp del]

text \<open>The run: the first coroutine gets as far as \<open>SendInsertBlock\<close>, and while it waits there the
  second one opens a connection of its own and gets as far.\<close>

lemma handout_none:
  "calls s' = calls s @ t \<Longrightarrow> (\<And>p c. CAcquire p (Some c) \<notin> set t) \<Longrightarrow> handout_ok s s'"
  unfolding handout_ok_def by auto

lemma handout_same: "handout_ok s s"
  by (rule handout_none [of _ _ "[]"]) simp_all

lemma ex_app_vm [simp]: "app_vm (ex_app pool n s) = s" "calls (ex_vm_of cs k l w) = l"
  "conns (ex_vm_of cs k l w) = cs"
  by (simp_all add: ex_app_def ex_vm_of_def)

lemma ex_scene_sel [simp]: "sc_running (ex_scene a cos) = cos" "w_app (sc_world (ex_scene a cos)) = a"
  "w_user (sc_world (ex_scene a cos))"
  by (simp_all add: ex_scene_def)

text \<open>The steps on which nothing is handed out, and the ones on which it is.\<close>

lemma ex_free_step:
  "handout_ok s (app_vm (snd (co_step ex_many_api (ex_co c h (SpSend blk)) (ex_app True n s))))"
  "handout_ok s (app_vm (snd (co_step ex_many_api (ex_co c h SpBegin) (ex_app True n s))))"
  "handout_ok s (app_vm (snd (co_step ex_many_api (CoEnter r) (ex_app pool n s))))"
  "handout_ok s (app_vm (snd (co_step ex_many_api (CoWait r 1) (ex_app True n s))))"
proof -
  obtain e cs k l w where "s = \<lparr>eg_exception = e, conns = cs, next_conn = k, calls = l, ext = w\<rparr>"
    by (cases s)
  then show "handout_ok s (app_vm (snd (co_step ex_many_api (ex_co c h (SpSend blk)) (ex_app True n s))))"
    "handout_ok s (app_vm (snd (co_step ex_many_api (ex_co c h SpBegin) (ex_app True n s))))"
    "handout_ok s (app_vm (snd (co_step ex_many_api (CoEnter r) (ex_app pool n s))))"
    "handout_ok s (app_vm (snd (co_step ex_many_api (CoWait r 1) (ex_app True n s))))"
    by (auto simp: co_step.simps ex_app_def client_call_def ext_call_def log_call_def ex_prepare_many
        ch_pool_ensure_def choose_start_def ch_client_object_create_def handout_same
        intro!: handout_none)
qed

lemma ex_free_connect:
  assumes "\<forall>q. held q k l = 0" and "\<forall>d cl. cs d = Some cl \<longrightarrow> cl_client cl \<noteq> 7 + length w"
  shows "handout_ok (ex_vm_of cs k l w)
    (app_vm (snd (co_step ex_many_api (CoConnect ex_req 1 ex_cfg) (ex_app True n (ex_vm_of cs k l w)))))"
  unfolding ex_steps(4) using assms by (auto simp: handout_ok_def)

lemma ex_hands_out:
  assumes "\<And>co. co \<in> set cos \<Longrightarrow> handout_ok (app_vm a) (app_vm (snd (co_step ex_many_api co a)))"
  shows "hands_out_free ex_many_api (ex_scene a cos)"
  using assms unfolding hands_out_free_def by (auto simp: ex_scene_def) (metis snd_conv)

lemma ex_call:
  assumes "careful_scene ex_many_api sc (ex_scene (ex_app pool n s) cos)"
    and "hands_out_free ex_many_api (ex_scene (ex_app pool n s) cos)"
    and "\<And>bo b. CoFlush bo b SpBegin \<notin> set cos"
  shows "careful_scene ex_many_api sc (ex_scene (ex_app pool (n + 1) s) (cos @ [CoEnter r]))"
proof (rule careful_scene.step [OF assms(1) _ assms(2)])
  show "scene_step ex_many_api (ex_scene (ex_app pool n s) cos)
      (ex_scene (ex_app pool (n + 1) s) (cos @ [CoEnter r]))"
    using scene_step.call [of "ex_scene (ex_app pool n s) cos" ex_many_api r]
    by (simp add: ex_scene_def ex_app_def)
  show "\<not> flushes_broken (ex_scene (ex_app pool (n + 1) s) (cos @ [CoEnter r]))"
    using assms(3) by (simp add: flushes_broken_def)
qed

lemma ex_goes_on:
  assumes "careful_scene ex_many_api sc (ex_scene a (us @ [co]))"
    and "co_step ex_many_api co a = (Waits co', a')"
    and "\<And>x. x \<in> set (us @ [co]) \<Longrightarrow> handout_ok (app_vm a) (app_vm (snd (co_step ex_many_api x a)))"
    and "\<And>bo b. CoFlush bo b SpBegin \<notin> set (us @ [co'])"
  shows "careful_scene ex_many_api sc (ex_scene a' (us @ [co']))"
proof (rule careful_scene.step [OF assms(1) _ ex_hands_out [OF assms(3)]])
  show "scene_step ex_many_api (ex_scene a (us @ [co])) (ex_scene a' (us @ [co']))"
    using scene_step.goes_on [of "ex_scene a (us @ [co])" us co "[]" ex_many_api co' a'] assms(2)
    by (simp add: ex_scene_def)
  show "\<not> flushes_broken (ex_scene a' (us @ [co']))"
    using assms(4) by (simp add: flushes_broken_def)
qed

text \<open>One coroutine from its start to \<open>SendInsertBlock\<close>, beside coroutines that wait there.\<close>

lemma ex_insert_run:
  assumes run: "careful_scene ex_many_api sc (ex_scene (ex_app pool n (ex_vm_of cs k l w)) us)"
    and us: "\<And>co. co \<in> set us \<Longrightarrow> \<exists>c h blk. co = ex_co c h (SpSend blk)" and "pool \<or> us = []"
    and free: "\<forall>q. held q k l = 0" and other: "\<forall>d cl. cs d = Some cl \<longrightarrow> cl_client cl \<noteq> 7 + length w"
  shows "careful_scene ex_many_api sc
    (ex_scene (ex_app True (n + 1) (ex_vm_of (cs(k \<mapsto> \<lparr>cl_client = 7 + length w, cl_broken = False\<rparr>)) (Suc k)
        (l @ (if pool then [] else [CNewPool 1 10])
           @ [CConnect (client_options_of ex_cfg) False True (Some (7 + length w)), CAcquire 1 (Some k),
              CBeginInsert (7 + length w) ex_stmt True]) (([], Inr None) # w)))
      (us @ [ex_co k (7 + length w) (SpSend ex_block)]))"
proof -
  let ?l = "l @ (if pool then [] else [CNewPool 1 10])"
  have nof: "CoFlush bo b SpBegin \<notin> set us" for bo b using us by blast
  have fr: "handout_ok s (app_vm (snd (co_step ex_many_api co (ex_app True m s))))"
    if "co \<in> set us" for co m s using us [OF that] ex_free_step(1) by blast
  have free': "\<forall>q. held q k ?l = 0" using free by simp
  have "careful_scene ex_many_api sc (ex_scene (ex_app pool (n + 1) (ex_vm_of cs k l w)) (us @ [CoEnter ex_req]))"
    by (rule ex_call [OF run]) (use nof assms(3) fr in \<open>auto intro!: ex_hands_out\<close>)
  then have "careful_scene ex_many_api sc (ex_scene (ex_app True (n + 1) (ex_vm_of cs k ?l w)) (us @ [CoWait ex_req 1]))"
    by (rule ex_goes_on) (use nof assms(3) fr ex_free_step(3) handout_same in \<open>auto simp: ex_steps(1,2)\<close>)
  then have "careful_scene ex_many_api sc
      (ex_scene (ex_app True (n + 1) (ex_vm_of cs k ?l w)) (us @ [CoConnect ex_req 1 ex_cfg]))"
    by (rule ex_goes_on [OF _ ex_steps(3)]) (use nof fr ex_free_step(4) in auto)
  then have "careful_scene ex_many_api sc (ex_scene (ex_app True (n + 1)
      (ex_vm_of (cs(k \<mapsto> \<lparr>cl_client = 7 + length w, cl_broken = False\<rparr>)) (Suc k)
        (?l @ [CConnect (client_options_of ex_cfg) False True (Some (7 + length w)), CAcquire 1 (Some k)])
        (([], Inr None) # w))) (us @ [ex_co k (7 + length w) SpBegin]))"
    by (rule ex_goes_on [OF _ ex_steps(4)]) (use nof fr ex_free_connect [OF free' other] in auto)
  then have "careful_scene ex_many_api sc (ex_scene (ex_app True (n + 1)
      (ex_vm_of (cs(k \<mapsto> \<lparr>cl_client = 7 + length w, cl_broken = False\<rparr>)) (Suc k)
        ((?l @ [CConnect (client_options_of ex_cfg) False True (Some (7 + length w)), CAcquire 1 (Some k)])
          @ [CBeginInsert (7 + length w) ex_stmt True])
        (([], Inr None) # w))) (us @ [ex_co k (7 + length w) (SpSend ex_block)]))"
    by (rule ex_goes_on [OF _ ex_steps(5)]) (use nof fr ex_free_step(2) in auto)
  then show ?thesis by simp
qed

theorem coroutine_safety_witness:
  "\<exists>sc. careful_scene ex_many_api (scene_of (world_start ch_client_object_create ex_fresh_vm) []) sc
     \<and> sc_running sc = [ex_co 1 7 (SpSend ex_block), ex_co 2 8 (SpSend ex_block)]
     \<and> session 7 (calls (app_vm (w_app (sc_world sc)))) = SInsert
     \<and> session 8 (calls (app_vm (w_app (sc_world sc)))) = SInsert"
proof -
  let ?start = "scene_of (world_start ch_client_object_create ex_fresh_vm) []"
  have start: "?start = ex_scene (ex_app False 1 (ex_vm_of Map.empty 1 [] [])) []"
    by (simp add: scene_of_def world_start_def ex_scene_def ex_app_def ex_vm_of_def ex_fresh_vm_def)
  have "careful_scene ex_many_api ?start (ex_scene (ex_app False 1 (ex_vm_of Map.empty 1 [] [])) [])"
    unfolding start by (rule careful_scene.start)
  from ex_insert_run [OF this]
  have one: "careful_scene ex_many_api ?start (ex_scene (ex_app True 2
      (ex_vm_of [1 \<mapsto> \<lparr>cl_client = 7, cl_broken = False\<rparr>] 2
        [CNewPool 1 10, CConnect (client_options_of ex_cfg) False True (Some 7), CAcquire 1 (Some 1),
         CBeginInsert 7 ex_stmt True] [([], Inr None)])) [ex_co 1 7 (SpSend ex_block)])"
    by simp
  have "\<forall>d cl. [1 \<mapsto> \<lparr>cl_client = 7, cl_broken = False\<rparr>] d = Some cl \<longrightarrow>
      cl_client cl \<noteq> 7 + length [([] :: packet list, Inr None :: cxx_exn + block option)]"
    by simp
  from ex_insert_run [OF one _ _ _ this] obtain a where run: "careful_scene ex_many_api ?start
      (ex_scene a [ex_co 1 7 (SpSend ex_block), ex_co 2 8 (SpSend ex_block)])"
    by auto
  let ?sc = "ex_scene a [ex_co 1 7 (SpSend ex_block), ex_co 2 8 (SpSend ex_block)]"
  note safe = coroutine_safety [OF run _ _ ex_many_ok]
  have "session 7 (calls (app_vm (w_app (sc_world ?sc)))) = SInsert"
    using safe [where h' = 7 and c = 1 and p = 1 and stmt = ex_stmt and names = "[''id'', ''name'']"
        and rows = "hash_values ex_rows" and pt = "SpSend ex_block"]
    by (simp add: ex_fresh_vm_def)
  moreover have "session 8 (calls (app_vm (w_app (sc_world ?sc)))) = SInsert"
    using safe [where h' = 8 and c = 2 and p = 1 and stmt = ex_stmt and names = "[''id'', ''name'']"
        and rows = "hash_values ex_rows" and pt = "SpSend ex_block"]
    by (simp add: ex_fresh_vm_def)
  ultimately show ?thesis using run by (intro exI [of _ ?sc]) simp
qed

section \<open>One after the other\<close>

text \<open>Any sequence of calls of PHP code on a Client and its objects is a run of coroutines one after
  the other, whatever coroutines are suspended meanwhile.\<close>

theorem sequential_interleaving:
  assumes "world_run A (world_start obj s) w" and "calls s = []"
  shows "scene_run A (scene_of (world_start obj s) cos) (scene_of w cos)"
  by (rule world_run_scene [OF assms(1) world_ok_start [OF assms(2)]])

section \<open>Sharing a batch\<close>

text \<open>
  C4. A coroutine appends a row to a batch while another one waits in the \<open>SendInsertBlock\<close> or the
  \<open>EndInsert\<close> of its flush: the row is accepted and buffered, the block that is being sent was
  built without it, and when the flush succeeds it empties the buffer with the row in it. The row
  is lost, and both calls report success.
\<close>

theorem append_during_flush:
  assumes build: "flush_step A b SpBegin s = (Waits (SpSend blk), b1, s1)"
    and append: "ch_batch_append b1 row s2 = (True, b2, s3)"
    and send: "flush_step A b2 (SpSend blk) s3 = (Waits SpEnd, b3, s4)"
    and close: "flush_step A b3 SpEnd s5 = (Done True, b4, s6)"
  shows "hash_values (bat_pending b2) = hash_values (bat_pending b) @ [row]
    \<and> (\<exists>sample. prepare_block A (length (calls s1)) (bat_names b) (hash_values (bat_pending b)) sample = Inr blk)
    \<and> calls s4 = calls s3 @ [CSendInsertBlock (bat_client b) blk True]
    \<and> calls s6 = calls s5 @ [CEndInsert (bat_client b) True]
    \<and> bat_pending b4 = [] \<and> eg_exception s3 = eg_exception s2"
proof -
  from build have b1: "b1 = b"
    by (auto simp: flush_step_def split: prod.splits progress.splits bool.splits)
  from build obtain sample where
    p: "prepare_block A (length (calls s1)) (bat_names b) (hash_values (bat_pending b)) sample = Inr blk"
    by (auto simp: flush_step_def send_failed_def
        split: prod.splits progress.splits bool.splits sum.splits if_splits)
  from append b1 have b2: "b2 = b\<lparr>bat_pending := add_next_index (bat_pending b) row\<rparr>" "s3 = s2"
    by (auto simp: ch_batch_append_def split: zval.splits if_splits)
  from send b2 have b3: "b3 = b2" and s4: "calls s4 = calls s3 @ [CSendInsertBlock (bat_client b) blk True]"
    by (auto simp: flush_step_def send_failed_def client_call_def
        split: prod.splits progress.splits bool.splits sum.splits if_splits dest!: ext_call_frame)
  from close b3 b2 have "bat_pending b4 = []" "calls s6 = calls s5 @ [CEndInsert (bat_client b) True]"
    by (auto simp: flush_step_def send_failed_def client_call_def
        split: prod.splits progress.splits bool.splits sum.splits if_splits dest!: ext_call_frame)
  with p b2 s4 show ?thesis by (auto simp: hash_values_def add_next_index_def)
qed

definition ex_row :: zval where
  "ex_row = php_list [ZLong 3, ZString ''c'']"

theorem append_during_flush_witness:
  "\<exists>b4 s6. flush_step ex_api (ex_batch\<lparr>bat_pending := add_next_index ex_rows ex_row\<rparr>) SpEnd
       ((ex_vm [])\<lparr>calls := [CBeginInsert 7 ''INSERT'' True, CSendInsertBlock 7 ex_block True]\<rparr>)
       = (Done True, b4, s6) \<and> bat_pending b4 = []"
proof -
  let ?s = "\<lambda>l. (ex_vm [])\<lparr>calls := l\<rparr>"
  let ?b = "ex_batch\<lparr>bat_pending := add_next_index ex_rows ex_row\<rparr>"
  have build: "flush_step ex_api ex_batch SpBegin (?s [])
      = (Waits (SpSend ex_block), ex_batch, ?s [CBeginInsert 7 ''INSERT'' True])"
    by (simp add: flush_step_def ex_batch_def client_call_def ext_call_def log_call_def ex_prepare ex_vm_def)
  have append: "ch_batch_append ex_batch ex_row (?s [CBeginInsert 7 ''INSERT'' True])
      = (True, ?b, ?s [CBeginInsert 7 ''INSERT'' True])"
    by (simp add: ch_batch_append_def ex_batch_def ex_row_def php_list_def add_next_index_def)
  have send: "flush_step ex_api ?b (SpSend ex_block) (?s [CBeginInsert 7 ''INSERT'' True])
      = (Waits SpEnd, ?b, ?s [CBeginInsert 7 ''INSERT'' True, CSendInsertBlock 7 ex_block True])"
    by (simp add: flush_step_def ex_batch_def client_call_def ext_call_def log_call_def ex_vm_def)
  obtain b4 s6 where close: "flush_step ex_api ?b SpEnd
      (?s [CBeginInsert 7 ''INSERT'' True, CSendInsertBlock 7 ex_block True]) = (Done True, b4, s6)"
    by (simp add: flush_step_def ex_batch_def client_call_def ext_call_def log_call_def ex_vm_def)
  from append_during_flush [OF build append send close] close show ?thesis by auto
qed

lemma flush_step_begin:
  assumes "flush_step A b SpBegin s = (x, b1, s1)"
  shows "(\<exists>ok. calls s1 = calls s @ [CBeginInsert (bat_client b) (bat_statement b) ok])
    \<and> (\<forall>pt. x = Waits pt \<longrightarrow> b1 = b)"
proof (cases rule: client_call_cases [of "\<lambda>r. CBeginInsert (bat_client b) (bat_statement b) (is_ok r)"
      "cli_begin_insert A (bat_client b) (bat_statement b)" s])
  case (error e s')
  with assms show ?thesis
    by (auto simp: flush_step_def send_failed_def split: if_splits)
next
  case (normal sample s')
  with assms show ?thesis
    by (auto simp: flush_step_def send_failed_def split: if_splits sum.splits)
qed

text \<open>Two coroutines that flush the same batch: the second \<open>BeginInsert\<close> reaches the client in the
  middle of the insert of the first.\<close>

theorem concurrent_flush:
  assumes "flush_step A b SpBegin s = (Waits pt, b1, s1)" and "session (bat_client b) (calls s) = SIdle"
    and "flush_step A b1 SpBegin s1 = (x, b2, s2)"
  shows "session (bat_client b) (calls s2) = SWrong"
proof -
  from flush_step_begin [OF assms(1)] obtain ok where b1: "b1 = b"
    and s1: "calls s1 = calls s @ [CBeginInsert (bat_client b) (bat_statement b) ok]"
    by auto
  from flush_step_begin [OF assms(3)] b1 obtain ok' where
    "calls s2 = calls s1 @ [CBeginInsert (bat_client b) (bat_statement b) ok']"
    by auto
  with s1 assms(2) show ?thesis by (simp add: session_append)
qed

end
