(* ===== verification/Ch_Table.thy ===== *)
theory Ch_Table
  imports Ch_Rows Ch_Roundtrip
begin

text \<open>
  A block that was sent, read back: what \<open>ch_send_block\<close> built for the rows of an insert gives
  the same rows, keyed by column name, when a query delivers it.
\<close>

text \<open>The values of a row, and a row as the result hands it out.\<close>

fun row_values :: "zval \<Rightarrow> zval list" where
  "row_values (ZArray kvs) = hash_values kvs"
| "row_values v = []"

definition named_row :: "string list \<Rightarrow> zval \<Rightarrow> zval" where
  "named_row names row = ZArray (zip (map KStr names) (row_values row))"

text \<open>Every value of the row is one its column gives back.\<close>

definition storable_row :: "('a) ch_env_scheme \<Rightarrow> block_column list \<Rightarrow> zval \<Rightarrow> bool" where
  "storable_row E cols row \<longleftrightarrow> list_all2 (\<lambda>(n, t, c) v. storable E t v) cols (row_values row)"

lemma enc_members_nth:
  "enc_members many few fs vs = Inr xs \<Longrightarrow>
    length fs = length vs \<and> length xs = length vs \<and> (\<forall>j < length vs. (fs ! j) (vs ! j) = Inr (xs ! j))"
proof (induction many few fs vs arbitrary: xs rule: enc_members.induct)
  case (4 many few f fs v vs)
  then show ?case by (force simp: nth_Cons less_Suc_eq_0_disj split: nat.splits)
qed simp_all

lemma enc_row_nth:
  assumes "enc_row E ts row = Inr r"
  shows "length r = length ts \<and> length (row_values row) = length ts
    \<and> (\<forall>j < length ts. enc E (ts ! j) (row_values row ! j) = Inr (r ! j))"
proof (cases row)
  case (ZArray kvs)
  with assms have "enc_members row_too_many row_too_few (map (enc E) ts) (hash_values kvs) = Inr r"
    by (simp add: enc_row_def)
  from enc_members_nth [OF this] show ?thesis
    unfolding ZArray row_values.simps by (metis length_map nth_map)
qed (use assms in \<open>simp_all add: enc_row_def\<close>)

lemma sent_row_reads:
  assumes "php_api_ok E" and "lib_stores E"
    and "length ts = length names" and "length data = length names" and "distinct names"
    and "enc_row E ts row = Inr r"
    and "\<And>j. j < length ts \<Longrightarrow> col_cells (ts ! j) (data ! j) ! i = r ! j"
    and "storable_row E (zip names (zip ts data)) row"
  shows "block_row E \<lparr>blk_cols = zip names (zip ts data), blk_rows = n\<rparr> i = Inr (named_row names row)"
proof -
  let ?cols = "zip names (zip ts data)"
  from enc_row_nth [OF assms(6)] have len: "length (row_values row) = length ts"
    and e: "\<And>j. j < length ts \<Longrightarrow> enc E (ts ! j) (row_values row ! j) = Inr (r ! j)" by auto
  have st: "storable E (ts ! j) (row_values row ! j)" if "j < length ts" for j
    using assms(3,4,8) that by (auto simp: storable_row_def list_all2_conv_all_nth)
  have "dec E (ts ! j) (r ! j) = Inr (row_values row ! j)" if "j < length ts" for j
    using storable_roundtrip [OF assms(1,2) st [OF that]] e [OF that] by auto
  then have "map_res (\<lambda>(n, t, c). dec E t (col_cells t c ! i)) ?cols = Inr (row_values row)"
    using assms(3,4,7) len by (simp add: map_res_Inr_iff list_all2_conv_all_nth)
  moreover have "map (\<lambda>(n, t, c). KStr n) ?cols = map KStr names"
    using assms(3,4) by (intro nth_equalityI) simp_all
  moreover have "map fst ?cols = names" using assms(3,4) by simp
  ultimately show ?thesis
    using block_row_distinct [of "\<lparr>blk_cols = ?cols, blk_rows = n\<rparr>" E i] assms(5)
    by (simp add: named_row_def)
qed

lemma sent_block_reads:
  assumes "php_api_ok A" and "lib_stores A" and "ch_lib_ok A" and "lib_block_ok A" and "lib_samples_ok A"
    and "ch_send_block A h stmt names rows broken s = ((ok, broken'), s')"
    and "fst (begin_insert A h stmt s) = Inr sample" and "one_cloned_map (block_types sample)"
    and "calls s' = calls s @ t" and "CSendInsertBlock h cols b \<in> set t"
    and "distinct names" and "list_all (storable_row A cols) (hash_values rows)"
  shows "wf_block \<lparr>blk_cols = cols, blk_rows = length rows\<rparr>
    \<and> block_values A \<lparr>blk_cols = cols, blk_rows = length rows\<rparr>
      = Inr (map (named_row names) (hash_values rows))"
proof -
  define ts where "ts = block_types sample"
  from ch_send_block_sends [OF assms(3-10)] obtain data R where
    cols: "cols = zip names (zip ts data)" and ts: "length ts = length names"
    and R: "enc_rows A ts (hash_values rows) = Inr R" "length R = length rows"
    and h: "holds_rows ts data R" and sized: "list_all sized_type ts"
    by (metis ts_def length_block_types)
  from h have data: "length data = length ts"
    and wf: "\<And>j. j < length ts \<Longrightarrow> wf_col (ts ! j) (length rows) (data ! j)"
    and cells: "\<And>j. j < length ts \<Longrightarrow> col_cells (ts ! j) (data ! j) = map (\<lambda>r. r ! j) R"
    using R(2) by (auto simp: holds_rows_def list_all2_conv_all_nth)
  have "wf_block \<lparr>blk_cols = cols, blk_rows = length rows\<rparr>"
    using sized wf ts data by (auto simp: wf_block_def cols list_all_length)
  moreover have "block_row A \<lparr>blk_cols = cols, blk_rows = length rows\<rparr> i
      = Inr (named_row names (hash_values rows ! i))" if i: "i < length rows" for i
    unfolding cols
  proof (rule sent_row_reads [OF assms(1,2) ts _ assms(11)])
    show "enc_row A ts (hash_values rows ! i) = Inr (R ! i)"
      using R i by (auto simp: enc_rows_def map_res_Inr_iff list_all2_conv_all_nth)
    show "storable_row A (zip names (zip ts data)) (hash_values rows ! i)"
      using assms(12) i by (simp add: cols list_all_length)
  qed (use cells data ts R(2) i in simp_all)
  then have "block_values A \<lparr>blk_cols = cols, blk_rows = length rows\<rparr>
      = Inr (map (named_row names) (hash_values rows))"
    by (simp add: block_values_def map_res_Inr_iff list_all2_conv_all_nth)
  ultimately show ?thesis by simp
qed

end
