(* ===== verification/Thm_Table.thy ===== *)
theory Thm_Table
  imports Thm_Insert Ch_Table
begin

text \<open>Inserting rows and selecting them, from end to end.\<close>

text \<open>
  C5. A table gives back the storable rows that were inserted into it: if an insert sent the rows as
  a block, every value of which is storable, and a query delivers that block, \<open>fetchAll()\<close> returns
  exactly the inserted rows, in order, each value under the name of its column. Storable values are
  integers in range, floats, booleans, Strings, canonical UUIDs,
  times at the resolution and in the range of their column, nested in lists, tuples, maps and
  Nullables in any way; not integers that wrap, and not FixedString, Enum, Decimal, IPv4 and IPv6.
  The column names are distinct, and the Map columns below Arrays and Maps are of one type.
\<close>

theorem table_roundtrip:
  assumes "php_api_ok A" and "lib_stores A" and "ch_lib_ok A" and "lib_block_ok A" and "lib_samples_ok A"
    and "ch_send_block A h stmt names rows broken s = ((ok, broken'), s1)"
    and "fst (begin_insert A h stmt s) = Inr sample" and "one_cloned_map (block_types sample)"
    and "calls s1 = calls s @ t" and "CSendInsertBlock h cols b \<in> set t"
    and "distinct names" and "list_all (storable_row A cols) (hash_values rows)"
    and "cli_begin_execute A h' (ch_apply_params_settings A
        \<lparr>q_text = c_str sql, q_params = [], q_settings = []\<rparr> params settings) (eg_exception s2, ext s2)
      = ((pks0, Inr ()), x1)"
    and "delivers A h' x1 [\<lparr>blk_cols = cols, blk_rows = length rows\<rparr>] pks"
  shows "\<exists>r s3 obj s4. ch_result_start A c h' p sql params settings s2 = Some (Some r, s3)
    \<and> result_fetchAll A (ch_result_object_create\<lparr>ro_result := Some r, ro_client := True\<rparr>) s3
        = Some (php_list (map (named_row names) (hash_values rows)), obj, s4)"
proof -
  from sent_block_reads [OF assms(1-12)] have
    "list_all wf_block [\<lparr>blk_cols = cols, blk_rows = length rows\<rparr>]"
    "map_res (block_values A) [\<lparr>blk_cols = cols, blk_rows = length rows\<rparr>]
      = Inr [map (named_row names) (hash_values rows)]"
    by simp_all
  from ch_result_start_yields [OF assms(13,14) this, of c p] obtain r s3 where
    r: "ch_result_start A c h' p sql params settings s2 = Some (Some r, s3)"
    and y: "result_yields A (fold on_packet (pks0 @ pks) empty_summary) (r, s3)
      (concat [map (named_row names) (hash_values rows)])"
    by blast
  from fetchAll_drained [of "ch_result_object_create\<lparr>ro_result := Some r, ro_client := True\<rparr>", OF _ y] r
  show ?thesis by fastforce
qed

definition ex_table_script :: script where
  "ex_table_script = [([], Inr (Some \<lparr>blk_cols = ex_block, blk_rows = length ex_rows\<rparr>)), ([], Inr None)]"

lemma ex_table_delivers:
  "delivers ex_api 7 (None, ex_table_script) [\<lparr>blk_cols = ex_block, blk_rows = length ex_rows\<rparr>] []"
proof -
  have "delivers ex_api 7 (None, [([], Inr None)]) [] []"
    by (rule no_more [where x' = "(None, [])"]) simp
  from one_more [OF _ this, of "(None, ex_table_script)" "[]"
      "\<lparr>blk_cols = ex_block, blk_rows = length ex_rows\<rparr>"] show ?thesis
    by (simp add: ex_table_script_def)
qed

theorem table_roundtrip_witness:
  "\<exists>r s3 obj s4. ch_result_start ex_api 0 7 1 ''SELECT'' None None (ex_vm ex_table_script) = Some (Some r, s3)
    \<and> result_fetchAll ex_api (ch_result_object_create\<lparr>ro_result := Some r, ro_client := True\<rparr>) s3
        = Some (php_list [ZArray [(KStr ''id'', ZLong 1), (KStr ''name'', ZString ''a'')],
            ZArray [(KStr ''id'', ZLong 2), (KStr ''name'', ZString ''b'')]], obj, s4)"
proof -
  let ?t = "[CBeginInsert 7 ''INSERT'' True, CSendInsertBlock 7 ex_block True, CEndInsert 7 True]"
  have "calls ((ex_vm [])\<lparr>calls := ?t\<rparr>) = calls (ex_vm []) @ ?t"
    and "CSendInsertBlock 7 ex_block True \<in> set ?t" and "distinct [''id'', ''name'']"
    by (simp_all add: ex_vm_def)
  moreover have "list_all (storable_row ex_api ex_block) (hash_values ex_rows)"
    by (simp add: storable_row_def ex_rows_def ex_block_def hash_values_def php_list_def add_next_index_def)
  moreover have "cli_begin_execute ex_api 7 q (eg_exception (ex_vm ex_table_script), ext (ex_vm ex_table_script))
      = (([], Inr ()), (None, ex_table_script))" for q
    by (simp add: ex_vm_def)
  moreover have "map (named_row [''id'', ''name'']) (hash_values ex_rows)
      = [ZArray [(KStr ''id'', ZLong 1), (KStr ''name'', ZString ''a'')],
         ZArray [(KStr ''id'', ZLong 2), (KStr ''name'', ZString ''b'')]]"
    by (simp add: named_row_def ex_rows_def hash_values_def php_list_def add_next_index_def)
  moreover have "fst (begin_insert ex_api 7 ''INSERT'' (ex_vm [])) = Inr ex_sample"
    by (simp add: client_call_def ext_call_def)
  ultimately show ?thesis
    using table_roundtrip [OF ex_php_api_ok ex_lib_stores ex_ch_lib_ok ex_lib_block_ok ex_lib_samples_ok
        ex_send [of "''INSERT''" "[]"] _ ex_one_cloned_map, of ?t ex_block True 7 "''SELECT''" None None
        "ex_vm ex_table_script" "[]" "(None, ex_table_script)" "[]" 0 1] ex_table_delivers
    by metis
qed

end
