(* ===== verification/Ch_Typed.thy ===== *)
theory Ch_Typed
  imports Ch_Columns
begin

text \<open>
  The PHP type of what \<open>ch_column_value_to_zval\<close> produces, as a function of the column type.
\<close>

text \<open>\<open>is_list ht\<close>: the keys are 0, 1, 2, \<dots>, in order.\<close>

definition is_list :: "hash_table \<Rightarrow> bool" where
  "is_list ht \<longleftrightarrow> ZArray ht = php_list (hash_values ht)"

fun leaf_typed :: "leaf_code \<Rightarrow> zval \<Rightarrow> bool" where
  "leaf_typed TUInt64 v = (case v of ZLong n \<Rightarrow> 0 \<le> sint n | ZDouble d \<Rightarrow> True | _ \<Rightarrow> False)"
| "leaf_typed TFloat32 v = (case v of ZDouble d \<Rightarrow> True | _ \<Rightarrow> False)"
| "leaf_typed TFloat64 v = (case v of ZDouble d \<Rightarrow> True | _ \<Rightarrow> False)"
| "leaf_typed TBool v = (case v of ZBool b \<Rightarrow> True | _ \<Rightarrow> False)"
| "leaf_typed TInt8 v = (case v of ZLong n \<Rightarrow> True | _ \<Rightarrow> False)"
| "leaf_typed TInt16 v = (case v of ZLong n \<Rightarrow> True | _ \<Rightarrow> False)"
| "leaf_typed TInt32 v = (case v of ZLong n \<Rightarrow> True | _ \<Rightarrow> False)"
| "leaf_typed TInt64 v = (case v of ZLong n \<Rightarrow> True | _ \<Rightarrow> False)"
| "leaf_typed TUInt8 v = (case v of ZLong n \<Rightarrow> 0 \<le> sint n \<and> sint n < 2 ^ 8 | _ \<Rightarrow> False)"
| "leaf_typed TUInt16 v = (case v of ZLong n \<Rightarrow> 0 \<le> sint n \<and> sint n < 2 ^ 16 | _ \<Rightarrow> False)"
| "leaf_typed TUInt32 v = (case v of ZLong n \<Rightarrow> 0 \<le> sint n \<and> sint n < 2 ^ 32 | _ \<Rightarrow> False)"
| "leaf_typed TDate v = (case v of ZDateTime s u \<Rightarrow> u = 0 | _ \<Rightarrow> False)"
| "leaf_typed TDate32 v = (case v of ZDateTime s u \<Rightarrow> u = 0 | _ \<Rightarrow> False)"
| "leaf_typed TDateTime v = (case v of ZDateTime s u \<Rightarrow> u = 0 | _ \<Rightarrow> False)"
| "leaf_typed (TDateTime64 p) v = (case v of ZDateTime s u \<Rightarrow> True | _ \<Rightarrow> False)"
| "leaf_typed TLowCardinality v = (case v of ZString s \<Rightarrow> True | ZNull \<Rightarrow> True | _ \<Rightarrow> False)"
| "leaf_typed (TOther n) v = (v = ZNull)"
| "leaf_typed lc v = (case v of ZString s \<Rightarrow> True | _ \<Rightarrow> False)"

primrec php_typed :: "ch_type \<Rightarrow> zval \<Rightarrow> bool" where
  "php_typed (Leaf lc) v = leaf_typed lc v"
| "php_typed (Nullable t) v = (v = ZNull \<or> php_typed t v)"
| "php_typed (ArrayT t) v =
     (case v of ZArray ht \<Rightarrow> is_list ht \<and> list_all (php_typed t) (hash_values ht) | _ \<Rightarrow> False)"
| "php_typed (TupleT ts) v =
     (case v of
        ZArray ht \<Rightarrow> is_list ht
          \<and> list_all2 (\<lambda>ok v. ok v) (take (length ht) (map php_typed ts)) (hash_values ht)
      | _ \<Rightarrow> False)"
| "php_typed (MapT kt vt) v =
     (case v of ZArray ht \<Rightarrow> list_all (php_typed vt) (hash_values ht) | _ \<Rightarrow> False)"

section \<open>Leaves\<close>

lemma sint_small:
  assumes "uint (w :: s64) < 2 ^ 63"
  shows "sint w = uint w"
proof -
  have "- (2 ^ 63) \<le> uint w" by (rule order_trans [OF _ unsigned_greater_eq]) simp
  then show ?thesis using signed_take_bit_int_eq_self [of 63 "uint w"] assms by (simp add: sint_uint)
qed

lemma ucast_bounds:
  "0 \<le> sint (ucast (x :: u8) :: s64) \<and> sint (ucast x :: s64) < 2 ^ 8"
  "0 \<le> sint (ucast (y :: u16) :: s64) \<and> sint (ucast y :: s64) < 2 ^ 16"
  "0 \<le> sint (ucast (z :: u32) :: s64) \<and> sint (ucast z :: s64) < 2 ^ 32"
proof -
  have u: "uint (ucast x :: s64) = uint x" "uint (ucast y :: s64) = uint y" "uint (ucast z :: s64) = uint z"
    by (simp_all add: uint_up_ucast is_up)
  have "sint (ucast x :: s64) = uint x" "sint (ucast y :: s64) = uint y" "sint (ucast z :: s64) = uint z"
    using uint_bounded [of x] uint_bounded [of y] uint_bounded [of z] by (simp_all add: sint_small u)
  then show "0 \<le> sint (ucast x :: s64) \<and> sint (ucast x :: s64) < 2 ^ 8"
    and "0 \<le> sint (ucast y :: s64) \<and> sint (ucast y :: s64) < 2 ^ 16"
    and "0 \<le> sint (ucast z :: s64) \<and> sint (ucast z :: s64) < 2 ^ 32"
    using uint_bounded [of x] uint_bounded [of y] uint_bounded [of z] by simp_all
qed

lemma uint64_read_typed: "leaf_typed TUInt64 (uint64_to_zval w)"
proof (cases "w > 0x7FFFFFFFFFFFFFFF")
  case False
  then have "uint w < 2 ^ 63" by (simp add: word_less_def not_less word_le_def)
  then show ?thesis using False sint_small [of w] by (simp add: uint64_to_zval_def)
qed (simp add: uint64_to_zval_def)

lemma read_leaf_typed:
  assumes "read_leaf P lc x = Inr v"
  shows "leaf_typed lc v"
proof (cases "lc = TUInt64")
  case True
  then show ?thesis using assms uint64_read_typed by (cases x) auto
next
  case False
  then show ?thesis using assms ucast_bounds
    by (cases lc; cases x)
      (auto simp: item_to_zval_def ch_make_datetime_immutable_def dt64_read_def Let_def
        split: if_splits)
qed

section \<open>Columns\<close>

lemma php_list_is_list:
  assumes "php_list vs = ZArray ht"
  shows "is_list ht \<and> hash_values ht = vs"
proof -
  have "ht = foldl add_next_index [] vs" using assms by (simp add: php_list_def)
  then have v: "hash_values ht = vs"
    using hash_values_foldl_add_next_index [of "[]" vs] by (simp add: hash_values_def)
  then show ?thesis using assms by (simp add: is_list_def)
qed

text \<open>What holds of every element of a list of results holds of the PHP list made of them.\<close>

lemma map_res_all:
  assumes "\<And>x v. f x = Inr v \<Longrightarrow> T v"
  shows "map_res f xs = Inr vs \<Longrightarrow> list_all T vs"
  by (induction xs arbitrary: vs) (auto intro: assms)

lemma read_list_typed:
  assumes "map_res f xs = Inr vs" and "\<And>x v. f x = Inr v \<Longrightarrow> T v"
  shows "case php_list vs of ZArray ht \<Rightarrow> is_list ht \<and> list_all T (hash_values ht) | _ \<Rightarrow> False"
proof -
  obtain ht where ht: "php_list vs = ZArray ht" by (simp add: php_list_def)
  have "list_all T vs" by (rule map_res_all [OF assms(2) assms(1)])
  then show ?thesis using php_list_is_list [OF ht] by (simp add: ht)
qed

lemma read_members_typed:
  assumes "map_res (\<lambda>(r, member). r member row) (zip (map (column_value_to_zval P) ts) cs) = Inr vs"
    and "\<And>t c i v. t \<in> set ts \<Longrightarrow> column_value_to_zval P t c i = Inr v \<Longrightarrow> php_typed t v"
  shows "list_all2 (\<lambda>ok v. ok v) (take (length vs) (map php_typed ts)) vs"
  using assms
proof (induction ts arbitrary: cs vs)
  case (Cons t ts)
  show ?case
  proof (cases cs)
    case (Cons c cs')
    then show ?thesis using Cons.prems Cons.IH by fastforce
  qed (use Cons.prems in simp)
qed simp

lemma zend_hash_update_values:
  "list_all T (hash_values ht) \<Longrightarrow> T v \<Longrightarrow> list_all T (hash_values (zend_hash_update ht k v))"
  by (induction ht) (auto simp: zend_hash_update_def hash_values_def)

lemma read_map_typed:
  assumes "read_map_entries P rk rv keys values = Inr ht"
    and "\<And>c i v. rv c i = Inr v \<Longrightarrow> T v"
  shows "list_all T (hash_values ht)"
proof (rule fold_res_invariant [OF assms(1) [unfolded read_map_entries_def]])
  show "list_all T (hash_values [])" by (simp add: hash_values_def)
next
  fix i out out'
  assume out: "list_all T (hash_values out)"
    and "rbind (rk keys i) (\<lambda>key. rbind (rv values i) (\<lambda>value. Inr (add_map_entry P key value out))) = Inr out'"
  then obtain key v where "rv values i = Inr v" and out': "out' = add_map_entry P key v out"
    by auto
  then have "T v" using assms(2) by blast
  then show "list_all T (hash_values out')"
    unfolding out' using zend_hash_update_values [OF out] by (cases key) (simp_all add: add_map_entry_def)
qed

lemma column_typed: "column_value_to_zval P t c row = Inr v \<Longrightarrow> php_typed t v"
proof (induction t arbitrary: c row v)
  case (Leaf lc)
  then show ?case by (auto dest: read_leaf_typed split: col.splits if_splits)
next
  case (Nullable t)
  then show ?case by (auto split: col.splits if_splits)
next
  case (ArrayT t)
  then obtain es vs where
      m: "map_res (\<lambda>i. column_value_to_zval P t (es ! row) i) [0..<col_rows (es ! row)] = Inr vs"
    and v: "v = php_list vs"
    by (auto split: col.splits if_splits)
  show ?case
    using read_list_typed [OF m, of "php_typed t"] ArrayT.IH by (simp add: v)
next
  case (TupleT ts)
  then obtain cs vs where
      m: "map_res (\<lambda>(r, member). r member row) (zip (map (column_value_to_zval P) ts) cs) = Inr vs"
    and v: "v = php_list vs"
    by (auto split: col.splits)
  obtain ht where ht: "php_list vs = ZArray ht" by (simp add: php_list_def)
  have "list_all2 (\<lambda>ok v. ok v) (take (length vs) (map php_typed ts)) vs"
    by (rule read_members_typed [OF m]) (rule TupleT.IH)
  then show ?case using php_list_is_list [OF ht] by (auto simp: v ht)
next
  case (MapT kt vt)
  then obtain ms ht where
      m: "read_map_entries P (column_value_to_zval P kt) (column_value_to_zval P vt)
            (fst (ms ! row)) (snd (ms ! row)) = Inr ht"
    and v: "v = ZArray ht"
    by (auto split: col.splits if_splits)
  show ?case using read_map_typed [OF m, of "php_typed vt"] MapT.IH(2) by (simp add: v)
qed

end
