(* ===== verification/Thm_Codec.thy ===== *)
theory Thm_Codec
  imports Ch_Example Ch_Typed
begin

text \<open>
  The properties of the codec: inserting and selecting values, the refinement of the cell-level
  specification, and the text and date formats.
\<close>

section \<open>Columns\<close>



text \<open>
  C17. \<open>ch_append_value\<close> with its columns and its template cache implements the cell-level
  encoder \<open>enc\<close>, which knows neither: it fails with the same exception, or adds exactly one row
  that holds the encoded cell and leaves the earlier rows as they are. The cache, keyed by the
  addresses of \<open>Type\<close> objects that are freed and reused, stays right as long as the Map columns
  that are cloned for a cell are of one Map type, wherever the allocator puts their \<open>Type\<close>s; the
  columns that live as long as the insert may have any number of Map types.
\<close>

theorem append_value_correct:
  assumes "ch_lib_ok E" and "one_map ms" and "clones_within ms ref t"
    and "sized_type t" and "wf_col t n c" and "tmpl_ok E (insert_of ref) ms tm"
  shows "case append_value E t ref v (c, tm) of
      Inl e \<Rightarrow> enc E t v = Inl e
    | Inr (c', tm') \<Rightarrow> wf_col t (Suc n) c' \<and> tmpl_ok E (insert_of ref) ms tm'
        \<and> (\<exists>x. enc E t v = Inr x \<and> col_cells t c' = col_cells t c @ [x])"
  using append_value_refines [OF assms(1,2,4) refl assms(3)] assms(5,6)
  by (cases rule: refinesE [where v = v]) auto

theorem append_value_correct_witness:
  "case append_value ex_api (MapT (Leaf TString) (Leaf TInt64)) (DataCol 1 0)
       (ZArray [(KStr ''a'', ZLong 1)]) (MapCol [], Map.empty) of
     Inl e \<Rightarrow> False
   | Inr (c', tm') \<Rightarrow> col_cells (MapT (Leaf TString) (Leaf TInt64)) c'
       = [CMap [(CLeaf (VString ''a''), CLeaf (VInt64 1))]]"
proof -
  have names: "lib_type_name ex_api = ex_type_name" "lib_create ex_api = ex_create"
    by (simp_all add: ex_api_def)
  have "enc ex_api (MapT (Leaf TString) (Leaf TInt64)) (ZArray [(KStr ''a'', ZLong 1)])
      = Inr (CMap [(CLeaf (VString ''a''), CLeaf (VInt64 1))])"
    by (simp add: creatable_def names ex_create_def ex_type_name_def enc_entry_def append_leaf_def
        ex_append_eqs)
  with append_value_correct [OF ex_ch_lib_ok, of "[]" "DataCol 1 0" "MapT (Leaf TString) (Leaf TInt64)" 0
      "MapCol []" Map.empty "ZArray [(KStr ''a'', ZLong 1)]"]
  show ?thesis by (auto simp: one_map_def clones_within_def split: sum.splits prod.splits)
qed

text \<open>
  C18. \<open>ch_column_value_to_zval\<close> reads the cell of its row: on a well-formed column it is the
  decoder \<open>dec\<close> applied to the cell at that row, whatever the nesting.
\<close>

theorem column_value_correct:
  assumes "wf_col t n c" and "sized_type t" and "i < n"
  shows "column_value_to_zval P t c i = dec P t (col_cells t c ! i)"
  using assms by (rule column_value_refines)

theorem column_value_correct_witness:
  "column_value_to_zval ex_api (TupleT [Leaf TInt64, Nullable (Leaf TString)])
     (TupleCol [LeafCol [VInt64 1, VInt64 2],
                NullableCol [False, True] (LeafCol [VString ''x'', VString ''0''])]) 1
   = Inr (php_list [ZLong 2, ZNull])"
  by (subst column_value_correct [of _ 2]) (simp_all add: nth_Cons')

text \<open>
  C20. No null column is dereferenced and no template of another type is used: as long as the
  library's \<open>Append\<close> itself reports only genuine errors and the Map columns that are cloned for a
  cell are of one Map type, appending any PHP value of any shape to a well-formed column either
  succeeds or throws an ordinary exception; the markers for undefined behaviour are never reached.
  No assumption is made on the addresses at which the \<open>Type\<close> objects of clones are put.
\<close>

theorem append_value_defined:
  assumes "ch_lib_ok E" and "one_map ms" and "clones_within ms ref t"
    and "sized_type t" and "wf_col t n c" and "tmpl_ok E (insert_of ref) ms tm"
    and "\<And>lc a e. lib_append E lc a = Inl e \<Longrightarrow> exn_class e \<noteq> CxxUndefined"
    and "append_value E t ref v (c, tm) = Inl e"
  shows "exn_class e \<noteq> CxxUndefined"
  using append_value_refines [OF assms(1,2,4) refl assms(3)] assms(5,6)
proof (cases rule: refinesE [where v = v])
  case (error e')
  with assms(8) enc_defined [OF assms(7)] show ?thesis by simp
qed (use assms(8) in simp)

theorem append_value_defined_witness:
  "exn_class array_expected \<noteq> CxxUndefined \<and>
   append_value ex_api (ArrayT (Leaf TString)) (DataCol 1 0) (ZLong 1) (ArrayCol [], Map.empty)
     = Inl array_expected"
proof -
  have a: "append_value ex_api (ArrayT (Leaf TString)) (DataCol 1 0) (ZLong 1) (ArrayCol [], Map.empty)
      = Inl array_expected" by simp
  have "exn_class e \<noteq> CxxUndefined" if "lib_append ex_api lc x = Inl e" for lc x e
    using that by (auto dest: ex_append_error)
  from append_value_defined [OF ex_ch_lib_ok _ _ _ _ tmpl_ok_empty this a, of "[]" 0] a show ?thesis
    by (simp add: one_map_def clones_within_def)
qed

text \<open>
  C3. Two clones may share an address, one after the other, and then the cache answers with the
  templates of the wrong type: in a block with two columns Array(Map) of different Map types, when
  the \<open>Type\<close> of the second column's element clone lies where the \<open>Type\<close> of the first one's lay,
  the first row reaches the point where the entries of the second Map go into columns of the first
  Map's types, although every value of the row encodes. What the code assumes of
  the library, and of objects that are alive at the same time, does not exclude it.
\<close>

theorem stale_template_used:
  assumes "block_types sample = [ArrayT (MapT (Leaf a) (Leaf b)), ArrayT (MapT (Leaf a') (Leaf b'))]"
    and "(a, b) \<noteq> (a', b')" and "length names = 2" and "ch_lib_ok A"
    and "list_all (\<lambda>lc. creatable A (Leaf lc)) [a, b, a', b']"
    and "lib_type_ptr A (ElementsCol (DataCol k 0) 0) (MapT (Leaf a) (Leaf b))
      = lib_type_ptr A (ElementsCol (DataCol k 1) 0) (MapT (Leaf a') (Leaf b'))"
    and "row = php_list [php_list [ZArray [(x, v)]], php_list [ZArray [(x', v')]]]"
    and "is_ok (append_leaf A a (key_zval x))" and "is_ok (append_leaf A b v)"
    and "is_ok (append_leaf A a' (key_zval x'))" and "is_ok (append_leaf A b' v')"
  shows "prepare_block A k names (row # rows) sample = Inl stale_template
    \<and> is_ok (enc_row A (block_types sample) row)"
proof -
  obtain ka va kb vb where leaves: "append_leaf A a (key_zval x) = Inr ka" "append_leaf A b v = Inr va"
    "append_leaf A a' (key_zval x') = Inr kb" "append_leaf A b' v' = Inr vb"
    using assms(8-11) by (auto elim!: is_ok.elims)
  have c: "lib_create A (lib_type_name A (Leaf lc)) = Some (Leaf lc)" if "lc \<in> {a, b, a', b'}" for lc
    using ch_lib_okD(2) [OF assms(4), of "Leaf lc"] assms(5) that by auto
  have len: "length sample = 2"
    using arg_cong [where f = length, OF assms(1)] by simp
  have "append_row A k (block_types sample) row (map empty_col (block_types sample), Map.empty)
      = Inl stale_template"
    using assms(2,6) leaves
    by (simp add: assms(1,7) append_row_def php_list_def add_next_index_def hash_values_def
        map_templates_def c Let_def)
  then have "prepare_block A k names (row # rows) sample = Inl stale_template"
    using assms(3) len by (simp add: prepare_block_def append_rows_def Let_def)
  moreover have "is_ok (enc_row A (block_types sample) row)"
    using assms(5) leaves
    by (simp add: assms(1,7) enc_row_def php_list_def add_next_index_def hash_values_def enc_entry_def)
  ultimately show ?thesis by simp
qed

text \<open>A library in which the \<open>Type\<close> of every clone lies at the address 0.\<close>

definition ex_reuse_api :: "script ch_api" where
  "ex_reuse_api =
     ex_api\<lparr>lib_type_ptr := \<lambda>ref t. if in_place ref then Suc (to_nat (ref, t)) else 0\<rparr>"

lemma ex_reuse_ok: "ch_lib_ok ex_reuse_api"
  using ex_ch_lib_ok by (auto simp: ch_lib_ok_def ex_reuse_api_def ex_api_def)

theorem stale_template_used_witness:
  "prepare_block ex_reuse_api 1 [''a'', ''b'']
     [php_list [php_list [ZArray [(KStr ''x'', ZLong 1)]], php_list [ZArray [(KStr ''y'', ZString ''z'')]]]]
     [(''a'', ArrayT (MapT (Leaf TString) (Leaf TInt64)), ArrayCol []),
      (''b'', ArrayT (MapT (Leaf TString) (Leaf TString)), ArrayCol [])] = Inl stale_template"
proof -
  have sel: "lib_append ex_reuse_api = ex_append" "lib_create ex_reuse_api = ex_create"
    "lib_type_name ex_reuse_api = ex_type_name" "zval_get_string ex_reuse_api = zval_get_string ex_api"
    "zval_get_long ex_reuse_api = zval_get_long ex_api"
    by (simp_all add: ex_reuse_api_def ex_api_def)
  show ?thesis
    by (rule conjunct1 [OF stale_template_used [OF _ _ _ ex_reuse_ok, where a = TString and b = TInt64
          and a' = TString and b' = TString]])
      (simp_all add: block_types_def creatable_def sel ex_create_def ex_type_name_def append_leaf_def
        ex_append_eqs, simp add: ex_reuse_api_def)
qed

section \<open>Numbers\<close>

text \<open>
  C36. A UInt64 cell reads as the integer itself when it fits a PHP integer; a larger one reads as
  a double within 1024 of it, the nearest one, never as a negative integer.
\<close>

theorem uint64_read:
  "(unat v < 2 ^ 63 \<longrightarrow> uint64_to_zval v = ZLong v \<and> sint v = int (unat v)) \<and>
   (2 ^ 63 \<le> unat v \<longrightarrow> (\<exists>d. uint64_to_zval v = ZDouble d
      \<and> \<bar>int (double_nat_value d) - int (unat v)\<bar> \<le> 1024))"
proof (intro conjI impI)
  assume v: "unat v < 2 ^ 63"
  have "int (unat v) < int (2 ^ 63)"
    using v by (simp only: of_nat_less_iff)
  then have u: "uint v < 2 ^ 63" by simp
  then show "uint64_to_zval v = ZLong v"
    by (simp add: uint64_to_zval_def word_less_def)
  have "- (2 ^ 63) \<le> uint v"
    by (rule order_trans [of _ 0]) simp_all
  with u show "sint v = int (unat v)"
    by (simp add: sint_uint signed_take_bit_int_eq_self)
next
  assume v: "2 ^ 63 \<le> unat v"
  then have "v > 0x7FFFFFFFFFFFFFFF"
    by (simp add: word_less_nat_alt)
  moreover have "\<bar>int (double_nat_value (double_of_big_u64 v)) - int (unat v)\<bar> \<le> 1024"
    using round_significand_bounds(3) [OF v unat_less_u64] by (simp add: double_of_big_u64_value [OF v])
  ultimately show "\<exists>d. uint64_to_zval v = ZDouble d
      \<and> \<bar>int (double_nat_value d) - int (unat v)\<bar> \<le> 1024"
    by (auto simp: uint64_to_zval_def)
qed

theorem uint64_read_witness:
  "uint64_to_zval 5 = ZLong 5 \<and> (\<exists>d. uint64_to_zval 0xFFFFFFFFFFFFFFFF = ZDouble d)"
  using uint64_read [of 5] uint64_read [of "0xFFFFFFFFFFFFFFFF"] by auto

text \<open>
  The narrow integer columns wrap: a PHP integer stored into Int8, Int16 or Int32 reads back
  as its low bits sign-extended, into UInt8, UInt16 or UInt32 as its low bits. No value is
  rejected.
\<close>

definition write_read :: "('a) ch_env_scheme \<Rightarrow> leaf_code \<Rightarrow> zval \<Rightarrow> cxx_exn + zval" where
  "write_read E lc v = rbind (append_leaf E lc v) (read_leaf E lc)"

theorem narrow_integers_wrap:
  assumes "php_api_ok E" and "lib_stores E"
  shows "write_read E TInt8 (ZLong n) = Inr (ZLong (signed_take_bit 7 n))
    \<and> write_read E TInt16 (ZLong n) = Inr (ZLong (signed_take_bit 15 n))
    \<and> write_read E TInt32 (ZLong n) = Inr (ZLong (signed_take_bit 31 n))
    \<and> write_read E TUInt8 (ZLong n) = Inr (ZLong (take_bit 8 n))
    \<and> write_read E TUInt16 (ZLong n) = Inr (ZLong (take_bit 16 n))
    \<and> write_read E TUInt32 (ZLong n) = Inr (ZLong (take_bit 32 n))"
proof -
  have s: "scast (ucast n :: u8) = signed_take_bit 7 n" "scast (ucast n :: u16) = signed_take_bit 15 n"
    "scast (ucast n :: u32) = signed_take_bit 31 n"
    by (rule bit_word_eqI; simp add: bit_simps; linarith?)+
  have u: "ucast (ucast n :: u8) = take_bit 8 n" "ucast (ucast n :: u16) = take_bit 16 n"
    "ucast (ucast n :: u32) = take_bit 32 n"
    by (rule bit_word_eqI; auto simp: bit_simps)+
  show ?thesis
    by (simp add: write_read_def append_leaf_def php_api_okD [OF assms(1)] lib_storesD [OF assms(2)] s u)
qed

theorem narrow_integers_wrap_witness:
  "write_read ex_api TInt8 (ZLong 200) = Inr (ZLong (- 56))"
  using narrow_integers_wrap [OF ex_php_api_ok ex_lib_stores, of 200] by simp

section \<open>Dates\<close>

text \<open>
  C37. A DateTime64 reads as the instant it stores, rounded down to the microsecond, before and
  after the epoch, for every precision ClickHouse has: seconds are the floor of
  \<open>ticks / 10 ^ p\<close>, microseconds the floor of the rest.
\<close>

theorem datetime64_read_floor:
  assumes "p \<le> 9"
  shows "\<exists>sec us. dt64_read p ticks = ZDateTime sec us \<and> sint sec = sint ticks div 10 ^ p
    \<and> 0 \<le> sint us \<and> sint us < 1000000
    \<and> sint us = (sint ticks mod 10 ^ p) * 1000000 div 10 ^ p"
proof -
  define s :: int where "s = 10 ^ p"
  have s: "0 < s" by (simp add: s_def)
  define u where "u = sint ticks mod s * 1000000 div s"
  have u: "0 \<le> u" "u < 1000000"
    using micro_bounds(1,2) [OF s, of "sint ticks"] by (simp_all add: u_def)
  have "s64_range (sint ticks div s)"
    using s64_range_div [OF s] by simp
  moreover have "s64_range u"
    using u by (simp add: s64_range_def)
  ultimately show ?thesis
    using u by (simp add: dt64_read_eq [OF assms] Let_def s_def [symmetric] u_def [symmetric]
        sint_word_of_int_s64)
qed

theorem datetime64_read_floor_witness:
  "\<exists>sec us. dt64_read 3 (- 1) = ZDateTime sec us \<and> sint sec = - 1 \<and> sint us = 999000"
  using datetime64_read_floor [of 3 "- 1"] by auto

text \<open>
  C38. Writing a DateTime64 that was read gives the ticks back, up to microsecond resolution:
  exactly for a precision of at most 6, else with the digits below the microsecond cleared.
\<close>

theorem datetime64_roundtrip:
  assumes "p \<le> 9"
  shows "dt64_ticks P p (dt64_read p ticks) = word_of_int (sint ticks - sint ticks mod 10 ^ (p - 6))"
  using assms by (rule dt64_read_write)

theorem datetime64_roundtrip_witness:
  "dt64_ticks ex_api 9 (dt64_read 9 1234567890123456789) = 1234567890123456000"
  using datetime64_roundtrip [of 9 ex_api 1234567890123456789] by simp

section \<open>Text\<close>

text \<open>
  C39. Formatting a UUID and parsing the text gives the UUID, and the text always has the 36
  characters of the canonical form.
\<close>

theorem uuid_roundtrip:
  "ch_parse_uuid (ch_uuid_to_string u) = u \<and> length (ch_uuid_to_string u) = 36"
  by (simp add: parse_uuid_to_string length_ch_uuid_to_string)

text \<open>
  The UUID parser takes the first 32 hexadecimal digits of any text, whatever else the text
  holds: the first 16 are the high word, the next 16 the low word, both big-endian; with fewer
  digits the words hold what there is, and nothing is rejected.
\<close>

theorem uuid_parse:
  "ch_parse_uuid s =
     (word_of_nibs (take 16 (hex_nibs s)), word_of_nibs (take 16 (drop 16 (hex_nibs s))))"
  by (rule ch_parse_uuid_spec)

text \<open>
  C40. Rendering a Decimal loses nothing: for a positive scale the text is the sign, a whole part
  of at least one digit, a point and exactly \<open>scale\<close> fraction digits, and the digits without the
  point are the raw integer.
\<close>

theorem decimal_lossless:
  assumes "0 < scale"
  shows "\<exists>whole frac.
      ch_decimal_to_string raw scale
        = (if sint raw < 0 then ''-'' else []) @ whole @ ''.'' @ frac
    \<and> whole \<noteq> [] \<and> length frac = scale
    \<and> list_all is_dec_char (whole @ frac)
    \<and> int (dec_value (whole @ frac)) = \<bar>sint raw\<bar>"
proof -
  define n where "n = nat \<bar>sint raw\<bar>"
  define ds where "ds = decimal_digits n scale"
  have len: "scale < length ds"
    unfolding ds_def by (rule decimal_digits_length)
  define p where "p = length ds - scale"
  have "ch_decimal_to_string raw scale
      = (if sint raw < 0 then ''-'' else []) @ take p ds @ ''.'' @ drop p ds"
    by (simp add: ch_decimal_to_string_eq [OF assms] n_def ds_def p_def Let_def)
  moreover have "take p ds \<noteq> []" "length (drop p ds) = scale"
    using len by (auto simp: p_def)
  moreover have "int (dec_value (take p ds @ drop p ds)) = \<bar>sint raw\<bar>"
    by (simp add: ds_def n_def)
  moreover have "list_all is_dec_char (take p ds @ drop p ds)"
    by (simp add: ds_def decimal_digits_all)
  ultimately show ?thesis by blast
qed

theorem decimal_lossless_witness:
  "\<exists>whole frac. ch_decimal_to_string (- 5) 2 = ''-'' @ whole @ ''.'' @ frac
     \<and> length frac = 2 \<and> int (dec_value (whole @ frac)) = 5"
  using decimal_lossless [of 2 "- 5"] by auto

section \<open>Types\<close>

text \<open>
  C19. What a column type promises to PHP code: a value that \<open>ch_column_value_to_zval\<close> reads has
  the PHP type of its column, whatever the server sent. Integers are integers, unsigned ones not
  negative and within their width (a UInt64 may be a float), dates are DateTimeImmutable objects
  without microseconds, a Nullable is null or of the nested type, an Array is a list of the
  element type, a Tuple a list typed position by position, a Map an array of the value type.
\<close>

theorem values_typed:
  assumes "column_value_to_zval P t c row = Inr v"
  shows "php_typed t v"
  using column_typed [OF assms] .

theorem values_typed_witness:
  "php_typed (ArrayT (Nullable (Leaf TUInt8))) (php_list [ZNull, ZLong 200])"
proof -
  have "[0..<2] = [0, 1 :: nat]" by (simp add: upt_rec)
  then have "column_value_to_zval ex_api (ArrayT (Nullable (Leaf TUInt8)))
      (ArrayCol [NullableCol [True, False] (LeafCol [VUInt8 0, VUInt8 200])]) 0
    = Inr (php_list [ZNull, ZLong 200])"
    by simp
  from values_typed [OF this] show ?thesis .
qed

end
