(* ===== verification/Thm_Result.thy ===== *)
theory Thm_Result
  imports Ch_Example
begin

text \<open>
  The properties of queries: which rows come out, what happens to the connection, and what the
  statistics say.
\<close>

section \<open>Rows\<close>

text \<open>
  C7. \<open>fetchAll()\<close> on a fresh query result gives every row of every block the server
  delivers, decoded, in order, none twice; empty blocks add nothing. It returns, the result has
  then given its connection back, and its statistics are the sums over all packets since the query
  began.
\<close>

theorem query_fetchAll:
  assumes "cli_begin_execute A h (ch_apply_params_settings A
        \<lparr>q_text = c_str sql, q_params = [], q_settings = []\<rparr> params settings) (eg_exception s, ext s)
      = ((pks0, Inr ()), x1)"
    and "delivers A h x1 bs pks" and "list_all wf_block bs"
    and "map_res (block_values A) bs = Inr ws"
  shows "\<exists>r s1 obj r' s2. ch_result_start A c h p sql params settings s = Some (Some r, s1)
    \<and> result_fetchAll A (ch_result_object_create\<lparr>ro_result := Some r, ro_client := True\<rparr>) s1
        = Some (php_list (concat ws), obj, s2)
    \<and> ro_result obj = Some r' \<and> res_done r' \<and> res_released r'
    \<and> statistics (res_summary r') = fold on_packet (pks0 @ pks) empty_summary"
proof -
  from ch_result_start_yields [OF assms, of c p] obtain r s1 where
    r: "ch_result_start A c h p sql params settings s = Some (Some r, s1)"
    and y: "result_yields A (fold on_packet (pks0 @ pks) empty_summary) (r, s1) (concat ws)"
    by blast
  from fetchAll_drained [of "ch_result_object_create\<lparr>ro_result := Some r, ro_client := True\<rparr>", OF _ y]
  show ?thesis using r by fastforce
qed

definition ex_result_block :: block where
  "ex_result_block = \<lparr>blk_cols = [(''n'', Leaf TInt64, LeafCol [VInt64 10, VInt64 20])], blk_rows = 2\<rparr>"

definition ex_header :: block where
  "ex_header = \<lparr>blk_cols = [(''n'', Leaf TInt64, LeafCol [])], blk_rows = 0\<rparr>"

definition ex_script :: script where
  "ex_script = [([], Inr (Some ex_header)), ([Progress 2 16 0 0 2], Inr (Some ex_result_block)),
     ([], Inr None)]"

definition ex_row :: "s64 \<Rightarrow> zval" where
  "ex_row n = ZArray [(KStr ''n'', ZLong n)]"

lemma ex_delivers:
  "delivers ex_api 7 (eg, ex_script) [ex_header, ex_result_block] [Progress 2 16 0 0 2]"
proof -
  have "delivers ex_api 7 (eg, [([], Inr None)]) [] []"
    by (rule no_more [where x' = "(eg, [])"]) simp
  from one_more [OF _ this, of "(eg, [([Progress 2 16 0 0 2], Inr (Some ex_result_block)), ([], Inr None)])"
      "[Progress 2 16 0 0 2]" ex_result_block]
  have "delivers ex_api 7 (eg, [([Progress 2 16 0 0 2], Inr (Some ex_result_block)), ([], Inr None)])
      [ex_result_block] [Progress 2 16 0 0 2]" by simp
  from one_more [OF _ this, of "(eg, ex_script)" "[]" ex_header] show ?thesis
    by (simp add: ex_script_def)
qed

lemma ex_blocks:
  "list_all wf_block [ex_header, ex_result_block]"
  "map_res (block_values ex_api) [ex_header, ex_result_block] = Inr [[], [ex_row 10, ex_row 20]]"
proof -
  show "list_all wf_block [ex_header, ex_result_block]"
    by (simp add: ex_header_def ex_result_block_def wf_block_def)
  have "[0..<2] = [0, 1 :: nat]" by (simp add: upt_rec)
  then show "map_res (block_values ex_api) [ex_header, ex_result_block]
      = Inr [[], [ex_row 10, ex_row 20]]"
    by (simp add: ex_header_def ex_result_block_def block_values_def block_row_def ex_row_def
        zend_hash_update_def)
qed

lemma ex_begin_execute:
  "cli_begin_execute ex_api 7 q (eg_exception (ex_vm w), ext (ex_vm w)) = (([], Inr ()), (None, w))"
  by (simp add: ex_vm_def)

definition ex_statistics :: ch_summary where
  "ex_statistics = fold on_packet ([] @ [Progress 2 16 0 0 2]) empty_summary"

lemma ex_started:
  obtains r s1 where
    "ch_result_start ex_api 0 7 1 ''SELECT n'' None None (ex_vm ex_script) = Some (Some r, s1)"
    "result_yields ex_api ex_statistics (r, s1) [ex_row 10, ex_row 20]"
proof -
  from ch_result_start_yields [where sql = "''SELECT n''" and params = None and settings = None
      and c = 0 and p = 1, OF ex_begin_execute ex_delivers ex_blocks]
  show thesis using that by (auto simp: ex_statistics_def simp del: fold.simps)
qed

theorem query_fetchAll_witness:
  "\<exists>r s1 obj s2. ch_result_start ex_api 0 7 1 ''SELECT n'' None None (ex_vm ex_script) = Some (Some r, s1)
     \<and> result_fetchAll ex_api (ch_result_object_create\<lparr>ro_result := Some r, ro_client := True\<rparr>) s1
       = Some (php_list [ex_row 10, ex_row 20], obj, s2)
     \<and> read_rows (object_summary obj) = 2"
proof -
  from query_fetchAll [where sql = "''SELECT n''" and params = None and settings = None
      and c = 0 and p = 1, OF ex_begin_execute ex_delivers ex_blocks]
  obtain r s1 obj r' s2 where
    r: "ch_result_start ex_api 0 7 1 ''SELECT n'' None None (ex_vm ex_script) = Some (Some r, s1)"
    "result_fetchAll ex_api (ch_result_object_create\<lparr>ro_result := Some r, ro_client := True\<rparr>) s1
       = Some (php_list [ex_row 10, ex_row 20], obj, s2)"
    "ro_result obj = Some r'" "statistics (res_summary r') = ex_statistics"
    by (auto simp: ex_statistics_def simp del: fold.simps)
  have "read_rows (statistics (res_summary r')) = 2"
    unfolding r(4) by (simp add: ex_statistics_def empty_summary_def)
  then have "read_rows (object_summary obj) = 2"
    using r(3) by (simp add: object_summary_def ch_result_get_summary_def statistics_def)
  with r(1,2) show ?thesis by blast
qed

text \<open>
  C23. \<open>foreach\<close> over a fresh result visits the same rows, in order, with the keys 0, 1, 2,
  \<dots>, and ends; a second \<open>foreach\<close> over it visits nothing.
\<close>

theorem query_foreach:
  assumes "ro_result obj = Some r" and "result_yields A m (r, s) xs"
    and "\<not> ro_started obj" and "ro_pos obj = - 1"
  shows "\<exists>obj' s'. foreach_result A obj s = Some (zip (map of_nat [0..<length xs]) xs, obj', s')
    \<and> foreach_result A obj' s' = Some ([], obj', s')"
  using foreach_twice [OF assms] .

theorem query_foreach_witness:
  "\<exists>r s1 obj' s2. ch_result_start ex_api 0 7 1 ''SELECT n'' None None (ex_vm ex_script) = Some (Some r, s1)
     \<and> foreach_result ex_api (ch_result_object_create\<lparr>ro_result := Some r, ro_client := True\<rparr>) s1
       = Some ([(0, ex_row 10), (1, ex_row 20)], obj', s2)"
proof -
  obtain r s1 where
    r: "ch_result_start ex_api 0 7 1 ''SELECT n'' None None (ex_vm ex_script) = Some (Some r, s1)"
    and y: "result_yields ex_api ex_statistics (r, s1) [ex_row 10, ex_row 20]"
    by (rule ex_started)
  let ?obj = "ch_result_object_create\<lparr>ro_result := Some r, ro_client := True\<rparr>"
  have "ro_result ?obj = Some r" "\<not> ro_started ?obj" "ro_pos ?obj = - 1"
    by (simp_all add: ch_result_object_create_def)
  from query_foreach [OF this(1) y this(2,3)] r show ?thesis
    by (auto simp: upt_rec)
qed

text \<open>
  \<open>fetchOne()\<close> gives the first column of the row by position, when no other column of the
  block has its name.
\<close>

theorem fetchOne_first_column:
  assumes "pull_row A obj s = Some (Some (ZArray ht), obj', s')"
    and "block_row A b i = Inr (ZArray ht)"
    and "distinct (map fst (blk_cols b))" and "blk_cols b = (n, t, c) # cols"
  shows "\<exists>v. result_fetchOne A obj s = Some (v, obj', s') \<and> dec A t (col_cells t c ! i) = Inr v"
  using first_value_row [OF assms(3,4,2)] assms(1) by (simp add: result_fetchOne_def)

definition ex_result :: ch_result where
  "ex_result = \<lparr>res_conn = 0, res_client = 7, res_pool = 1, res_cols = [(Leaf TInt64, LeafCol [VInt64 10, VInt64 20])],
     res_keys = [''n''], res_row = 0, res_rows = 2, res_done = False, res_broken = False,
     res_released = False, res_summary = empty_summary, res_started = 0\<rparr>"

lemma ex_result_next:
  "ch_result_next ex_api ex_result s = Some (Some (ex_row 10), ex_result\<lparr>res_row := 1\<rparr>, s)"
  by (subst ch_result_next.simps)
    (simp add: ex_result_def read_row_def ex_row_def zend_hash_update_def)

theorem fetchOne_first_column_witness:
  "\<exists>obj'. result_fetchOne ex_api (ch_result_object_create\<lparr>ro_result := Some ex_result\<rparr>) (ex_vm [])
     = Some (ZLong 10, obj', ex_vm [])"
proof -
  let ?obj = "ch_result_object_create\<lparr>ro_result := Some ex_result\<rparr>"
  have "pull_row ex_api ?obj (ex_vm []) = Some (Some (ZArray [(KStr ''n'', ZLong 10)]),
      ?obj\<lparr>ro_result := Some (ex_result\<lparr>res_row := 1\<rparr>)\<rparr>, ex_vm [])"
    by (simp add: pull_row_def ex_result_next ex_row_def)
  moreover have "block_row ex_api ex_result_block 0 = Inr (ZArray [(KStr ''n'', ZLong 10)])"
    by (simp add: block_row_def ex_result_block_def zend_hash_update_def)
  ultimately show ?thesis
    using fetchOne_first_column [of ex_api ?obj "ex_vm []" "[(KStr ''n'', ZLong 10)]" _ "ex_vm []"
        ex_result_block 0 "''n''" "Leaf TInt64" "LeafCol [VInt64 10, VInt64 20]" "[]"]
    by (auto simp: ex_result_block_def)
qed

section \<open>The connection\<close>

text \<open>
  C21. A result gives its connection back exactly once: over its whole life, from
  \<open>ch_result_start\<close> through any number of calls of \<open>ch_result_next\<close>, whatever they end with, to
  \<open>ch_result_free\<close>. A query that fails to start gives it back once, and throws.
\<close>

theorem result_one_release:
  "(ch_result_start A c h p sql params settings s = Some (Some r, s1)
      \<longrightarrow> result_run A r s1 r' s2
      \<longrightarrow> releases p c (calls (ch_result_free A r' s2)) = Suc (releases p c (calls s)))
   \<and> (ch_result_start A c h p sql params settings s = Some (None, s3)
      \<longrightarrow> releases p c (calls s3) = Suc (releases p c (calls s)) \<and> eg_exception s3 \<noteq> None)"
  by (intro conjI impI)
    (erule (1) result_life_one_release, auto dest: result_failed_start_one_release)

theorem result_one_release_witness:
  "\<exists>r s1. ch_result_start ex_api 0 7 1 ''SELECT n'' None None (ex_vm ex_script) = Some (Some r, s1)
     \<and> releases 1 0 (calls (ch_result_free ex_api r s1)) = 1"
proof -
  obtain r s1 where
    r: "ch_result_start ex_api 0 7 1 ''SELECT n'' None None (ex_vm ex_script) = Some (Some r, s1)"
    by (rule ex_started)
  with result_one_release [of ex_api 0 7 1 "''SELECT n''" None None "ex_vm ex_script" r s1 r s1]
  show ?thesis by (auto intro: result_run.here simp: ex_vm_def)
qed

text \<open>
  No use after release: a started result that has given its connection back is done, it stays
  so, and whatever is asked of it makes no call on the connection or the pool.
\<close>

theorem result_no_use_after_release:
  assumes "ch_result_start A c h p sql params settings s = Some (Some r0, s0)"
    and "result_run A r0 s0 r s1" and "res_released r"
    and "ch_result_next A r s1 = Some (out, r', s2)"
  shows "calls s2 = calls s1 \<and> conns s2 = conns s1 \<and> res_released r'
    \<and> ch_result_free A r' s2 = s2"
proof -
  from assms(1) have "live_ok r0"
    by (cases rule: ch_result_start_cases) auto
  with result_run_balanced [OF assms(2)] have "live_ok r" by simp
  with assms(3) have d: "res_done r" by (simp add: live_ok_def)
  from ch_result_next_done [OF assms(4) d assms(3)]
  have "calls s2 = calls s1 \<and> conns s2 = conns s1" by simp
  moreover have "res_released r'"
    using result.balanced_after [OF ch_result_next_balanced [OF assms(4)] assms(3)] by simp
  ultimately show ?thesis by (simp add: ch_result_free_def)
qed

theorem result_no_use_after_release_witness:
  "\<exists>r s1. ch_result_start ex_api 0 7 1 ''SELECT n'' None None (ex_vm []) = Some (Some r, s1)
     \<and> ch_result_next ex_api r s1 = Some (None, r, s1) \<and> ch_result_free ex_api r s1 = s1"
proof -
  have "delivers ex_api 7 (None, []) [] []"
    by (rule no_more [where x' = "(None, [])"]) simp
  from ch_result_start_yields [where sql = "''SELECT n''" and params = None and settings = None
      and c = 0 and p = 1, OF ex_begin_execute this] obtain r s1 where
    r: "ch_result_start ex_api 0 7 1 ''SELECT n'' None None (ex_vm []) = Some (Some r, s1)"
    by auto
  have d: "res_done r \<and> res_released r \<and> \<not> res_row r < res_rows r"
    using r by (subst (asm) ch_result_start_def)
      (auto simp: begin_execute_def ext_call_def ex_vm_def prime_loop.simps next_block_def Let_def
        ch_result_finish_eq ch_result_release_fst [THEN arg_cong [where f = res_released]]
        ch_result_release_def finished_def new_result_def deliver_def log_call_def split: if_splits)
  then have n: "ch_result_next ex_api r s1 = Some (None, r, s1)"
    by (subst ch_result_next.simps) simp
  from result_no_use_after_release [OF r result_run.here _ n] d have "ch_result_free ex_api r s1 = s1" by simp
  with r n show ?thesis by blast
qed

text \<open>
  A result that is freed before its stream ended drops its connection: the pool is told not
  to reuse it and the connection no longer exists. One that was read to its end is reusable unless
  the connection was marked.
\<close>

theorem result_free_verdict:
  assumes "abi_honours_verdict A" and "\<not> res_released r" and "conns s (res_conn r) = Some cl"
  shows "(\<exists>t. calls (ch_result_free A r s) = calls s
        @ CRelease (res_pool r) (res_conn r) (res_done r \<and> \<not> res_broken r \<and> \<not> cl_broken cl) # t)
    \<and> (\<not> res_done r \<longrightarrow> conns (ch_result_free A r s) (res_conn r) = None)"
  using ch_result_free_calls [OF assms(2,3), of A] ch_result_free_abandoned [OF assms(1,2) _ assms(3)]
  by blast

theorem result_free_verdict_witness:
  "conns (ch_result_free ex_api ex_result (ex_vm [])) 0 = None"
  using result_free_verdict [OF ex_abi_honours_verdict, of ex_result "ex_vm []"
      "\<lparr>cl_client = 7, cl_broken = False\<rparr>"]
  by (simp add: ex_result_def ex_vm_def)

text \<open>
  When \<open>NextBlock\<close> fails, the row is not delivered, an exception is thrown, the stream is
  over, and the connection goes back with the verdict of the failure: not reusable after a
  connection, protocol, compression or assertion error, reusable after a server error.
\<close>

theorem next_failure_verdict:
  assumes "\<not> res_row r < res_rows r" and "\<not> res_done r" and "\<not> res_released r"
    and "next_block A r s = (Inl e, r1, s1)" and "conns s (res_conn r) = Some cl"
  shows "\<exists>r' s' t. ch_result_next A r s = Some (None, r', s') \<and> res_done r' \<and> res_released r'
    \<and> eg_exception s' \<noteq> None
    \<and> calls s' = calls s @ [CNextBlock (res_client r) (NextFailed (exn_class e)),
        CRelease (res_pool r) (res_conn r) (\<not> ch_exception_poisons_connection e \<and> \<not> cl_broken cl)] @ t"
proof -
  obtain r' s' where f: "result_failed A e r1 s1 = (r', s')"
    by (metis surj_pair)
  note n = next_block_frame [OF assms(4)]
  have "ch_result_next A r s = Some (None, r', s')"
    using assms(1,2,4) f by (subst ch_result_next.simps) simp
  moreover obtain t where "calls s' = calls s1 @ CRelease (res_pool r1) (res_conn r1)
      (\<not> ch_exception_poisons_connection e \<and> \<not> cl_broken cl) # t"
    using result_failed_calls [OF f, of cl] n assms(3,5) by (auto simp: same_handle_def)
  ultimately show ?thesis
    using failed_frame [OF f] n by (auto simp: same_handle_def)
qed

lemma ex_result_drained_next:
  "next_block ex_api (ex_result\<lparr>res_row := 2\<rparr>) (ex_vm [([], Inl e)])
     = (Inl e, ex_result\<lparr>res_row := 2\<rparr>,
        (ex_vm [])\<lparr>calls := [CNextBlock 7 (NextFailed (exn_class e))]\<rparr>)"
  by (simp add: next_block_def ext_call_def log_call_def ex_vm_def ex_result_def deliver_def)

theorem next_failure_verdict_witness:
  "\<exists>r' s' t. ch_result_next ex_api (ex_result\<lparr>res_row := 2\<rparr>)
       (ex_vm [([], Inl (cxx_error CxxProtocolError ''bad packet''))]) = Some (None, r', s')
     \<and> calls s' = [CNextBlock 7 (NextFailed CxxProtocolError), CRelease 1 0 False] @ t"
  using next_failure_verdict [OF _ _ _ ex_result_drained_next [of "cxx_error CxxProtocolError ''bad packet''"]]
  by (auto simp: ex_result_def ex_vm_def exception_defs)

text \<open>
  C22. A failure of another kind in the middle of a stream (one that is neither a server error nor
  on the list of poisoning errors, for example an unimplemented type in a later block) gives the
  connection back as reusable, although the rest of the query is still unread on it.
\<close>

theorem other_failure_reused_dirty:
  assumes "\<not> res_row r < res_rows r" and "\<not> res_done r" and "\<not> res_released r"
    and "next_block A r s = (Inl e, r1, s1)" and "exn_class e = CxxOther"
    and "conns s (res_conn r) = Some cl" and "\<not> cl_broken cl"
    and "session (res_client r) (calls s) = SQuery"
  shows "\<exists>r' s' t. ch_result_next A r s = Some (None, r', s')
    \<and> calls s' = calls s @ [CNextBlock (res_client r) (NextFailed CxxOther),
        CRelease (res_pool r) (res_conn r) True] @ t
    \<and> session (res_client r) (calls s @ [CNextBlock (res_client r) (NextFailed CxxOther)]) = SDirty"
proof -
  obtain r' s' where f: "result_failed A e r1 s1 = (r', s')"
    by (metis surj_pair)
  note n = next_block_frame [OF assms(4)]
  have "ch_result_next A r s = Some (None, r', s')"
    using assms(1,2,4) f by (subst ch_result_next.simps) simp
  moreover obtain t where "calls s' = calls s1 @ CRelease (res_pool r1) (res_conn r1)
      (\<not> ch_exception_poisons_connection e \<and> \<not> cl_broken cl) # t"
    using result_failed_calls [OF f, of cl] n assms(3,6) by (auto simp: same_handle_def)
  moreover have "\<not> ch_exception_poisons_connection e"
    using assms(5) by (simp add: exception_defs)
  ultimately show ?thesis
    using n assms(5,7,8) by (auto simp: same_handle_def session_append)
qed

theorem other_failure_reused_dirty_witness:
  "\<exists>r' s' t. ch_result_next ex_api (ex_result\<lparr>res_row := 2\<rparr>)
       ((ex_vm [([], Inl (cxx_error CxxOther ''unsupported column type''))])
          \<lparr>calls := ex_opened @ [CBeginExecute 7 \<lparr>q_text = ''SELECT'', q_params = [], q_settings = []\<rparr> None]\<rparr>)
       = Some (None, r', s') \<and> CRelease 1 0 True \<in> set (calls s')"
proof -
  let ?e = "cxx_error CxxOther ''unsupported column type''"
  let ?c = "ex_opened @ [CBeginExecute 7 \<lparr>q_text = ''SELECT'', q_params = [], q_settings = []\<rparr> None]"
  have "next_block ex_api (ex_result\<lparr>res_row := 2\<rparr>) ((ex_vm [([], Inl ?e)])\<lparr>calls := ?c\<rparr>)
     = (Inl ?e, ex_result\<lparr>res_row := 2\<rparr>,
        (ex_vm [])\<lparr>calls := ?c @ [CNextBlock 7 (NextFailed CxxOther)]\<rparr>)"
    by (simp add: next_block_def ext_call_def log_call_def ex_vm_def ex_result_def deliver_def)
  from other_failure_reused_dirty [OF _ _ _ this] show ?thesis
    by (fastforce simp: ex_result_def ex_vm_def)
qed

text \<open>
  Freeing a Result object gives the connection back before anything of the Client is torn
  down: the release comes first in the log, and only closing, deleting and releasing follow it,
  also when the Result held the last reference to the Client.
\<close>

theorem result_object_release_first:
  assumes "ro_result obj = Some r" and "\<not> res_released r"
    and "conns (app_vm a) (res_conn r) = Some cl"
  shows "\<exists>keep t. calls (app_vm (ch_result_object_free A obj a))
      = calls (app_vm a) @ CRelease (res_pool r) (res_conn r) keep # t
    \<and> list_all is_teardown t \<and> (keep \<longleftrightarrow> res_done r \<and> \<not> res_broken r \<and> \<not> cl_broken cl)"
  using result_object_free_order [OF assms, of A] by blast

theorem result_object_release_first_witness:
  "\<exists>t. calls (app_vm (ch_result_object_free ex_api
       (ch_result_object_create\<lparr>ro_result := Some ex_result, ro_client := True\<rparr>)
       \<lparr>app_client = ch_client_object_create\<lparr>obj_pool := Some 1\<rparr>, app_refs = 1, app_vm = ex_vm []\<rparr>))
     = CRelease 1 0 False # t \<and> list_all is_teardown t"
  using result_object_release_first [of
      "ch_result_object_create\<lparr>ro_result := Some ex_result, ro_client := True\<rparr>" ex_result
      "\<lparr>app_client = ch_client_object_create\<lparr>obj_pool := Some 1\<rparr>, app_refs = 1, app_vm = ex_vm []\<rparr>"
      "\<lparr>cl_client = 7, cl_broken = False\<rparr>" ex_api]
  by (auto simp: ex_result_def ex_vm_def)

section \<open>Statistics, parameters\<close>

text \<open>
  C34. What \<open>summary()\<close> and \<open>affectedRows()\<close> report after a query was read to its end: each counter
  is the sum over all progress packets of the query (modulo \<open>2 ^ 64\<close>, the packets of the priming
  included), the total to read is the largest total reported, \<open>rowsBeforeLimit\<close> is null unless a
  profile packet had a calculated count and then the last such count, and \<open>affectedRows()\<close> is the
  number of written rows.
\<close>

theorem summary_reports:
  assumes "cli_begin_execute A h (ch_apply_params_settings A
        \<lparr>q_text = c_str sql, q_params = [], q_settings = []\<rparr> params settings) (eg_exception s, ext s)
      = ((pks0, Inr ()), x1)"
    and "delivers A h x1 bs pks" and "list_all wf_block bs"
    and "map_res (block_values A) bs = Inr ws"
    and ps: "ps = filter is_Progress (pks0 @ pks)"
  shows "\<exists>r s1 v obj s2. ch_result_start A c h p sql params settings s = Some (Some r, s1)
    \<and> result_fetchAll A (ch_result_object_create\<lparr>ro_result := Some r, ro_client := True\<rparr>) s1
        = Some (v, obj, s2)
    \<and> so_readRows (result_summary obj) = sum_list (map p_rows ps)
    \<and> so_readBytes (result_summary obj) = sum_list (map p_bytes ps)
    \<and> so_writtenRows (result_summary obj) = sum_list (map p_written_rows ps)
    \<and> so_writtenBytes (result_summary obj) = sum_list (map p_written_bytes ps)
    \<and> so_totalRowsToRead (result_summary obj) = fold max (map p_total_rows ps) 0
    \<and> so_rowsBeforeLimit (result_summary obj)
        = (if limit_counts (pks0 @ pks) = [] then None else Some (last (limit_counts (pks0 @ pks))))
    \<and> result_affectedRows obj = sum_list (map p_written_rows ps)"
proof -
  let ?m = "fold on_packet (pks0 @ pks) empty_summary"
  from ch_result_start_yields [OF assms(1-4), of c p] obtain r s1 where
    r: "ch_result_start A c h p sql params settings s = Some (Some r, s1)"
    and y: "result_yields A ?m (r, s1) (concat ws)"
    by blast
  from fetchAll_drained [of "ch_result_object_create\<lparr>ro_result := Some r, ro_client := True\<rparr>", OF _ y]
  obtain v obj r' s2 where
    f: "result_fetchAll A (ch_result_object_create\<lparr>ro_result := Some r, ro_client := True\<rparr>) s1
        = Some (v, obj, s2)" "ro_result obj = Some r'" "statistics (res_summary r') = ?m"
    by fastforce
  have "object_summary obj = res_summary r'"
    by (simp add: object_summary_def f(2) ch_result_get_summary_def)
  moreover have "g (res_summary r') = g ?m" if "\<And>m. g (statistics m) = g m" for g :: "ch_summary \<Rightarrow> 'z"
    using that f(3) by metis
  note this [of read_rows] this [of read_bytes] this [of written_rows] this [of written_bytes]
    this [of total_rows_to_read] this [of has_rows_before_limit] this [of sum_rows_before_limit]
  ultimately show ?thesis
    using r f(1) unfolding ps
    by (intro exI [of _ r] exI [of _ s1] exI [of _ v] exI [of _ obj] exI [of _ s2])
      (simp add: statistics_def result_summary_def ch_make_summary_def result_affectedRows_def
        on_packets_sums on_packets_total_rows on_packets_limit empty_summary_def del: fold_append)
qed

theorem summary_reports_witness:
  "\<exists>r s1 v obj s2. ch_result_start ex_api 0 7 1 ''SELECT n'' None None (ex_vm ex_script) = Some (Some r, s1)
     \<and> result_fetchAll ex_api (ch_result_object_create\<lparr>ro_result := Some r, ro_client := True\<rparr>) s1
       = Some (v, obj, s2)
     \<and> so_readRows (result_summary obj) = 2 \<and> so_readBytes (result_summary obj) = 16
     \<and> so_rowsBeforeLimit (result_summary obj) = None \<and> result_affectedRows obj = 0"
  using summary_reports [where sql = "''SELECT n''" and params = None and settings = None
      and c = 0 and p = 1, OF ex_begin_execute ex_delivers ex_blocks refl]
  by (simp add: limit_counts_def) blast

text \<open>
  A query carries exactly the parameters and settings with a string key, in order; a PHP null
  is the NULL parameter and a boolean the word \<open>true\<close> or \<open>false\<close>; an entry under an integer key
  (which is also what a numeric string key becomes) is dropped.
\<close>

theorem query_parameters:
  "q_params (ch_apply_params_settings P q (Some params) settings)
      = q_params q @ [(k, ch_param_value P v). (KStr k, v) \<leftarrow> params]
   \<and> q_settings (ch_apply_params_settings P q params' (Some sets))
      = q_settings q @ [(k, zval_get_string P v). (KStr k, v) \<leftarrow> sets]
   \<and> q_text (ch_apply_params_settings P q params' settings) = q_text q"
  by (rule apply_params_settings_eq)

end
