(* ===== verification/Ch_Failure.thy ===== *)
theory Ch_Failure
  imports Ch_Rows
begin

text \<open>
  Streams that fail: the library delivers some blocks and then throws. The rows of the blocks
  before the failure still come out in order, the failure is thrown when they are used up, and
  the connection goes back with the verdict of the failure.
\<close>

section \<open>Specification\<close>

inductive breaks ::
    "'w ch_api \<Rightarrow> nat \<Rightarrow> 'w io_state \<Rightarrow> block list \<Rightarrow> cxx_exn \<Rightarrow> bool" for A h where
  failure: "cli_next_block A h x = ((pks, Inl e), x') \<Longrightarrow> breaks A h x [] e"
| one_more: "cli_next_block A h x = ((pks, Inr (Some b)), x') \<Longrightarrow> breaks A h x' bs e \<Longrightarrow>
    breaks A h x (b # bs) e"

inductive_cases breaks_NilE: "breaks A h x [] e"
inductive_cases breaks_ConsE: "breaks A h x (b # bs) e"

definition breaking_stream ::
    "'w ch_api \<Rightarrow> cxx_exn \<Rightarrow> ch_result \<Rightarrow> 'w vm \<Rightarrow> block list \<Rightarrow> zval list \<Rightarrow> bool" where
  "breaking_stream A e r s bs xs \<longleftrightarrow>
     breaks A (res_client r) (eg_exception s, ext s) bs e \<and> list_all wf_block bs
     \<and> (\<exists>ws. map_res (block_values A) bs = Inr ws \<and> xs = concat ws)"

text \<open>A result whose stream has failed with \<open>e\<close>.\<close>

definition has_failed :: "cxx_exn \<Rightarrow> ch_result \<Rightarrow> 'w vm \<Rightarrow> bool" where
  "has_failed e r s \<longleftrightarrow>
     res_done r \<and> res_released r \<and> res_broken r = ch_exception_poisons_connection e
     \<and> eg_exception s \<noteq> None"

definition breaking_yields ::
    "'w ch_api \<Rightarrow> cxx_exn \<Rightarrow> ch_result \<times> 'w vm \<Rightarrow> zval list \<Rightarrow> bool" where
  "breaking_yields A e st xs \<longleftrightarrow>
     (case st of (r, s) \<Rightarrow>
        live_ok r \<and>
        (\<exists>vs. rows_left A r = Inr vs \<and>
          (if res_done r then has_failed e r s \<and> vs = [] \<and> xs = []
           else \<exists>bs ys. breaking_stream A e r s bs ys \<and> xs = vs @ ys)))"

lemma breaking_yieldsI:
  assumes "live_ok r" and "\<not> res_done r" and "rows_left A r = Inr vs"
    and "breaking_stream A e r s bs ys"
  shows "breaking_yields A e (r, s) (vs @ ys)"
  using assms unfolding breaking_yields_def by auto

lemma breaking_stream_row [simp]:
  "breaking_stream A e (r\<lparr>res_row := k\<rparr>) s bs ys = breaking_stream A e r s bs ys"
  by (simp add: breaking_stream_def)

section \<open>One pull\<close>

lemma result_failed_has_failed:
  assumes "result_failed A e r s = (r', s')"
  shows "has_failed e r' s'"
  using assms
  by (cases rule: result_failed_cases) (simp add: has_failed_def)

lemma eg_exception_result_failed [simp]: "\<exists>x. eg_exception (snd (result_failed A e r s)) = Some x"
  using result_failed_has_failed [of A e r s "fst (result_failed A e r s)" "snd (result_failed A e r s)"]
  by (simp add: has_failed_def)

lemma next_at_failure:
  assumes "\<not> res_row r < res_rows r" and "\<not> res_done r" and "live_ok r"
    and "breaking_stream A e r s [] ys"
  shows "\<exists>r' s'. ch_result_next A r s = Some (None, r', s') \<and> breaking_yields A e (r', s') []"
proof -
  from assms(4) obtain pks x' where
    n: "cli_next_block A (res_client r) (eg_exception s, ext s) = ((pks, Inl e), x')"
    by (auto simp: breaking_stream_def elim: breaks_NilE)
  from n obtain s1 where nb: "next_block A r s = (Inl e, deliver pks r, s1)"
    by (rule next_block_given)
  obtain r' s' where f: "result_failed A e (deliver pks r) s1 = (r', s')"
    by (metis surj_pair)
  from assms(1,2) nb f have "ch_result_next A r s = Some (None, r', s')"
    by (subst ch_result_next.simps) simp
  moreover have "rows_left A r' = Inr []" "live_ok r'"
    using assms(1,3) failed_frame [OF f] by (simp_all add: rows_left_def live_ok_def)
  ultimately show ?thesis
    using result_failed_has_failed [OF f] by (auto simp: breaking_yields_def has_failed_def)
qed

lemma next_at_block_before_failure:
  assumes "\<not> res_row r < res_rows r" and "\<not> res_done r" and "live_ok r"
    and "breaking_stream A e r s (b # bs) ys"
  shows "\<exists>r1 s1 vs ys'. ch_result_next A r s = ch_result_next A r1 s1 \<and> live_ok r1 \<and> \<not> res_done r1
    \<and> rows_left A r1 = Inr vs \<and> breaking_stream A e r1 s1 bs ys' \<and> ys = vs @ ys'"
proof -
  from assms(4) obtain pks1 x' where
    n: "cli_next_block A (res_client r) (eg_exception s, ext s) = ((pks1, Inr (Some b)), x')"
    and d: "breaks A (res_client r) x' bs e"
    by (auto simp: breaking_stream_def elim: breaks_ConsE)
  from assms(4) obtain vs ws where v: "block_values A b = Inr vs" "map_res (block_values A) bs = Inr ws"
    "ys = vs @ concat ws" "wf_block b" "list_all wf_block bs"
    by (auto simp: breaking_stream_def)
  from n obtain s1 where nb: "next_block A r s = (Inr (Some b), deliver pks1 r, s1)"
    and x': "x' = (eg_exception s1, ext s1)"
    by (rule next_block_given)
  let ?r1 = "ch_result_load_block b (deliver pks1 r)"
  have "ch_result_next A r s = ch_result_next A ?r1 s1"
    using assms(1,2) nb by (subst ch_result_next.simps) simp
  moreover have "live_ok ?r1" "\<not> res_done ?r1"
    using assms(2,3) by (simp_all add: live_ok_def)
  moreover have "rows_left A ?r1 = Inr vs"
    by (simp add: rows_left_load_block v(1,4))
  moreover have "breaking_stream A e ?r1 s1 bs (concat ws)"
    using d v(2,5) x' by (simp add: breaking_stream_def)
  ultimately show ?thesis using v(3) by blast
qed

lemma next_row_before_failure:
  assumes "live_ok r" and "\<not> res_done r" and "rows_left A r = Inr vs"
    and "breaking_stream A e r s bs ys" and "res_row r < res_rows r"
  shows "\<exists>x r'. ch_result_next A r s = Some (Some x, r', s)
    \<and> vs = x # tl vs \<and> breaking_yields A e (r', s) (tl vs @ ys)"
proof -
  from rows_left_Suc [OF assms(5,3)] obtain ht vs' where
    row: "read_row A (res_keys r) (res_cols r) (res_row r) = Inr ht" "vs = ZArray ht # vs'"
      "rows_left A (r\<lparr>res_row := Suc (res_row r)\<rparr>) = Inr vs'" .
  have "ch_result_next A r s = Some (Some (ZArray ht), r\<lparr>res_row := Suc (res_row r)\<rparr>, s)"
    using assms(5) row(1) by (subst ch_result_next.simps) simp
  moreover have "breaking_yields A e (r\<lparr>res_row := Suc (res_row r)\<rparr>, s) (vs' @ ys)"
    using assms row(3) by (intro breaking_yieldsI) (auto simp: live_ok_def)
  ultimately show ?thesis using row(2) by auto
qed

lemma next_before_failure:
  assumes "live_ok r" and "\<not> res_done r" and "rows_left A r = Inr vs"
    and "breaking_stream A e r s bs ys"
  shows "\<exists>r' s'. ch_result_next A r s
      = Some (case vs @ ys of [] \<Rightarrow> None | x # xs \<Rightarrow> Some x, r', s')
    \<and> breaking_yields A e (r', s') (tl (vs @ ys))"
  using assms
proof (induction bs arbitrary: r s vs ys)
  case Nil
  show ?case
  proof (cases "res_row r < res_rows r")
    case True
    from next_row_before_failure [OF Nil.prems True] show ?thesis
      by (metis append_Cons list.sel(3) list.simps(5))
  next
    case False
    from rows_left_none [OF False, of A] Nil.prems(3,4) have "vs = []" "ys = []"
      by (auto simp: breaking_stream_def)
    with next_at_failure [OF False Nil.prems(2,1,4)] show ?thesis by simp
  qed
next
  case (Cons b bs)
  show ?case
  proof (cases "res_row r < res_rows r")
    case True
    from next_row_before_failure [OF Cons.prems True] show ?thesis
      by (metis append_Cons list.sel(3) list.simps(5))
  next
    case False
    from next_at_block_before_failure [OF False Cons.prems(2,1,4)] obtain r1 s1 vs1 ys1 where
      n: "ch_result_next A r s = ch_result_next A r1 s1" and p: "live_ok r1" "\<not> res_done r1"
        "rows_left A r1 = Inr vs1" "breaking_stream A e r1 s1 bs ys1" and ys: "ys = vs1 @ ys1"
      by blast
    from Cons.IH [OF p] n ys rows_left_none [OF False, of A] Cons.prems(3) show ?thesis by simp
  qed
qed

lemma breaking_yields_step:
  assumes "breaking_yields A e (r, s) xs"
  shows "\<exists>r' s'. ch_result_next A r s = Some (case xs of [] \<Rightarrow> None | x # ys \<Rightarrow> Some x, r', s')
    \<and> breaking_yields A e (r', s') (tl xs)"
proof (cases "res_done r")
  case False
  with assms obtain vs bs ys where "live_ok r" "rows_left A r = Inr vs"
    "breaking_stream A e r s bs ys" "xs = vs @ ys"
    by (auto simp: breaking_yields_def)
  with next_before_failure [of r A vs e s bs ys] False show ?thesis by simp
next
  case True
  with assms have y: "rows_left A r = Inr []" "xs = []"
    by (auto simp: breaking_yields_def)
  then have "\<not> res_row r < res_rows r"
    by (auto simp: rows_left_def upt_conv_Cons)
  with True have "ch_result_next A r s = Some (None, r, s)"
    by (subst ch_result_next.simps) simp
  with assms y show ?thesis by simp
qed

text \<open>A failing stream, too, is a row source.\<close>

interpretation breaking: row_source "\<lambda>(r, s). ch_result_next A r s" "breaking_yields A e" for A e
proof unfold_locales
  fix st x xs assume "breaking_yields A e st (x # xs)"
  with breaking_yields_step [of A e "fst st" "snd st" "x # xs"]
  show "\<exists>st'. (case st of (r, s) \<Rightarrow> ch_result_next A r s) = Some (Some x, st')
      \<and> breaking_yields A e st' xs"
    by (auto simp: case_prod_beta)
next
  fix st assume "breaking_yields A e st []"
  with breaking_yields_step [of A e "fst st" "snd st" "[]"]
  show "\<exists>st'. (case st of (r, s) \<Rightarrow> ch_result_next A r s) = Some (None, st')
      \<and> breaking_yields A e st' []"
    by (auto simp: case_prod_beta)
qed

lemma breaking_drained:
  assumes "breaking_yields A e (r, s) xs"
  shows "\<exists>r' s'. drain (\<lambda>(r, s). ch_result_next A r s) (r, s) [] = Some (xs, r', s') \<and> has_failed e r' s'"
proof -
  from breaking.drain_ends [OF assms, of "[]"] obtain st st' where
    d: "drain (\<lambda>(r, s). ch_result_next A r s) (r, s) [] = Some (xs, st')"
    and y: "breaking_yields A e st' []" and l: "(\<lambda>(r, s). ch_result_next A r s) st = Some (None, st')"
    by auto
  obtain r' s' where st': "st' = (r', s')" by (cases st')
  from l st' have "res_done r'"
    using ch_result_next_frame [of A "fst st" "snd st" None r' s'] by (simp add: case_prod_beta)
  with y st' have "has_failed e r' s'" by (simp add: breaking_yields_def)
  with d st' show ?thesis by blast
qed

section \<open>From the start of a query\<close>

lemma prime_loop_breaks:
  assumes "res_row r = 0" and "res_rows r = 0" and "\<not> res_done r" and "\<not> res_released r"
    and "breaking_stream A e r s bs ys"
  shows "\<exists>r' s'. if \<exists>b \<in> set bs. 0 < blk_rows b
    then prime_loop A r s = Some (Inr (), r', s') \<and> breaking_yields A e (r', s') ys
    else prime_loop A r s = Some (Inl e, r', s')"
  using assms
proof (induction bs arbitrary: r s ys)
  case Nil
  from Nil.prems(5) obtain pks x' where
    n: "cli_next_block A (res_client r) (eg_exception s, ext s) = ((pks, Inl e), x')"
    by (auto simp: breaking_stream_def elim: breaks_NilE)
  from n obtain s1 where nb: "next_block A r s = (Inl e, deliver pks r, s1)"
    by (rule next_block_given)
  from nb show ?case by (subst prime_loop.simps) simp
next
  case (Cons b bs)
  from Cons.prems(5) obtain pks1 x' where
    n: "cli_next_block A (res_client r) (eg_exception s, ext s) = ((pks1, Inr (Some b)), x')"
    and d: "breaks A (res_client r) x' bs e"
    by (auto simp: breaking_stream_def elim: breaks_ConsE)
  from Cons.prems(5) obtain vs ws where v: "block_values A b = Inr vs" "map_res (block_values A) bs = Inr ws"
    "ys = vs @ concat ws" "wf_block b" "list_all wf_block bs"
    by (auto simp: breaking_stream_def)
  from n obtain s1 where nb: "next_block A r s = (Inr (Some b), deliver pks1 r, s1)"
    and x': "x' = (eg_exception s1, ext s1)"
    by (rule next_block_given)
  have rest: "breaking_stream A e (deliver pks1 r) s1 bs (concat ws)"
    using d v(2,5) x' by (simp add: breaking_stream_def)
  show ?case
  proof (cases "blk_rows b = 0")
    case True
    with v(1,3) have ys: "ys = concat ws"
      by (simp add: block_values_def)
    have loop: "prime_loop A r s = prime_loop A (deliver pks1 r) s1"
      using nb True by (subst prime_loop.simps) simp
    have some: "(\<exists>b' \<in> set (b # bs). 0 < blk_rows b') \<longleftrightarrow> (\<exists>b' \<in> set bs. 0 < blk_rows b')"
      using True by simp
    show ?thesis
      unfolding ys loop some by (rule Cons.IH [OF _ _ _ _ rest]) (use Cons.prems in simp_all)
  next
    case False
    let ?r1 = "ch_result_load_block b (deliver pks1 r)"
    have "prime_loop A r s = Some (Inr (), ?r1, s1)"
      using nb False by (subst prime_loop.simps) simp
    moreover have "breaking_yields A e (?r1, s1) (vs @ concat ws)"
    proof (rule breaking_yieldsI)
      show "rows_left A ?r1 = Inr vs" by (simp add: rows_left_load_block v(1,4))
      show "breaking_stream A e ?r1 s1 bs (concat ws)"
        using rest by (simp add: breaking_stream_def)
    qed (use Cons.prems in \<open>simp_all add: live_ok_def\<close>)
    ultimately show ?thesis using v(3) False by auto
  qed
qed

lemma ch_result_start_breaks:
  assumes "cli_begin_execute A h (ch_apply_params_settings A
        \<lparr>q_text = c_str sql, q_params = [], q_settings = []\<rparr> params settings) (eg_exception s, ext s)
      = ((pks0, Inr ()), x1)"
    and "breaks A h x1 bs e" and "list_all wf_block bs"
    and "map_res (block_values A) bs = Inr ws"
  shows "if \<exists>b \<in> set bs. 0 < blk_rows b
    then \<exists>r s'. ch_result_start A c h p sql params settings s = Some (Some r, s')
      \<and> breaking_yields A e (r, s') (concat ws)
    else \<exists>s'. ch_result_start A c h p sql params settings s = Some (None, s') \<and> eg_exception s' \<noteq> None"
proof -
  define q where "q = ch_apply_params_settings A \<lparr>q_text = c_str sql, q_params = [], q_settings = []\<rparr>
    params settings"
  let ?r0 = "new_result A c h p s"
  define s1 where "s1 = log_call (CBeginExecute h q None) (s\<lparr>eg_exception := fst x1, ext := snd x1\<rparr>)"
  have b: "begin_execute A q ?r0 s = (Inr (), deliver pks0 ?r0, s1)"
    using assms(1)
    by (simp add: begin_execute_def ext_call_def q_def [symmetric] s1_def split: prod.splits)
  have "x1 = (eg_exception s1, ext s1)"
    by (simp add: s1_def)
  with assms(2-4) have "breaking_stream A e (deliver pks0 ?r0) s1 bs (concat ws)"
    by (simp add: breaking_stream_def)
  from prime_loop_breaks [OF _ _ _ _ this] b show ?thesis
    by (auto simp: ch_result_start_def q_def split: if_splits)
qed

end
