(* ===== verification/Ch_Fetch.thy ===== *)
theory Ch_Fetch
  imports Ch_Api Ch_Failure
begin

text \<open>
  A program that fetches row by row, and what it keeps of a stream that fails: each \<open>fetch()\<close>
  returns on its own, so the rows before the failure have reached the caller when the failing
  \<open>fetch()\<close> throws.
\<close>

text \<open>\<open>while (($row = $result->fetch()) !== null) $rows[] = $row;\<close> as the engine runs it: the rows
  collected, and the exception that ended the loop, if one did.\<close>

partial_function (option) fetch_loop ::
    "'w ch_api \<Rightarrow> result_object \<Rightarrow> 'w vm \<Rightarrow> zval list
      \<Rightarrow> (zval list \<times> php_exn option \<times> result_object \<times> 'w vm) option" where
  [code]: "fetch_loop A obj s acc =
     (case result_fetch A obj s of
        None \<Rightarrow> None
      | Some (v, obj', s') \<Rightarrow>
          (case php_return v s' of
             Inl e \<Rightarrow> Some (acc, Some e, obj', s')
           | Inr row \<Rightarrow>
               if row = ZNull then Some (acc, None, obj', s')
               else fetch_loop A obj' s' (acc @ [row])))"

text \<open>What the code relies on: a \<open>NextBlock\<close> that delivers a block leaves no PHP exception of its
  own pending; a coroutine that is cancelled while it waits makes the call throw.\<close>

definition blocks_quiet :: "'w ch_api \<Rightarrow> bool" where
  "blocks_quiet A \<longleftrightarrow>
     (\<forall>h eg w pks b x'. cli_next_block A h (eg, w) = ((pks, Inr (Some b)), x') \<longrightarrow> fst x' = eg)"

lemma blocks_quietD:
  assumes "blocks_quiet A" and "next_block A r s = (Inr (Some b), r1, s1)"
  shows "eg_exception s1 = eg_exception s"
proof (cases rule: next_block_cases [of A r s])
  case (1 pks res s0)
  with assms(2) have "res = Inr (Some b)" "s0 = s1" by auto
  with 1(4) assms(1) show ?thesis unfolding blocks_quiet_def by force
qed

lemma next_row_quiet:
  assumes "ch_result_next A r s = Some (out, r', s')" and "blocks_quiet A"
  shows "out \<noteq> None \<longrightarrow> eg_exception s' = eg_exception s"
  using assms(1)
  by (induction rule: ch_result_next_induct) (auto dest: blocks_quietD [OF assms(2)])

lemma next_row_array:
  assumes "ch_result_next A r s = Some (out, r', s')"
  shows "\<forall>v. out = Some v \<longrightarrow> v \<noteq> ZNull"
  using assms by (induction rule: ch_result_next_induct) auto

lemma prime_loop_quiet:
  assumes "prime_loop A r s = Some (out, r', s')" and "blocks_quiet A"
  shows "out = Inr () \<and> \<not> res_done r' \<longrightarrow> eg_exception s' = eg_exception s"
  using assms(1)
proof (induction rule: prime_loop_induct)
  case (finished r s r1 s1 r' s')
  then show ?case using ch_result_finish_fst [OF finished(2)] by simp
qed (auto dest: blocks_quietD [OF assms(2)])

text \<open>The rows before the failure reach the caller.\<close>

lemma fetch_loop_breaking:
  assumes "breaking_yields A e (r, s) xs" and "blocks_quiet A"
    and "ro_result obj = Some r" and "eg_exception s = None"
  shows "\<exists>ex obj' r' s'. fetch_loop A obj s acc = Some (acc @ xs, Some ex, obj', s')
    \<and> ro_result obj' = Some r' \<and> has_failed e r' s'"
  using assms(1,3,4)
proof (induction xs arbitrary: r s obj acc)
  case Nil
  from breaking_yields_step [OF Nil(1)] obtain r' s' where
    n: "ch_result_next A r s = Some (None, r', s')" and y: "breaking_yields A e (r', s') []"
    by auto
  have "res_done r'"
    using ch_result_next_frame [OF n] by simp
  with y have f: "has_failed e r' s'" by (simp add: breaking_yields_def)
  then obtain ex where "php_return ZNull s' = Inl ex"
    using php_return_pending [of s' ZNull] by (auto simp: has_failed_def)
  with n f Nil(2) show ?case
    by (subst fetch_loop.simps) (simp add: result_fetch_def pull_row_def)
next
  case (Cons x xs)
  from breaking_yields_step [OF Cons.prems(1)] obtain r' s' where
    n: "ch_result_next A r s = Some (Some x, r', s')" and y: "breaking_yields A e (r', s') xs"
    by auto
  from next_row_quiet [OF n assms(2)] Cons.prems(3) have "eg_exception s' = None" by simp
  with Cons.IH [OF y, of "obj\<lparr>ro_result := Some r'\<rparr>" "acc @ [x]"] n next_row_array [OF n] Cons.prems(2)
  show ?case
    by (subst fetch_loop.simps) (simp add: result_fetch_def pull_row_def php_return_def)
qed

text \<open>A query whose stream fails after its first row starts without an exception.\<close>

lemma ch_result_start_quiet:
  assumes "cli_begin_execute A h (ch_apply_params_settings A
        \<lparr>q_text = c_str sql, q_params = [], q_settings = []\<rparr> params settings) (eg_exception s, ext s)
      = ((pks0, Inr ()), x1)"
    and "ch_result_start A c h p sql params settings s = Some (Some r, s1)" and "\<not> res_done r"
    and "blocks_quiet A"
  shows "eg_exception s1 = fst x1"
proof -
  define q where "q = ch_apply_params_settings A \<lparr>q_text = c_str sql, q_params = [], q_settings = []\<rparr>
    params settings"
  obtain r1 s0 where b: "begin_execute A q (new_result A c h p s) s = (Inr (), r1, s0)"
    "eg_exception s0 = fst x1"
    using assms(1) by (cases x1) (simp add: begin_execute_def ext_call_def q_def [symmetric])
  with assms(2) have "prime_loop A r1 s0 = Some (Inr (), r, s1)"
    by (auto simp: ch_result_start_def q_def split: option.splits sum.splits)
  from prime_loop_quiet [OF this assms(4)] assms(3) b(2) show ?thesis by simp
qed

end
