(* ===== verification/Ch_Liveness.thy ===== *)
theory Ch_Liveness
  imports Ch_Api
begin

text \<open>
  When queries end. The loops of \<open>ch_result_start\<close>, \<open>ch_result_next\<close> and \<open>fetchAll\<close> return,
  whatever the blocks hold and however the stream fails, if the library delivers only finitely
  many blocks, which a measure on the outside state expresses.
\<close>

definition finite_stream :: "'w ch_api \<Rightarrow> nat \<Rightarrow> ('w \<Rightarrow> nat) \<Rightarrow> bool" where
  "finite_stream A h \<mu> \<longleftrightarrow>
     (\<forall>eg w pks b x'. cli_next_block A h (eg, w) = ((pks, Inr (Some b)), x') \<longrightarrow> \<mu> (snd x') < \<mu> w)"

lemma finite_stream_block:
  assumes "finite_stream A (res_client r) \<mu>" and "next_block A r s = (Inr (Some b), r1, s1)"
  shows "\<mu> (ext s1) < \<mu> (ext s) \<and> res_client r1 = res_client r"
proof (cases rule: next_block_cases [of A r s])
  case (1 pks res s0)
  with assms have "res = Inr (Some b)" "s0 = s1" "r1 = deliver pks r" by auto
  with 1(4) assms(1) show ?thesis unfolding finite_stream_def by force
qed

lemma prime_loop_returns:
  assumes "finite_stream A (res_client r) \<mu>"
  shows "\<exists>out r' s'. prime_loop A r s = Some (out, r', s')"
  using assms
proof (induction "\<mu> (ext s)" arbitrary: r s rule: less_induct)
  case less
  obtain res r1 s1 where n: "next_block A r s = (res, r1, s1)" by (metis surj_pair)
  show ?case
  proof (cases "\<exists>b. res = Inr (Some b) \<and> blk_rows b = 0")
    case True
    then obtain b where b: "res = Inr (Some b)" "blk_rows b = 0" by blast
    with n finite_stream_block [OF less.prems] have "\<mu> (ext s1) < \<mu> (ext s)"
      "finite_stream A (res_client r1) \<mu>" using less.prems by auto
    from less.hyps [OF this] n b show ?thesis by (subst prime_loop.simps) simp
  next
    case False
    with n show ?thesis
      by (subst prime_loop.simps) (auto split: sum.splits option.splits intro: prod_cases3)
  qed
qed

text \<open>A pull returns, and a row it hands out comes from the current block or from a later one.\<close>

definition stream_left :: "('w \<Rightarrow> nat) \<Rightarrow> ch_result \<times> 'w vm \<Rightarrow> nat \<times> nat" where
  "stream_left \<mu> st = (\<mu> (ext (snd st)), res_rows (fst st) - res_row (fst st))"

lemma ch_result_next_returns:
  assumes "finite_stream A (res_client r) \<mu>"
  shows "\<exists>out r' s'. ch_result_next A r s = Some (out, r', s')"
  using assms
proof (induction "\<mu> (ext s)" arbitrary: r s rule: less_induct)
  case less
  obtain res r1 s1 where n: "next_block A r s = (res, r1, s1)" by (metis surj_pair)
  show ?case
  proof (cases "\<not> res_row r < res_rows r \<and> \<not> res_done r \<and> (\<exists>b. res = Inr (Some b))")
    case True
    then obtain b where b: "res = Inr (Some b)" by blast
    with n finite_stream_block [OF less.prems] have "\<mu> (ext s1) < \<mu> (ext s)"
      "finite_stream A (res_client (ch_result_load_block b r1)) \<mu>" using less.prems by auto
    from less.hyps [OF this] n b True show ?thesis by (subst ch_result_next.simps) simp
  next
    case False
    with n show ?thesis
      by (subst ch_result_next.simps) (auto split: sum.splits option.splits intro: prod_cases3)
  qed
qed

lemma ch_result_next_left:
  assumes "ch_result_next A r s = Some (out, r', s')" and "finite_stream A (res_client r) \<mu>"
  shows "out = None \<or> (stream_left \<mu> (r', s'), stream_left \<mu> (r, s)) \<in> less_than <*lex*> less_than"
  using assms
proof (induction rule: ch_result_next_induct)
  case (more r s b r1 s1 out r' s')
  from finite_stream_block [OF more(5) more(3)] have m: "\<mu> (ext s1) < \<mu> (ext s)"
    and c: "res_client (ch_result_load_block b r1) = res_client r" by simp_all
  from more(4) [unfolded c, OF more(5)] m show ?case
    by (auto simp: stream_left_def)
qed (auto simp: stream_left_def)

lemma fetchAll_returns:
  assumes "finite_stream A (res_client r) \<mu>" and "live_ok r"
  shows "\<exists>xs r' s'. drain (\<lambda>(r, s). ch_result_next A r s) (r, s) [] = Some (xs, r', s')
    \<and> res_done r' \<and> res_released r'"
proof -
  define R where "R = inv_image (less_than <*lex*> less_than) (stream_left \<mu>)"
  define I where "I = (\<lambda>st :: ch_result \<times> 'a vm. finite_stream A (res_client (fst st)) \<mu> \<and> live_ok (fst st))"
  have "wf R" by (simp add: R_def wf_inv_image wf_lex_prod)
  moreover have "I (r, s)" using assms by (simp add: I_def)
  moreover have "\<exists>out st'. (case st of (r, s) \<Rightarrow> ch_result_next A r s) = Some (out, st')
      \<and> (out = None \<or> I st' \<and> (st', st) \<in> R)" if "I st" for st
  proof -
    obtain r s where st: "st = (r, s)" by (cases st)
    with that have f: "finite_stream A (res_client r) \<mu>" and l: "live_ok r" by (simp_all add: I_def)
    obtain out r' s' where n: "ch_result_next A r s = Some (out, r', s')"
      using ch_result_next_returns [OF f] by blast
    from ch_result_next_frame [OF n] l f have "I (r', s')"
      by (simp add: I_def same_handle_def)
    with ch_result_next_left [OF n f] n st show ?thesis by (auto simp: R_def)
  qed
  ultimately obtain xs st1 st' where
    d: "drain (\<lambda>(r, s). ch_result_next A r s) (r, s) [] = Some (xs, st')"
    and i: "I st1" and e: "(case st1 of (r, s) \<Rightarrow> ch_result_next A r s) = Some (None, st')"
    using drain_returns [of R I "(r, s)" "\<lambda>(r, s). ch_result_next A r s" "[]"] by blast
  obtain r1 s1 r' s' where st: "st1 = (r1, s1)" "st' = (r', s')" by (metis surj_pair)
  with e have "ch_result_next A r1 s1 = Some (None, r', s')" by simp
  from ch_result_next_frame [OF this] i st have "res_done r'" "res_released r'"
    by (auto simp: I_def live_ok_def)
  with d st show ?thesis by blast
qed

lemma ch_result_start_returns:
  assumes "finite_stream A h \<mu>"
  shows "\<exists>out s'. ch_result_start A c h p sql params settings s = Some (out, s')"
proof -
  define q where "q = ch_apply_params_settings A \<lparr>q_text = c_str sql, q_params = [], q_settings = []\<rparr>
    params settings"
  obtain res r1 s1 where b: "begin_execute A q (new_result A c h p s) s = (res, r1, s1)"
    by (metis surj_pair)
  from begin_execute_frame(1) [OF b] have "res_client r1 = h"
    by (auto simp: new_result_def)
  with prime_loop_returns [of A r1 \<mu> s1] assms obtain out r2 s2 where
    "prime_loop A r1 s1 = Some (out, r2, s2)" by auto
  with b show ?thesis
    by (cases res; cases out) (auto simp: ch_result_start_def q_def Let_def)
qed

end
