(* ===== verification/Thm_Failure.thy ===== *)
theory Thm_Failure
  imports Ch_Example Ch_Fetch Ch_Liveness
begin

text \<open>What a program sees of any stream: that it ends, and what it gives when it fails in the
  middle.\<close>

lemma delivered_rows:
  assumes "map_res (block_values A) bs = Inr ws" and "b \<in> set bs" and "0 < blk_rows b"
  shows "concat ws \<noteq> []"
proof -
  from assms(1,2) obtain vs where v: "block_values A b = Inr vs" "vs \<in> set ws"
    by (fastforce simp: map_res_Inr_iff list_all2_conv_all_nth in_set_conv_nth)
  from v(1) have "length vs = blk_rows b"
    by (auto simp: block_values_def map_res_Inr_iff dest: list_all2_lengthD)
  with assms(3) v(2) show ?thesis by force
qed

text \<open>
  C8. When the server fails after it delivered rows, \<open>query()\<close> succeeds and what the program gets
  depends on how it reads. \<open>fetchAll()\<close> collects the rows of all blocks before the failure and then
  throws, so that its caller gets the exception and none of them. A loop over \<open>fetch()\<close> gets every
  row of these blocks, decoded, in order, and then the exception. Either way the result is done, has
  given its connection back, and marked it for dropping exactly if the failure poisons it. A failure
  before the first row is thrown by \<open>query()\<close>. (The rows before the failure decode, and a \<open>NextBlock\<close>
  that delivers a block leaves no exception of its own pending.)
\<close>

theorem query_broken:
  assumes "cli_begin_execute A h (ch_apply_params_settings A
        \<lparr>q_text = c_str sql, q_params = [], q_settings = []\<rparr> params settings) (eg_exception s, ext s)
      = ((pks0, Inr ()), (None, w))"
    and "breaks A h (None, w) bs e" and "list_all wf_block bs"
    and "map_res (block_values A) bs = Inr ws" and "blocks_quiet A"
  shows "if \<exists>b \<in> set bs. 0 < blk_rows b
    then \<exists>r s1. ch_result_start A c h p sql params settings s = Some (Some r, s1)
      \<and> php_return r s1 = Inr r
      \<and> (\<exists>v obj r' s2 ex.
          result_fetchAll A (ch_result_object_create\<lparr>ro_result := Some r, ro_client := True\<rparr>) s1 = Some (v, obj, s2)
          \<and> php_return v s2 = Inl ex \<and> ro_result obj = Some r' \<and> has_failed e r' s2)
      \<and> (\<exists>obj r' s2 ex.
          fetch_loop A (ch_result_object_create\<lparr>ro_result := Some r, ro_client := True\<rparr>) s1 []
            = Some (concat ws, Some ex, obj, s2)
          \<and> ro_result obj = Some r' \<and> has_failed e r' s2)
    else \<exists>s'. ch_result_start A c h p sql params settings s = Some (None, s') \<and> eg_exception s' \<noteq> None"
proof (cases "\<exists>b \<in> set bs. 0 < blk_rows b")
  case True
  let ?obj = "\<lambda>r. ch_result_object_create\<lparr>ro_result := Some r, ro_client := True\<rparr>"
  from True ch_result_start_breaks [OF assms(1-4), of c p] obtain r s1 where
    r: "ch_result_start A c h p sql params settings s = Some (Some r, s1)"
    and y: "breaking_yields A e (r, s1) (concat ws)" by auto
  from y delivered_rows [OF assms(4)] True have "\<not> res_done r"
    by (auto simp: breaking_yields_def)
  with ch_result_start_quiet [OF assms(1) r _ assms(5)] have none: "eg_exception s1 = None" by simp
  from breaking_drained [OF y] obtain r' s2 where
    d: "drain (\<lambda>(r, s). ch_result_next A r s) (r, s1) [] = Some (concat ws, r', s2)" "has_failed e r' s2"
    by blast
  then have "eg_exception s2 \<noteq> None" by (simp add: has_failed_def)
  from php_return_pending [OF this, of "php_list (concat ws)"]
  obtain ex where "php_return (php_list (concat ws)) s2 = Inl ex" ..
  moreover have "result_fetchAll A (?obj r) s1
      = Some (php_list (concat ws), (?obj r)\<lparr>ro_result := Some r'\<rparr>, s2)"
    using d(1) by (simp add: result_fetchAll_def)
  moreover have "ro_result ((?obj r)\<lparr>ro_result := Some r'\<rparr>) = Some r'" by simp
  ultimately have all: "\<exists>v obj r' s2 ex. result_fetchAll A (?obj r) s1 = Some (v, obj, s2)
      \<and> php_return v s2 = Inl ex \<and> ro_result obj = Some r' \<and> has_failed e r' s2"
    using d(2) by blast
  have "ro_result (?obj r) = Some r" by simp
  from fetch_loop_breaking [OF y assms(5) this none, of "[]"]
  have "\<exists>obj r' s2 ex. fetch_loop A (?obj r) s1 [] = Some (concat ws, Some ex, obj, s2)
      \<and> ro_result obj = Some r' \<and> has_failed e r' s2"
    by auto
  with all none r True show ?thesis by (simp add: php_return_def)
next
  case False
  with ch_result_start_breaks [OF assms(1-4), of c p] show ?thesis by simp
qed

lemma ex_blocks_quiet: "blocks_quiet ex_api"
proof -
  have "fst x' = eg" if "ex_next h (eg, w) = ((pks, Inr (Some b)), x')" for h eg w pks b x'
    using that by (cases w) auto
  then show ?thesis unfolding blocks_quiet_def ex_api_sel by blast
qed

text \<open>Two rows arrive, then the connection breaks.\<close>

definition ex_broken_block :: block where
  "ex_broken_block = \<lparr>blk_cols = [(''n'', Leaf TInt64, LeafCol [VInt64 10, VInt64 20])], blk_rows = 2\<rparr>"

definition ex_broken_script :: script where
  "ex_broken_script = [([], Inr (Some ex_broken_block)), ([], Inl (connection_error ''gone''))]"

lemma ex_breaks: "breaks ex_api 7 (eg, ex_broken_script) [ex_broken_block] (connection_error ''gone'')"
proof -
  have "breaks ex_api 7 (eg, [([], Inl (connection_error ''gone''))]) [] (connection_error ''gone'')"
    by (rule breaks.failure [where x' = "(eg, [])"]) simp
  from breaks.one_more [OF _ this, of "(eg, ex_broken_script)" "[]" ex_broken_block] show ?thesis
    by (simp add: ex_broken_script_def)
qed

theorem query_broken_witness:
  "\<exists>r s1. ch_result_start ex_api 0 7 1 ''SELECT n'' None None (ex_vm ex_broken_script) = Some (Some r, s1)
     \<and> (\<exists>v obj s2 ex. result_fetchAll ex_api (ch_result_object_create\<lparr>ro_result := Some r, ro_client := True\<rparr>) s1
          = Some (v, obj, s2) \<and> php_return v s2 = Inl ex)
     \<and> (\<exists>obj s2 ex. fetch_loop ex_api (ch_result_object_create\<lparr>ro_result := Some r, ro_client := True\<rparr>) s1 []
          = Some ([ZArray [(KStr ''n'', ZLong 10)], ZArray [(KStr ''n'', ZLong 20)]], Some ex, obj, s2))"
proof -
  have "cli_begin_execute ex_api 7 q (eg_exception (ex_vm w), ext (ex_vm w)) = (([], Inr ()), (None, w))"
    for q w by (simp add: ex_vm_def)
  moreover have "list_all wf_block [ex_broken_block]"
    by (simp add: ex_broken_block_def wf_block_def)
  moreover have "[0..<2] = [0, 1 :: nat]" by (simp add: upt_rec)
  then have "map_res (block_values ex_api) [ex_broken_block]
      = Inr [[ZArray [(KStr ''n'', ZLong 10)], ZArray [(KStr ''n'', ZLong 20)]]]"
    by (simp add: ex_broken_block_def block_values_def block_row_def zend_hash_update_def)
  moreover have "\<exists>b \<in> set [ex_broken_block]. 0 < blk_rows b" by (simp add: ex_broken_block_def)
  ultimately show ?thesis
    using query_broken [where sql = "''SELECT n''" and params = None and settings = None
      and c = 0 and p = 1 and A = ex_api and h = 7 and s = "ex_vm ex_broken_script"
      and bs = "[ex_broken_block]", OF _ ex_breaks _ _ ex_blocks_quiet]
    by fastforce
qed

text \<open>
  C9. Every query ends: as long as the server sends only finitely many blocks, \<open>query()\<close> returns,
  whatever the blocks hold and however the stream ends; either it throws, or \<open>fetchAll()\<close> on its
  result returns too, and the connection has then been given back to the pool.
\<close>

theorem queries_end:
  assumes "finite_stream A h \<mu>"
  shows "\<exists>out s1. ch_result_start A c h p sql params settings s = Some (out, s1)
    \<and> (case out of
         None \<Rightarrow> eg_exception s1 \<noteq> None
       | Some r \<Rightarrow> \<exists>rows obj r' s2.
           result_fetchAll A (ch_result_object_create\<lparr>ro_result := Some r, ro_client := True\<rparr>) s1
             = Some (php_list rows, obj, s2)
           \<and> ro_result obj = Some r' \<and> res_done r' \<and> res_released r')"
proof -
  obtain out s1 where st: "ch_result_start A c h p sql params settings s = Some (out, s1)"
    using ch_result_start_returns [OF assms] by blast
  from st show ?thesis
  proof (cases rule: ch_result_start_cases)
    case (failed e r1 s0 r2)
    with st result_failed_has_failed [OF failed(2)] show ?thesis by (simp add: has_failed_def)
  next
    case (started r)
    from started(3) have "res_client r = h" by (simp add: same_handle_def new_result_def)
    with fetchAll_returns [of A r \<mu>, OF _ started(4)] assms obtain xs r' s2 where
      "drain (\<lambda>(r, s). ch_result_next A r s) (r, s1) [] = Some (xs, r', s2)" "res_done r'" "res_released r'"
      by blast
    with st started(1) show ?thesis by (auto simp: result_fetchAll_def ch_result_object_create_def)
  qed
qed

text \<open>A script is finite; the witness sends a block whose cells are missing.\<close>

lemma ex_finite_stream: "finite_stream ex_api h length"
proof -
  have "length (snd x') < length w" if "ex_next h (eg, w) = ((pks, Inr (Some b)), x')" for h eg w pks b x'
    using that by (cases w) auto
  then show ?thesis unfolding finite_stream_def ex_api_sel by blast
qed

theorem queries_end_witness:
  "\<exists>out s1. ch_result_start ex_api 0 7 1 ''SELECT n'' None None
     (ex_vm [([], Inr (Some \<lparr>blk_cols = [(''n'', Leaf TInt64, LeafCol [])], blk_rows = 2\<rparr>))]) = Some (out, s1)"
  using queries_end [OF ex_finite_stream] by blast

end
