(* ===== verification/Thm_Client.thy ===== *)
theory Thm_Client
  imports Ch_Example
begin

text \<open>
  The properties of the Client: exceptions, opening connections, the configuration, and the
  distribution of connections over several hosts.
\<close>

section \<open>Exceptions\<close>

text \<open>
  C28. The translator always leaves an exception pending; one that was pending (a cancellation)
  is kept as it is. The class it throws agrees with the decision to drop the connection: the
  failures that poison it are exactly those that become a \<open>ConnectionException\<close> or a
  \<open>ProtocolException\<close>.
\<close>

theorem translate_poison_agree:
  "\<exists>x. ch_translate_and_throw e eg = Some x
     \<and> (eg \<noteq> None \<longrightarrow> Some x = eg)
     \<and> (eg = None \<longrightarrow>
          (ch_exception_poisons_connection e \<longleftrightarrow>
             php_exn_class x = ConnectionException \<or> php_exn_class x = ProtocolException))"
  by (cases "exn_class e") (auto simp: exception_defs)

theorem translate_poison_agree_witness:
  "\<exists>x. ch_translate_and_throw (connection_error ''gone'') None = Some x
     \<and> (php_exn_class x = ConnectionException \<or> php_exn_class x = ProtocolException)"
  using translate_poison_agree [of "connection_error ''gone''" None] by auto

text \<open>
  What user code can catch: every error of the library arrives as a \<open>ClickHouseException\<close>,
  and so as a \<open>RuntimeException\<close>, with its message, and with the server's code if it is a server
  error; the one exception is a value that fails validation, which is a \<open>\ValueError\<close> outside
  that hierarchy.
\<close>

theorem translated_class:
  "\<exists>x. ch_translate_and_throw e None = Some x \<and> php_exn_message x = exn_what e
     \<and> php_exn_code x = (if exn_class e = CxxServerException then exn_code e else 0)
     \<and> (if exn_class e = CxxValidationError
        then php_exn_class x = ValueError \<and> \<not> php_exn_class x \<le> ClickHouseException
        else php_exn_class x \<le> ClickHouseException \<and> php_exn_class x \<le> RuntimeException
          \<and> \<not> php_exn_class x \<le> PhpError)"
  by (cases "exn_class e") (auto simp: exception_defs less_eq_php_class_def)

section \<open>Opening a connection\<close>

text \<open>
  C30. Opening a connection gives a fresh, unbroken \<open>ch_client\<close>, or nothing and a pending
  exception; the connections that exist are untouched. If none was pending, a rejection by the
  server is a \<open>ServerException\<close> and every other failure a \<open>ConnectionException\<close>.
\<close>

theorem connect_outcomes:
  "case ch_client_connect A cfg s of
     (Some c, s') \<Rightarrow> c = next_conn s
        \<and> (\<exists>h. conns s' = (conns s)(c \<mapsto> \<lparr>cl_client = h, cl_broken = False\<rparr>)) \<and> \<not> ch_client_is_broken c s'
   | (None, s') \<Rightarrow> conns s' = conns s \<and> eg_exception s' \<noteq> None
        \<and> (\<forall>e w. cli_connect A (client_options_of cfg) (cfg_tls cfg) (cfg_tls_verify cfg)
                   (eg_exception s, ext s) = (Inl e, (None, w)) \<longrightarrow>
             (\<exists>x. eg_exception s' = Some x
               \<and> php_exn_class x = (if dynamic_cast CxxServerException e then ServerException
                                    else ConnectionException)))"
proof -
  obtain r eg w where f: "cli_connect A (client_options_of cfg) (cfg_tls cfg) (cfg_tls_verify cfg)
      (eg_exception s, ext s) = (r, (eg, w))"
    by (metis surj_pair)
  show ?thesis
  proof (cases r)
    case (Inr h)
    with f show ?thesis
      by (simp add: ch_client_connect_def client_call_def ext_call_def log_call_def Let_def
          new_conn_def ch_client_is_broken_def) blast
  next
    case (Inl e)
    with f show ?thesis
      by (cases eg)
        (auto simp: ch_client_connect_def client_call_def ext_call_def log_call_def Let_def
          throw_cxx_def throw_php_def exception_defs)
  qed
qed

definition ex_config :: client_config where
  "ex_config = \<lparr>cfg_host = Some ''db'', cfg_port = 9000, cfg_database = None, cfg_user = None,
     cfg_password = None, cfg_compression = 1, cfg_tls = False, cfg_tls_verify = True,
     cfg_endpoints = []\<rparr>"

theorem connect_outcomes_witness:
  "\<exists>x. eg_exception (snd (ch_client_connect
        (ex_api\<lparr>cli_connect := \<lambda>opts tls v x. (Inl (cxx_error CxxOther ''refused''), x)\<rparr>) ex_config (ex_vm [])))
     = Some x \<and> php_exn_class x = ConnectionException"
proof -
  let ?A = "ex_api\<lparr>cli_connect := \<lambda>opts tls v x. (Inl (cxx_error CxxOther ''refused''), x)\<rparr>"
  have "fst (ch_client_connect ?A ex_config (ex_vm [])) = None"
    by (simp add: ch_client_connect_def client_call_def ext_call_def log_call_def Let_def ex_vm_def)
  with connect_outcomes [where A = ?A and cfg = ex_config and s = "ex_vm []"] show ?thesis
    by (auto simp: ex_vm_def dynamic_cast_def split: prod.splits option.splits)
qed

section \<open>Configuration\<close>

text \<open>
  C33. A host entry printed as \<open>host:port\<close> parses back to that host and port, for every host
  text (IPv6 colons included) and every port but 0; an entry without a colon is a host with the
  default port.
\<close>

theorem host_port_roundtrip:
  "(0 < port \<longrightarrow> ch_parse_host_port (host @ CHR '':'' # dec_digits (unat port)) d = (host, port))
   \<and> (CHR '':'' \<notin> set str \<longrightarrow> ch_parse_host_port str d = (str, d))"
  by (auto intro: parse_host_port_print ch_parse_host_port_no_colon)

theorem host_port_roundtrip_witness:
  "ch_parse_host_port ''db:9440'' 9000 = (''db'', 9440) \<and> ch_parse_host_port ''db'' 9000 = (''db'', 9000)"
proof -
  have "dec_digits 9440 = ''9440''"
    by (simp add: dec_digits.simps dec_char_def char_of_eq_iff take_bit_eq_mod)
  with host_port_roundtrip [of 9440 "''db''" 9000 "''db''"] show ?thesis by simp
qed

text \<open>
  C32. The \<open>hosts\<close> option: the first entry becomes the primary host, the others the failover
  endpoints in order. An entry without a port takes the port of the first entry, not the
  configured default.
\<close>

theorem hosts_option:
  assumes "enum_option ht ''compression'' ''Compression'' = Inr m1"
    and "enum_option ht ''open_strategy'' ''OpenStrategy'' = Inr m2"
    and "zend_hash_find ht (KStr ''hosts'') = Some (ZArray list)" and "hash_values list = e # es"
    and "ch_parse_host_port (zval_get_string P e)
           (obj_port (config_port P ht (config_tls P ht ch_client_object_create))) = (host, port)"
  shows "\<exists>obj. construct P ht ch_client_object_create s = (obj, s)
    \<and> obj_host obj = Some host \<and> obj_port obj = port
    \<and> obj_endpoints obj = map (\<lambda>x. ch_parse_host_port (zval_get_string P x) port) es"
proof -
  let ?obj1 = "config_port P ht (config_tls P ht (config_strings ht ch_client_object_create))"
  have p1: "obj_port ?obj1 = obj_port (config_port P ht (config_tls P ht ch_client_object_create))"
    by (simp add: config_port_def config_tls_def config_strings_def)
  have e1: "obj_endpoints ?obj1 = []"
    by (simp add: config_port_def config_tls_def config_strings_def ch_client_object_create_def)
  obtain obj2 where c2: "config_compression ht ?obj1 = (None, obj2)"
    and o2: "obj_port obj2 = obj_port ?obj1" "obj_endpoints obj2 = []"
    using assms(1) e1 by (cases m1) (simp_all add: config_compression_def)
  obtain obj3 where c3: "config_strategy ht obj2 = (None, obj3)"
    and o3: "obj_port obj3 = obj_port obj2" "obj_endpoints obj3 = []"
    using assms(2) o2 by (cases m2) (simp_all add: config_strategy_def)
  have o4: "obj_port (config_pool P ht obj3) = obj_port obj3" "obj_endpoints (config_pool P ht obj3) = []"
    using o3 by (simp_all add: config_pool_def split: option.split zval.split)
  have "ch_parse_host_port (zval_get_string P e) (obj_port (config_pool P ht obj3)) = (host, port)"
    using assms(5) o4 o3 o2 p1 by simp
  from config_hosts_eq [OF assms(3,4) this o4(2)] c2 c3 show ?thesis
    by (simp add: construct_def Let_def)
qed

theorem hosts_option_witness:
  "obj_endpoints (fst (construct ex_api
       [(KStr ''hosts'', php_list [ZString ''a:9440'', ZString ''b''])] ch_client_object_create (ex_vm [])))
     = [(''b'', 9440)]"
proof -
  let ?ht = "[(KStr ''hosts'', php_list [ZString ''a:9440'', ZString ''b''])]"
  have d: "dec_digits 9440 = ''9440''"
    by (simp add: dec_digits.simps dec_char_def char_of_eq_iff take_bit_eq_mod)
  have a: "ch_parse_host_port ''a:9440'' q = (''a'', 9440)" for q
    using parse_host_port_print [of 9440 "''a''" q] d by simp
  have "ch_parse_host_port ''b'' 9440 = (''b'', 9440)"
    by (rule ch_parse_host_port_no_colon) simp
  with hosts_option [where ht = ?ht and P = ex_api and s = "ex_vm []" and e = "ZString ''a:9440''"
      and es = "[ZString ''b'']" and host = "''a''" and port = 9440] a
  show ?thesis
    by (force simp: enum_option_def zend_hash_find_def php_list_def hash_values_def add_next_index_def)
qed

text \<open>
  The constructor accepts every configuration array except one whose \<open>compression\<close> or
  \<open>open_strategy\<close> is not a case of its enum; that throws a \<open>TypeError\<close>, and nothing else is ever
  thrown. The empty configuration is the local server with LZ4, without TLS, at most ten
  connections, and certificate verification on.
\<close>

theorem constructor_outcomes:
  "snd (construct P ht obj s) =
      (if is_ok (enum_option ht ''compression'' ''Compression'')
       then if is_ok (enum_option ht ''open_strategy'' ''OpenStrategy'') then s
            else throw_php TypeError (enum_type_error ''open_strategy'' ''OpenStrategy'') s
       else throw_php TypeError (enum_type_error ''compression'' ''Compression'') s)
   \<and> fst (construct P [] ch_client_object_create s) =
      \<lparr>obj_host = Some ''127.0.0.1'', obj_database = Some ''default'', obj_user = Some ''default'',
       obj_password = Some [], obj_port = 9000, obj_compression = 1, obj_tls = False,
       obj_tls_verify = True, obj_pool_max = 10, obj_open_strategy = 0, obj_conn_seq = 0,
       obj_endpoints = [], obj_pool = None, obj_pool_wrapper = None\<rparr>"
proof
  have e: "enum_option ht key en = Inl msg \<Longrightarrow> msg = enum_type_error key en" for key en msg
    by (auto simp: enum_option_def split: option.splits zval.splits if_splits)
  show "snd (construct P ht obj s) =
      (if is_ok (enum_option ht ''compression'' ''Compression'')
       then if is_ok (enum_option ht ''open_strategy'' ''OpenStrategy'') then s
            else throw_php TypeError (enum_type_error ''open_strategy'' ''OpenStrategy'') s
       else throw_php TypeError (enum_type_error ''compression'' ''Compression'') s)"
    using e [of "''compression''" "''Compression''"] e [of "''open_strategy''" "''OpenStrategy''"]
    by (cases "enum_option ht ''compression'' ''Compression''";
        cases "enum_option ht ''open_strategy'' ''OpenStrategy''")
      (auto simp: construct_def config_compression_def config_strategy_def Let_def split: option.splits)
qed (simp add: construct_defs ch_client_object_create_def)

section \<open>Several hosts\<close>

text \<open>
  C31. Every connection the factory opens tries every endpoint of the Client exactly once, in
  their configured order from a starting point that wraps around; without an open strategy the
  starting point is the primary host.
\<close>

theorem factory_tries_every_endpoint:
  assumes "rand_ok A" and "length (obj_endpoints obj) < 2 ^ 62"
    and "obj_host obj = Some hname" and "\<forall>(h, p) \<in> set (all_endpoints obj). p \<noteq> 0"
  shows "\<exists>start opts r. start < length (all_endpoints obj)
    \<and> (obj_open_strategy obj = 0 \<longrightarrow> start = 0)
    \<and> calls (snd (snd (ch_pool_factory A obj s)))
        = calls s @ [CConnect opts (obj_tls obj) (obj_tls_verify obj) r]
    \<and> (opt_host opts, opt_port opts) # opt_endpoints opts = rotate start (all_endpoints obj)"
  using factory_connects [OF assms, of s] .

definition ex_client :: client_object where
  "ex_client = ch_client_object_create
     \<lparr>obj_host := Some ''a'', obj_port := 9000, obj_open_strategy := 1, obj_conn_seq := 4,
      obj_endpoints := [(''b'', 9001), (''c'', 9002)]\<rparr>"

theorem factory_tries_every_endpoint_witness:
  "\<exists>start opts r. calls (snd (snd (ch_pool_factory ex_api ex_client (ex_vm []))))
      = [CConnect opts False True r]
     \<and> (opt_host opts, opt_port opts) # opt_endpoints opts
       = rotate start [(''a'', 9000), (''b'', 9001), (''c'', 9002)]"
proof -
  have "all_endpoints ex_client = [(''a'', 9000), (''b'', 9001), (''c'', 9002)]"
    by (simp add: all_endpoints_def ex_client_def or_default_def c_str_def)
  with factory_tries_every_endpoint [OF ex_rand_ok, of ex_client "''a''" "ex_vm []"] show ?thesis
    by (auto simp: ex_client_def ch_client_object_create_def ex_vm_def)
qed

text \<open>
  Round robin is fair: of as many consecutive connections as there are endpoints, each
  endpoint is the first choice of exactly one, in order, as long as the 32-bit cursor does not
  wrap.
\<close>

theorem round_robin_fair:
  assumes "obj_open_strategy obj = 1" and "obj_endpoints obj \<noteq> []"
    and "unat (obj_conn_seq obj) + length (all_endpoints obj) \<le> 2 ^ 32"
  shows "map (\<lambda>i. all_endpoints obj ! i) (start_sequence A (length (all_endpoints obj)) obj s)
    = rotate (unat (obj_conn_seq obj)) (all_endpoints obj)"
  using assms by (rule start_sequence_covers)

theorem round_robin_fair_witness:
  "map (\<lambda>i. all_endpoints ex_client ! i) (start_sequence ex_api 3 ex_client (ex_vm []))
     = [(''b'', 9001), (''c'', 9002), (''a'', 9000)]"
proof -
  have eps: "all_endpoints ex_client = [(''a'', 9000), (''b'', 9001), (''c'', 9002)]"
    by (simp add: all_endpoints_def ex_client_def or_default_def c_str_def)
  have len: "length (all_endpoints ex_client) = 3" by (simp add: eps)
  have seq: "unat (obj_conn_seq ex_client) = 4"
    by (simp add: ex_client_def ch_client_object_create_def)
  have rot: "rotate 4 [a, b, c] = [b, c, a]" for a b c :: endpoint
    by (simp add: numeral_eq_Suc rotate_def)
  have "map (\<lambda>i. all_endpoints ex_client ! i)
      (start_sequence ex_api (length (all_endpoints ex_client)) ex_client (ex_vm []))
    = rotate (unat (obj_conn_seq ex_client)) (all_endpoints ex_client)"
  proof (rule round_robin_fair)
    show "obj_open_strategy ex_client = 1" "obj_endpoints ex_client \<noteq> []"
      by (simp_all add: ex_client_def ch_client_object_create_def)
    show "unat (obj_conn_seq ex_client) + length (all_endpoints ex_client) \<le> 2 ^ 32"
      unfolding len seq by simp
  qed
  then show ?thesis unfolding len seq unfolding eps rot .
qed

end
