(* ===== verification/Ch_Module.thy ===== *)
theory Ch_Module
  imports Ch_Api
begin

text \<open>
  What the module declares to the engine: the argument information, method tables and class
  registrations of \<open>clickhouse_async_arginfo.h\<close>, \<open>PHP_MINIT_FUNCTION\<close> of
  \<open>clickhouse_async.cpp\<close>, and the parameter parsing that opens each method. Classes are kept by
  their name in a table in order of registration.
\<close>

section \<open>Argument information\<close>

datatype decl_type =
    IsVoid | IsArray | IsLong | IsDouble | IsBool | IsString | IsMixed | IsObject string

record arg_info =
  arg_name :: string
  arg_type :: decl_type
  arg_default :: "string option"

text \<open>\<open>ZEND_BEGIN_ARG_\<dots>\<close>: number of required arguments, return type with its \<open>allow_null\<close> (absent
  for the constructor), arguments. None of the arguments allows null.\<close>

record fun_info =
  fi_required :: nat
  fi_return :: "(decl_type \<times> bool) option"
  fi_args :: "arg_info list"

definition arg_type_info :: "string \<Rightarrow> decl_type \<Rightarrow> arg_info" where
  "arg_type_info n t = \<lparr>arg_name = n, arg_type = t, arg_default = None\<rparr>"

definition arg_with_default :: "string \<Rightarrow> decl_type \<Rightarrow> string \<Rightarrow> arg_info" where
  "arg_with_default n t d = \<lparr>arg_name = n, arg_type = t, arg_default = Some d\<rparr>"

definition returns :: "nat \<Rightarrow> decl_type \<Rightarrow> bool \<Rightarrow> arg_info list \<Rightarrow> fun_info" where
  "returns req t allow_null args = \<lparr>fi_required = req, fi_return = Some (t, allow_null), fi_args = args\<rparr>"

definition arginfo_Batch_append :: fun_info where
  "arginfo_Batch_append = returns 1 IsVoid False [arg_type_info ''row'' IsArray]"

definition arginfo_Batch_flush :: fun_info where
  "arginfo_Batch_flush = returns 0 IsVoid False []"

definition arginfo_Batch_count :: fun_info where
  "arginfo_Batch_count = returns 0 IsLong False []"

definition arginfo_Result_fetch :: fun_info where
  "arginfo_Result_fetch = returns 0 IsArray True []"

definition arginfo_Result_fetchAll :: fun_info where
  "arginfo_Result_fetchAll = returns 0 IsArray False []"

definition arginfo_Result_fetchOne :: fun_info where
  "arginfo_Result_fetchOne = returns 0 IsMixed False []"

definition arginfo_Result_affectedRows :: fun_info where
  "arginfo_Result_affectedRows = arginfo_Batch_count"

definition arginfo_Result_summary :: fun_info where
  "arginfo_Result_summary = returns 0 (IsObject (ns @ ''Summary'')) False []"

definition arginfo_Result_current :: fun_info where
  "arginfo_Result_current = arginfo_Result_fetchOne"

definition arginfo_Result_key :: fun_info where
  "arginfo_Result_key = arginfo_Batch_count"

definition arginfo_Result_next :: fun_info where
  "arginfo_Result_next = arginfo_Batch_flush"

definition arginfo_Result_rewind :: fun_info where
  "arginfo_Result_rewind = arginfo_Batch_flush"

definition arginfo_Result_valid :: fun_info where
  "arginfo_Result_valid = returns 0 IsBool False []"

definition arginfo_Client_construct :: fun_info where
  "arginfo_Client_construct =
     \<lparr>fi_required = 1, fi_return = None, fi_args = [arg_type_info ''config'' IsArray]\<rparr>"

definition arginfo_Client_query :: fun_info where
  "arginfo_Client_query =
     returns 1 (IsObject (ns @ ''Result'')) False
       [arg_type_info ''sql'' IsString, arg_with_default ''params'' IsArray ''[]'',
        arg_with_default ''options'' IsArray ''[]'']"

definition arginfo_Client_insert :: fun_info where
  "arginfo_Client_insert =
     returns 3 IsVoid False
       [arg_type_info ''table'' IsString, arg_type_info ''columns'' IsArray,
        arg_type_info ''rows'' IsArray]"

definition arginfo_Client_insertBatch :: fun_info where
  "arginfo_Client_insertBatch =
     returns 2 (IsObject (ns @ ''Batch'')) False
       [arg_type_info ''table'' IsString, arg_type_info ''columns'' IsArray]"

definition arginfo_Client_getPool :: fun_info where
  "arginfo_Client_getPool = returns 0 (IsObject (''Async'' @ [CHR 0x5C] @ ''Pool'')) False []"

section \<open>Method tables\<close>

text \<open>Every entry is public.\<close>

type_synonym methods = "(string \<times> fun_info) list"

definition Batch_methods :: methods where
  "Batch_methods =
     [(''append'', arginfo_Batch_append), (''flush'', arginfo_Batch_flush),
      (''count'', arginfo_Batch_count)]"

definition Result_methods :: methods where
  "Result_methods =
     [(''fetch'', arginfo_Result_fetch), (''fetchAll'', arginfo_Result_fetchAll),
      (''fetchOne'', arginfo_Result_fetchOne), (''affectedRows'', arginfo_Result_affectedRows),
      (''summary'', arginfo_Result_summary), (''current'', arginfo_Result_current),
      (''key'', arginfo_Result_key), (''next'', arginfo_Result_next),
      (''rewind'', arginfo_Result_rewind), (''valid'', arginfo_Result_valid)]"

definition Client_methods :: methods where
  "Client_methods =
     [(''__construct'', arginfo_Client_construct), (''query'', arginfo_Client_query),
      (''insert'', arginfo_Client_insert), (''insertBatch'', arginfo_Client_insertBatch),
      (''getPool'', arginfo_Client_getPool)]"

section \<open>Classes\<close>

text \<open>The functions MINIT stores in \<open>create_object\<close> and \<open>free_obj\<close> of a class.\<close>

datatype object_kind = BatchObject | ClientObject | ResultObject

record class_entry =
  ce_name :: string
  ce_parent :: "string option"
  ce_interfaces :: "string list"
  ce_final :: bool
  ce_methods :: methods
  ce_cases :: "(string \<times> string) list"
  ce_props :: "(string \<times> decl_type \<times> bool) list"
  ce_create :: "object_kind option"
  ce_free :: "object_kind option"

type_synonym class_table = "class_entry list"

definition plain_class :: "string \<Rightarrow> string option \<Rightarrow> bool \<Rightarrow> methods \<Rightarrow> class_entry" where
  "plain_class name parent final ms =
     \<lparr>ce_name = ns @ name, ce_parent = parent, ce_interfaces = [], ce_final = final, ce_methods = ms,
      ce_cases = [], ce_props = [], ce_create = None, ce_free = None\<rparr>"

definition register_Compression :: "class_table \<Rightarrow> class_table" where
  "register_Compression tbl =
     tbl @ [(plain_class ''Compression'' None True [])
       \<lparr>ce_cases := [(''None'', ''none''), (''LZ4'', ''lz4''), (''ZSTD'', ''zstd'')]\<rparr>]"

definition register_OpenStrategy :: "class_table \<Rightarrow> class_table" where
  "register_OpenStrategy tbl =
     tbl @ [(plain_class ''OpenStrategy'' None True [])
       \<lparr>ce_cases := [(''InOrder'', ''in_order''), (''RoundRobin'', ''round_robin''),
         (''Random'', ''random'')]\<rparr>]"

definition register_ClickHouseException :: "string \<Rightarrow> class_table \<Rightarrow> class_table" where
  "register_ClickHouseException parent tbl =
     tbl @ [plain_class ''ClickHouseException'' (Some parent) False []]"

definition register_ConnectionException :: "string \<Rightarrow> class_table \<Rightarrow> class_table" where
  "register_ConnectionException parent tbl =
     tbl @ [plain_class ''ConnectionException'' (Some parent) False []]"

definition register_ServerException :: "string \<Rightarrow> class_table \<Rightarrow> class_table" where
  "register_ServerException parent tbl =
     tbl @ [plain_class ''ServerException'' (Some parent) False []]"

definition register_ProtocolException :: "string \<Rightarrow> class_table \<Rightarrow> class_table" where
  "register_ProtocolException parent tbl =
     tbl @ [plain_class ''ProtocolException'' (Some parent) False []]"

definition register_Batch :: "class_table \<Rightarrow> class_table" where
  "register_Batch tbl = tbl @ [plain_class ''Batch'' None True Batch_methods]"

text \<open>The public readonly properties of \<open>Summary\<close>, each with its type and \<open>MAY_BE_NULL\<close>.\<close>

definition register_Summary :: "class_table \<Rightarrow> class_table" where
  "register_Summary tbl =
     tbl @ [(plain_class ''Summary'' None True [])
       \<lparr>ce_props :=
          [(''readRows'', IsLong, False), (''readBytes'', IsLong, False),
           (''writtenRows'', IsLong, False), (''writtenBytes'', IsLong, False),
           (''totalRowsToRead'', IsLong, False), (''rowsBeforeLimit'', IsLong, True),
           (''elapsed'', IsDouble, False)]\<rparr>]"

definition register_Result :: "string \<Rightarrow> class_table \<Rightarrow> class_table" where
  "register_Result iterator tbl =
     tbl @ [(plain_class ''Result'' None True Result_methods)\<lparr>ce_interfaces := [iterator]\<rparr>]"

definition register_Client :: "class_table \<Rightarrow> class_table" where
  "register_Client tbl = tbl @ [plain_class ''Client'' None True Client_methods]"

text \<open>Setting \<open>create_object\<close> and the \<open>free_obj\<close> handler of a registered class.\<close>

definition set_handlers :: "string \<Rightarrow> object_kind \<Rightarrow> class_table \<Rightarrow> class_table" where
  "set_handlers name k tbl =
     map (\<lambda>ce. if ce_name ce = ns @ name then ce\<lparr>ce_create := Some k, ce_free := Some k\<rparr> else ce) tbl"

definition PHP_MINIT :: "class_table \<Rightarrow> class_table" where
  "PHP_MINIT tbl =
     (let t1 = register_OpenStrategy (register_Compression tbl);
          t2 = register_ClickHouseException ''RuntimeException'' t1;
          t3 = register_ConnectionException (ns @ ''ClickHouseException'') t2;
          t4 = register_ServerException (ns @ ''ClickHouseException'') t3;
          t5 = register_ProtocolException (ns @ ''ClickHouseException'') t4;
          t6 = set_handlers ''Batch'' BatchObject (register_Batch t5);
          t7 = register_Summary t6;
          t8 = set_handlers ''Client'' ClientObject (register_Client t7)
      in set_handlers ''Result'' ResultObject (register_Result ''Iterator'' t8))"

definition find_class :: "string \<Rightarrow> class_table \<Rightarrow> class_entry option" where
  "find_class c tbl = find (\<lambda>ce. ce_name ce = c) tbl"

text \<open>The class chain of a class: a parent is registered before its child, so the chain of the
  last class continues in the table before it.\<close>

fun chain :: "class_table \<Rightarrow> string \<Rightarrow> string list" where
  "chain [] c = [c]"
| "chain (ce # earlier) c =
     (if ce_name ce = c
      then c # (case ce_parent ce of None \<Rightarrow> [] | Some p \<Rightarrow> chain earlier p)
      else chain earlier c)"

definition instanceof :: "class_table \<Rightarrow> string \<Rightarrow> string \<Rightarrow> bool" where
  "instanceof tbl c d \<longleftrightarrow> d \<in> set (chain (rev tbl) c)"

section \<open>Parameter parsing\<close>

text \<open>
  \<open>ZEND_PARSE_PARAMETERS_START(min, max)\<close> with its parameters. Which values a string parameter
  takes (coercion, \<open>strict_types\<close>) is the engine's and the same on both sides: \<open>str\<close>.
\<close>

datatype zpp_param = ParamString | ParamArray | ParamArrayOrNull

type_synonym zpp = "nat \<times> zpp_param list"

definition zpp_none :: zpp where "zpp_none = (0, [])"

definition zpp_append :: zpp where "zpp_append = (1, [ParamArray])"

definition zpp_construct :: zpp where "zpp_construct = (1, [ParamArray])"

definition zpp_query :: zpp where
  "zpp_query = (1, [ParamString, ParamArrayOrNull, ParamArrayOrNull])"

definition zpp_insert :: zpp where "zpp_insert = (3, [ParamString, ParamArray, ParamArray])"

definition zpp_insertBatch :: zpp where "zpp_insertBatch = (2, [ParamString, ParamArray])"

text \<open>The methods of the three classes with what their bodies parse.\<close>

definition Batch_zpp :: "(string \<times> zpp) list" where
  "Batch_zpp = [(''append'', zpp_append), (''flush'', zpp_none), (''count'', zpp_none)]"

definition Result_zpp :: "(string \<times> zpp) list" where
  "Result_zpp =
     [(''fetch'', zpp_none), (''fetchAll'', zpp_none), (''fetchOne'', zpp_none),
      (''affectedRows'', zpp_none), (''summary'', zpp_none), (''current'', zpp_none),
      (''key'', zpp_none), (''next'', zpp_none), (''rewind'', zpp_none), (''valid'', zpp_none)]"

definition Client_zpp :: "(string \<times> zpp) list" where
  "Client_zpp =
     [(''__construct'', zpp_construct), (''query'', zpp_query), (''insert'', zpp_insert),
      (''insertBatch'', zpp_insertBatch), (''getPool'', zpp_none)]"

fun param_ok :: "(zval \<Rightarrow> bool) \<Rightarrow> zpp_param \<Rightarrow> zval \<Rightarrow> bool" where
  "param_ok str ParamString v = str v"
| "param_ok str ParamArray v = is_zarray v"
| "param_ok str ParamArrayOrNull v = (is_zarray v \<or> v = ZNull)"

definition parse_parameters :: "(zval \<Rightarrow> bool) \<Rightarrow> zpp \<Rightarrow> zval list \<Rightarrow> bool" where
  "parse_parameters str z args =
     (case z of (mn, ps) \<Rightarrow>
        mn \<le> length args \<and> length args \<le> length ps
        \<and> list_all (\<lambda>(p, v). param_ok str p v) (zip ps args))"

section \<open>What a declaration allows\<close>

fun value_of_type :: "(zval \<Rightarrow> bool) \<Rightarrow> decl_type \<Rightarrow> zval \<Rightarrow> bool" where
  "value_of_type str IsVoid v = (v = ZNull)"
| "value_of_type str IsArray v = is_zarray v"
| "value_of_type str IsLong v = (case v of ZLong n \<Rightarrow> True | _ \<Rightarrow> False)"
| "value_of_type str IsDouble v = (case v of ZDouble d \<Rightarrow> True | _ \<Rightarrow> False)"
| "value_of_type str IsBool v = (case v of ZBool b \<Rightarrow> True | _ \<Rightarrow> False)"
| "value_of_type str IsString v = str v"
| "value_of_type str IsMixed v = True"
| "value_of_type str (IsObject c) v = (case v of ZObject d \<Rightarrow> d = c | _ \<Rightarrow> False)"

definition declared_parameters :: "(zval \<Rightarrow> bool) \<Rightarrow> fun_info \<Rightarrow> zval list \<Rightarrow> bool" where
  "declared_parameters str fi args \<longleftrightarrow>
     fi_required fi \<le> length args \<and> length args \<le> length (fi_args fi)
     \<and> list_all (\<lambda>(a, v). value_of_type str (arg_type a) v) (zip (fi_args fi) args)"

lemmas arginfo_defs =
  arg_type_info_def arg_with_default_def returns_def arginfo_Batch_append_def
  arginfo_Batch_flush_def arginfo_Batch_count_def arginfo_Result_fetch_def
  arginfo_Result_fetchAll_def arginfo_Result_fetchOne_def arginfo_Result_affectedRows_def
  arginfo_Result_summary_def arginfo_Result_current_def arginfo_Result_key_def
  arginfo_Result_next_def arginfo_Result_rewind_def arginfo_Result_valid_def
  arginfo_Client_construct_def arginfo_Client_query_def arginfo_Client_insert_def
  arginfo_Client_insertBatch_def arginfo_Client_getPool_def

lemmas zpp_defs =
  zpp_none_def zpp_append_def zpp_construct_def zpp_query_def zpp_insert_def zpp_insertBatch_def

lemmas method_defs = Batch_methods_def Result_methods_def Client_methods_def

lemmas registration_defs =
  PHP_MINIT_def register_Compression_def register_OpenStrategy_def register_ClickHouseException_def
  register_ConnectionException_def register_ServerException_def register_ProtocolException_def
  register_Batch_def register_Summary_def register_Result_def register_Client_def
  set_handlers_def plain_class_def

section \<open>The registered classes\<close>

lemma ns_eq [simp]: "(ns @ a = ns @ b) = (a = b)"
  by simp

lemma PHP_MINIT_eq:
  "PHP_MINIT [] =
    [(plain_class ''Compression'' None True [])
       \<lparr>ce_cases := [(''None'', ''none''), (''LZ4'', ''lz4''), (''ZSTD'', ''zstd'')]\<rparr>,
     (plain_class ''OpenStrategy'' None True [])
       \<lparr>ce_cases := [(''InOrder'', ''in_order''), (''RoundRobin'', ''round_robin''),
         (''Random'', ''random'')]\<rparr>,
     plain_class ''ClickHouseException'' (Some ''RuntimeException'') False [],
     plain_class ''ConnectionException'' (Some (ns @ ''ClickHouseException'')) False [],
     plain_class ''ServerException'' (Some (ns @ ''ClickHouseException'')) False [],
     plain_class ''ProtocolException'' (Some (ns @ ''ClickHouseException'')) False [],
     (plain_class ''Batch'' None True Batch_methods)
       \<lparr>ce_create := Some BatchObject, ce_free := Some BatchObject\<rparr>,
     (plain_class ''Summary'' None True [])
       \<lparr>ce_props :=
          [(''readRows'', IsLong, False), (''readBytes'', IsLong, False),
           (''writtenRows'', IsLong, False), (''writtenBytes'', IsLong, False),
           (''totalRowsToRead'', IsLong, False), (''rowsBeforeLimit'', IsLong, True),
           (''elapsed'', IsDouble, False)]\<rparr>,
     (plain_class ''Client'' None True Client_methods)
       \<lparr>ce_create := Some ClientObject, ce_free := Some ClientObject\<rparr>,
     (plain_class ''Result'' None True Result_methods)
       \<lparr>ce_interfaces := [''Iterator''], ce_create := Some ResultObject, ce_free := Some ResultObject\<rparr>]"
  by (simp add: registration_defs Let_def)

end
