(* ===== verification/Thm_Module.thy ===== *)
theory Thm_Module
  imports Ch_Example Ch_Module
begin

text \<open>
  Properties of what the module declares: catch blocks, enum options and parameters.
\<close>

section \<open>Exceptions\<close>

fun php_class_name :: "php_class \<Rightarrow> string" where
  "php_class_name ClickHouseException = ns @ ''ClickHouseException''"
| "php_class_name ConnectionException = ns @ ''ConnectionException''"
| "php_class_name ServerException = ns @ ''ServerException''"
| "php_class_name ProtocolException = ns @ ''ProtocolException''"
| "php_class_name RuntimeException = ''RuntimeException''"
| "php_class_name PhpException = ''Exception''"
| "php_class_name ValueError = ''ValueError''"
| "php_class_name TypeError = ''TypeError''"
| "php_class_name PhpError = ''Error''"
| "php_class_name (OtherThrowable n) = n"

text \<open>\<open>catch (d)\<close> with the classes that MINIT registered.\<close>

definition caught_by :: "php_exn \<Rightarrow> string \<Rightarrow> bool" where
  "caught_by x d \<longleftrightarrow> instanceof (PHP_MINIT []) (php_class_name (php_exn_class x)) d"

text \<open>
  C29. Which \<open>catch\<close> blocks take an error of the library is decided by the registered class
  hierarchy: \<open>ClickHouseException\<close> and \<open>RuntimeException\<close> take all of them except a validation
  error, and \<open>ConnectionException\<close>, \<open>ServerException\<close>, \<open>ProtocolException\<close> take exactly transport
  errors, server errors, and decoding, compression and assertion errors. The message is the
  library's, and so is the code of a server error.
\<close>

theorem catch_blocks:
  "\<exists>x. ch_translate_and_throw e None = Some x \<and> php_exn_message x = exn_what e
     \<and> php_exn_code x = (if exn_class e = CxxServerException then exn_code e else 0)
     \<and> (caught_by x (ns @ ''ClickHouseException'') = (exn_class e \<noteq> CxxValidationError))
     \<and> (caught_by x ''RuntimeException'' = (exn_class e \<noteq> CxxValidationError))
     \<and> (caught_by x (ns @ ''ConnectionException'') = (exn_class e = CxxConnectionError))
     \<and> (caught_by x (ns @ ''ServerException'') = (exn_class e = CxxServerException))
     \<and> (caught_by x (ns @ ''ProtocolException'')
          = (exn_class e \<in> {CxxProtocolError, CxxCompressionError, CxxAssertionError}))"
  by (cases "exn_class e")
    (simp_all add: exception_defs caught_by_def instanceof_def PHP_MINIT_eq plain_class_def ns_def)

section \<open>Enum options\<close>

lemma config_rest_keeps:
  "obj_compression (config_hosts P ht (config_pool P ht obj)) = obj_compression obj
   \<and> obj_open_strategy (config_hosts P ht (config_pool P ht obj)) = obj_open_strategy obj"
proof -
  have "obj_compression (fst (foldl (add_host P) st es)) = obj_compression (fst st)
      \<and> obj_open_strategy (fst (foldl (add_host P) st es)) = obj_open_strategy (fst st)" for st es
    by (induction es arbitrary: st) (auto simp: add_host_def split: prod.splits)
  then show ?thesis
    by (auto simp: config_hosts_def config_pool_def Let_def split: option.splits zval.splits)
qed

text \<open>
  The constructor takes every case of the registered enums \<open>Compression\<close> and
  \<open>OpenStrategy\<close>, never an error, and gives each the meaning of its name: the library's
  compression method, and the code of the strategy.
\<close>

theorem enum_cases_configured:
  assumes "find_class (ns @ ''Compression'') (PHP_MINIT []) = Some cce" and "(n, v) \<in> set (ce_cases cce)"
    and "find_class (ns @ ''OpenStrategy'') (PHP_MINIT []) = Some sce" and "(m, w) \<in> set (ce_cases sce)"
    and "zend_hash_find ht (KStr ''compression'') = Some (ZEnum (ce_name cce) v)"
    and "zend_hash_find ht (KStr ''open_strategy'') = Some (ZEnum (ce_name sce) w)"
  shows "\<exists>obj. construct P ht ch_client_object_create s = (obj, s)
     \<and> (n, ch_map_compression (obj_compression obj))
         \<in> {(''None'', NoCompression), (''LZ4'', LZ4), (''ZSTD'', ZSTD)}
     \<and> (m, obj_open_strategy obj) \<in> {(''InOrder'', 0), (''RoundRobin'', 1), (''Random'', 2)}"
proof -
  have c: "ce_name cce = ns @ ''Compression''"
    and v: "(n, v) \<in> {(''None'', ''none''), (''LZ4'', ''lz4''), (''ZSTD'', ''zstd'')}"
    using assms(1,2) by (auto simp: find_class_def PHP_MINIT_eq plain_class_def)
  have st: "ce_name sce = ns @ ''OpenStrategy''"
    and w: "(m, w) \<in> {(''InOrder'', ''in_order''), (''RoundRobin'', ''round_robin''), (''Random'', ''random'')}"
    using assms(3,4) by (auto simp: find_class_def PHP_MINIT_eq plain_class_def)
  let ?obj1 = "config_port P ht (config_tls P ht (config_strings ht ch_client_object_create))"
  let ?k = "if v = ''none'' then 0 else if v = ''zstd'' then 2 else 1"
  let ?j = "if w = ''round_robin'' then 1 else if w = ''random'' then 2 else 0"
  have "obj_open_strategy ?obj1 = 0"
    by (simp add: config_port_def config_tls_def config_strings_def ch_client_object_create_def)
  then have "construct P ht ch_client_object_create s
      = (config_hosts P ht (config_pool P ht
          (?obj1\<lparr>obj_compression := ?k, obj_open_strategy := ?j\<rparr>)), s)"
    using assms(5,6) by (simp add: c st construct_def config_compression_def config_strategy_def
        enum_option_def Let_def)
  moreover have "(n, ch_map_compression ?k) \<in> {(''None'', NoCompression), (''LZ4'', LZ4), (''ZSTD'', ZSTD)}"
    using v by (auto simp: ch_map_compression_def)
  moreover have "(m, ?j) \<in> {(''InOrder'', 0), (''RoundRobin'', 1), (''Random'', 2)}"
    using w by auto
  ultimately show ?thesis using config_rest_keeps [of P ht] by simp
qed

lemma enum_classes:
  "\<exists>ce. find_class (ns @ ''Compression'') (PHP_MINIT []) = Some ce
     \<and> ce_name ce = ns @ ''Compression'' \<and> (''ZSTD'', ''zstd'') \<in> set (ce_cases ce)"
  "\<exists>ce. find_class (ns @ ''OpenStrategy'') (PHP_MINIT []) = Some ce
     \<and> ce_name ce = ns @ ''OpenStrategy'' \<and> (''Random'', ''random'') \<in> set (ce_cases ce)"
  by (simp_all add: find_class_def PHP_MINIT_eq plain_class_def)

theorem enum_cases_configured_witness:
  "\<exists>obj. construct ex_api [(KStr ''compression'', ZEnum (ns @ ''Compression'') ''zstd''),
        (KStr ''open_strategy'', ZEnum (ns @ ''OpenStrategy'') ''random'')]
        ch_client_object_create (ex_vm []) = (obj, ex_vm [])
     \<and> ch_map_compression (obj_compression obj) = ZSTD \<and> obj_open_strategy obj = 2"
proof -
  let ?ht = "[(KStr ''compression'', ZEnum (ns @ ''Compression'') ''zstd''),
    (KStr ''open_strategy'', ZEnum (ns @ ''OpenStrategy'') ''random'')]"
  obtain c1 c2 where c: "find_class (ns @ ''Compression'') (PHP_MINIT []) = Some c1"
      "ce_name c1 = ns @ ''Compression''" "(''ZSTD'', ''zstd'') \<in> set (ce_cases c1)"
    and d: "find_class (ns @ ''OpenStrategy'') (PHP_MINIT []) = Some c2"
      "ce_name c2 = ns @ ''OpenStrategy''" "(''Random'', ''random'') \<in> set (ce_cases c2)"
    using enum_classes by blast
  have "zend_hash_find ?ht (KStr ''compression'') = Some (ZEnum (ce_name c1) ''zstd'')"
    and "zend_hash_find ?ht (KStr ''open_strategy'') = Some (ZEnum (ce_name c2) ''random'')"
    by (simp_all add: zend_hash_find_def c d)
  from enum_cases_configured [OF c(1,3) d(1,3) this, of ex_api "ex_vm []"] show ?thesis by auto
qed

section \<open>Parameters\<close>

text \<open>The calls of \<open>query\<close> that pass null for an array.\<close>

definition null_for_array :: "(zval \<Rightarrow> bool) \<Rightarrow> zval list \<Rightarrow> bool" where
  "null_for_array str args \<longleftrightarrow>
     args \<noteq> [] \<and> length args \<le> 3 \<and> str (hd args) \<and> ZNull \<in> set (tl args)
     \<and> list_all (\<lambda>v. is_zarray v \<or> v = ZNull) (tl args)"

text \<open>
  C35. Every method parses exactly the arguments that the argument information declares, in number
  and type, with one exception: \<open>Client::query\<close> also takes null for \<open>params\<close> and \<open>options\<close>,
  which are declared as arrays.
\<close>

theorem parameters_as_declared:
  "list_all2 (\<lambda>(name, fi) (name', z). name' = name \<and>
       (\<forall>str args. parse_parameters str z args
          = (declared_parameters str fi args \<or> (name = ''query'' \<and> null_for_array str args))))
     (Batch_methods @ Result_methods @ Client_methods) (Batch_zpp @ Result_zpp @ Client_zpp)"
  by (auto simp: method_defs Batch_zpp_def Result_zpp_def Client_zpp_def arginfo_defs zpp_defs
      parse_parameters_def declared_parameters_def null_for_array_def le_Suc_eq length_Suc_conv
      numeral_eq_Suc)

end
