(* ===== verification/Ch_Progress.thy ===== *)
theory Ch_Progress
  imports Ch_Transport
begin

text \<open>
  When the loops of the plaintext streams return. They spin as long as the system answers
  \<open>EINTR\<close> or a wait reports readiness that is not there; they return as soon as the outside has
  only finitely many such answers left, which a measure on its state expresses.
\<close>

section \<open>Patience\<close>

text \<open>\<open>patient N \<mu>\<close>: a transient (os N) error of \<open>send\<close> or \<open>recv\<close> uses up some of \<open>\<mu>\<close>, and no call
  gives any back.\<close>

definition transient :: "platform \<Rightarrow> sock_error \<Rightarrow> bool" where
  "transient p err \<longleftrightarrow> err = CH_SOCK_EINTR p \<or> err = CH_SOCK_EAGAIN p \<or> err = CH_SOCK_EWOULDBLOCK p"

definition quiet :: "('w \<Rightarrow> nat) \<Rightarrow> ('w, 'a) io \<Rightarrow> bool" where
  "quiet \<mu> f \<longleftrightarrow> (\<forall>eg w. \<mu> (snd (snd (f (eg, w)))) \<le> \<mu> w)"

definition patient :: "'w net_api \<Rightarrow> ('w \<Rightarrow> nat) \<Rightarrow> bool" where
  "patient N \<mu> \<longleftrightarrow>
     (\<forall>fd ev. quiet \<mu> (abi_new_socket_event N fd ev)) \<and>
     (\<forall>e. quiet \<mu> (abi_event_release N e)) \<and>
     (\<forall>c t. quiet \<mu> (abi_waker_new N c t)) \<and>
     (\<forall>c e. quiet \<mu> (abi_resume_when N c e)) \<and>
     (\<forall>c. quiet \<mu> (abi_waker_clean N c)) \<and>
     quiet \<mu> (abi_suspend N) \<and>
     (\<forall>fd bs len. quiet \<mu> (sys_send N fd bs len)) \<and>
     (\<forall>fd len. quiet \<mu> (sys_recv N fd len)) \<and>
     (\<forall>fd bs len eg w n err x'. bs \<noteq> [] \<longrightarrow> sys_send N fd bs len (eg, w) = ((n, err), x') \<longrightarrow>
        0 < n \<or> \<not> transient (os N) err \<or> \<mu> (snd x') < \<mu> w) \<and>
     (\<forall>fd len eg w n bs err x'. sys_recv N fd len (eg, w) = ((n, bs, err), x') \<longrightarrow>
        0 \<le> n \<or> \<not> transient (os N) err \<or> \<mu> (snd x') < \<mu> w)"

lemma patient_send:
  "patient N \<mu> \<Longrightarrow> bs \<noteq> [] \<Longrightarrow> sys_send N fd bs len (eg, w) = ((n, err), x') \<Longrightarrow> \<not> 0 < n \<Longrightarrow>
    transient (os N) err \<Longrightarrow> \<mu> (snd x') < \<mu> w"
  unfolding patient_def by meson

lemma patient_recv:
  "patient N \<mu> \<Longrightarrow> sys_recv N fd len (eg, w) = ((n, bs, err), x') \<Longrightarrow> \<not> 0 \<le> n \<Longrightarrow>
    transient (os N) err \<Longrightarrow> \<mu> (snd x') < \<mu> w"
  unfolding patient_def by meson

lemma quiet_net_call:
  assumes "quiet \<mu> f"
  shows "\<mu> (n_ext (snd (net_call c f s))) \<le> \<mu> (n_ext s)"
proof -
  obtain x eg w where "f (n_eg s, n_ext s) = (x, eg, w)" by (metis surj_pair)
  with assms show ?thesis
    unfolding quiet_def net_call_def by (metis (no_types, lifting) case_prod_conv net.select_convs(2) snd_conv)
qed

lemma ch_await_socket_quiet:
  assumes "patient N \<mu>"
  shows "\<mu> (n_ext (snd (ch_await_socket N fd ev t s))) \<le> \<mu> (n_ext s)"
proof (cases "abi_current_coroutine N (n_ext s)")
  case None
  then show ?thesis by (simp add: ch_await_socket_def)
next
  case (Some co)
  let ?ev = "net_call NNewEvent (abi_new_socket_event N fd ev) s"
  note q = assms [unfolded patient_def]
  have q1: "\<mu> (n_ext (snd ?ev)) \<le> \<mu> (n_ext s)"
    using q by (intro quiet_net_call) simp
  show ?thesis
  proof (cases "fst ?ev")
    case None
    with Some q1 show ?thesis by (simp add: ch_await_socket_def case_prod_beta)
  next
    case (Some e)
    note e = this
    define s1 where "s1 = snd ?ev"
    define s2 where "s2 = snd (net_call (\<lambda>_. NWakerNew) (abi_waker_new N co t) s1)"
    define s3 where "s3 = snd (net_call (\<lambda>_. NResumeWhen e) (abi_resume_when N co e) s2)"
    define s4 where "s4 = snd (net_call NSuspend (abi_suspend N) s3)"
    have q2: "\<mu> (n_ext s2) \<le> \<mu> (n_ext s1)" and q3: "\<mu> (n_ext s3) \<le> \<mu> (n_ext s2)"
      and q4: "\<mu> (n_ext s4) \<le> \<mu> (n_ext s3)"
      unfolding s2_def s3_def s4_def using q by (auto intro!: quiet_net_call)
    have rel: "\<mu> (n_ext (snd (net_call (\<lambda>_. NEventRelease e) (abi_event_release N e) s2))) \<le> \<mu> (n_ext s2)"
      and clean: "\<mu> (n_ext (snd (net_call (\<lambda>_. NWakerClean) (abi_waker_clean N co) s'))) \<le> \<mu> (n_ext s')"
      for s' using q by (auto intro!: quiet_net_call)
    have "snd (ch_await_socket N fd ev t s) \<in> {s1,
        snd (net_call (\<lambda>_. NEventRelease e) (abi_event_release N e) s2),
        snd (net_call (\<lambda>_. NWakerClean) (abi_waker_clean N co) s3),
        snd (net_call (\<lambda>_. NWakerClean) (abi_waker_clean N co) s4)}"
      using \<open>abi_current_coroutine N (n_ext s) = Some co\<close> e
      by (simp add: ch_await_socket_def case_prod_beta Let_def s1_def s2_def s3_def s4_def)
    with q1 [folded s1_def] q2 q3 q4 rel clean [of s3] clean [of s4] show ?thesis by auto
  qed
qed

section \<open>The loops return\<close>

lemma async_write_loop_returns:
  assumes "patient N \<mu>"
  shows "\<exists>out. async_write_loop N fd data sent s = Some out"
proof (induction "(length data - sent) + \<mu> (n_ext s)" arbitrary: sent s rule: less_induct)
  case less
  show ?case
  proof (cases "sent < length data")
    case False
    then show ?thesis by (subst async_write_loop.simps) simp
  next
    case True
    obtain n err s1 where c: "net_call (\<lambda>(n, _). NSend (drop sent data) n)
          (sys_send N fd (drop sent data) (CH_SOCK_IOLEN (os N) (length data - sent))) s = ((n, err), s1)"
      and f: "sys_send N fd (drop sent data) (CH_SOCK_IOLEN (os N) (length data - sent)) (n_eg s, n_ext s) = ((n, err), n_eg s1, n_ext s1)"
      by (rule net_call_cases [of "\<lambda>(n, _). NSend (drop sent data) n"
            "sys_send N fd (drop sent data) (CH_SOCK_IOLEN (os N) (length data - sent))" s]) auto
    from assms have "quiet \<mu> (sys_send N fd (drop sent data) (CH_SOCK_IOLEN (os N) (length data - sent)))" by (simp add: patient_def)
    with f have le: "\<mu> (n_ext s1) \<le> \<mu> (n_ext s)"
      by (metis quiet_def snd_conv)
    obtain ready s2 where w: "ch_await_socket N fd ASYNC_WRITABLE 0 s1 = (ready, s2)"
      by (metis surj_pair)
    with ch_await_socket_quiet [OF assms, of fd ASYNC_WRITABLE 0 s1]
    have le2: "\<mu> (n_ext s2) \<le> \<mu> (n_ext s1)" by simp
    show ?thesis
    proof (cases "0 < n")
      case pos: True
      with True le have "\<exists>out. async_write_loop N fd data (sent + nat n) s1 = Some out"
        by (intro less) linarith
      with True pos c show ?thesis by (subst async_write_loop.simps) simp
    next
      case no_bytes: False
      show ?thesis
      proof (cases "transient (os N) err")
        case hard: False
        with True no_bytes c show ?thesis
          by (subst async_write_loop.simps) (simp add: transient_def)
      next
        case again: True
        have "drop sent data \<noteq> []" using True by simp
        from patient_send [OF assms this f no_bytes again]
        have lt: "\<mu> (n_ext s1) < \<mu> (n_ext s)" by simp
        then have "\<exists>out. async_write_loop N fd data sent s1 = Some out"
          "\<exists>out. async_write_loop N fd data sent s2 = Some out"
          using le2 by (intro less; simp)+
        with True no_bytes c w show ?thesis by (subst async_write_loop.simps) auto
      qed
    qed
  qed
qed

lemma async_do_read_returns:
  assumes "patient N \<mu>"
  shows "\<exists>out. async_do_read N fd len s = Some out"
proof (induction "\<mu> (n_ext s)" arbitrary: s rule: less_induct)
  case less
  obtain n bs err s1 where c: "net_call (\<lambda>(n, _). NRecv n) (sys_recv N fd (CH_SOCK_IOLEN (os N) len)) s = ((n, bs, err), s1)"
    and f: "sys_recv N fd (CH_SOCK_IOLEN (os N) len) (n_eg s, n_ext s) = ((n, bs, err), n_eg s1, n_ext s1)"
    by (rule net_call_cases [of "\<lambda>(n, _). NRecv n" "sys_recv N fd (CH_SOCK_IOLEN (os N) len)" s]) auto
  obtain ready s2 where w: "ch_await_socket N fd ASYNC_READABLE 0 s1 = (ready, s2)"
    by (metis surj_pair)
  with ch_await_socket_quiet [OF assms, of fd ASYNC_READABLE 0 s1]
  have le2: "\<mu> (n_ext s2) \<le> \<mu> (n_ext s1)" by simp
  show ?case
  proof (cases "0 \<le> n")
    case True
    with c show ?thesis by (subst async_do_read.simps) simp
  next
    case negative: False
    show ?thesis
    proof (cases "transient (os N) err")
      case hard: False
      with negative c show ?thesis
        by (subst async_do_read.simps) (simp add: transient_def)
    next
      case again: True
      from patient_recv [OF assms f negative again] have "\<mu> (n_ext s1) < \<mu> (n_ext s)" by simp
      then have "\<exists>out. async_do_read N fd len s1 = Some out" "\<exists>out. async_do_read N fd len s2 = Some out"
        using le2 by (intro less; simp)+
      with negative c w show ?thesis by (subst async_do_read.simps) auto
    qed
  qed
qed

lemma socket_write_returns: "patient N \<mu> \<Longrightarrow> \<exists>out. socket_write N sock data s = Some out"
  using async_write_loop_returns [of N \<mu>]
  by (cases sock) (simp_all add: async_do_write_def)

lemma socket_read_returns: "patient N \<mu> \<Longrightarrow> \<exists>out. socket_read N sock len s = Some out"
  using async_do_read_returns [of N \<mu>]
  by (cases sock) simp_all

lemma write_seq_returns:
  assumes "patient N \<mu>"
  shows "\<exists>out. socket.write_seq N sock ds s = Some out"
proof (induction ds arbitrary: s)
  case (Cons d ds)
  obtain r s1 where d: "socket_write N sock d s = Some (r, s1)"
    using socket_write_returns [OF assms] by (metis surj_pair)
  from Cons [of s1] d show ?case by (cases r) auto
qed simp

end
