(* ===== verification/Ch_Drop.thy ===== *)
theory Ch_Drop
  imports Ch_Stream Ch_Equiv
begin

text \<open>
  The way of a poisoning exception from the library to the pool: whichever operation it ends, the
  connection is given back marked, and the pool destroys it.
\<close>

lemma result_failed_gone:
  assumes f: "result_failed A e r s = (r', s')" and "ch_exception_poisons_connection e"
    and "\<not> res_released r" and "conns s (res_conn r) = Some cl" and "abi_honours_verdict A"
  shows "conns s' (res_conn r) = None"
  using f
proof (cases rule: result_failed_cases)
  case (1 s1)
  have "ch_client_is_broken (res_conn r) (set_broken (res_conn r) s)"
    using assms(4) by (simp add: ch_client_is_broken_def)
  from pool_release_broken [OF assms(5) this, of "res_pool r"] 1(1,2) assms(2,3) show ?thesis
    by (auto simp: ch_result_finish_eq ch_result_release_def Let_def)
qed

lemma next_poisoned_drops:
  assumes n: "next_block A r s = (Inl e, r1, s1)" and e: "ch_exception_poisons_connection e"
    and "res_rows r \<le> res_row r" and "live_ok r" and "\<not> res_released r"
    and "conns s (res_conn r) = Some cl" and "abi_honours_verdict A"
  shows "\<exists>r' s'. ch_result_next A r s = Some (None, r', s') \<and> res_released r'
    \<and> conns s' (res_conn r) = None \<and> eg_exception s' \<noteq> None"
proof -
  obtain r' s' where f: "result_failed A e r1 s1 = (r', s')"
    by (metis surj_pair)
  note fr = next_block_frame [OF n]
  have "ch_result_next A r s = Some (None, r', s')"
    using assms(3-5) n f by (subst ch_result_next.simps) (simp add: live_ok_def)
  moreover have "conns s' (res_conn r1) = None"
    using fr assms(5,6) by (intro result_failed_gone [OF f e _ _ assms(7)]) (auto simp: same_handle_def)
  ultimately show ?thesis
    using failed_frame [OF f] fr by (auto simp: same_handle_def)
qed

lemma insert_poisoned_drops:
  assumes body: "send_block_body A h stmt names (hash_values rows) s = (Inl e, s1)"
    and e: "ch_exception_poisons_connection e"
    and stmt: "ch_build_insert_statement A table columns = (stmt, names)"
    and c: "conns s c = Some cl" "cl_client cl = h" and "abi_honours_verdict A"
  shows "\<exists>s'. ch_client_insert A c table columns rows s = (False, s') \<and> eg_exception s' \<noteq> None
    \<and> conns (pool_release A p c s') c = None"
proof -
  define s' where "s' = (throw_cxx e s1)\<lparr>conns := (conns (throw_cxx e s1))(c \<mapsto> cl\<lparr>cl_broken := True\<rparr>)\<rparr>"
  have "ch_client_insert A c table columns rows s = (False, s')"
    using body e stmt c by (simp add: ch_client_insert_def ch_send_block_def s'_def)
  moreover have "eg_exception s' \<noteq> None"
    unfolding s'_def using throw_sel(9) [of e s1] by (simp del: throw_sel)
  moreover have "ch_client_is_broken c s'"
    by (simp add: s'_def ch_client_is_broken_def)
  ultimately show ?thesis
    using pool_release_broken [OF assms(6)] by blast
qed

end
