(* ===== verification/Thm_Transport.thy ===== *)
theory Thm_Transport
  imports Ch_Example Ch_Progress Ch_Drop
begin

text \<open>The properties of the transport.\<close>

text \<open>
  C24. A sequence of writes to a plaintext or TLS socket delivers the bytes in order, without loss
  or repetition, however the socket splits them and however often it has to wait: if every write
  returns, the peer was given exactly their concatenation; if one fails, a proper prefix of it,
  and the failure is one that poisons the connection.
\<close>

theorem writes_deliver:
  assumes "net_ok N" and "socket.write_seq N sock ds s = Some (r, s')"
  shows "case r of
      Inr u \<Rightarrow> sent_bytes s' = sent_bytes s @ concat ds
    | Inl e \<Rightarrow> ch_exception_poisons_connection e
        \<and> (\<exists>k < length (concat ds). sent_bytes s' = sent_bytes s @ take k (concat ds))"
  using socket.write_seq_all [OF assms(1), of sock ds s _ s']
    socket.write_seq_part [OF assms(1), of sock ds s _ s'] assms(2)
  by (cases r) simp_all

theorem writes_deliver_witness:
  "\<exists>s'. socket.write_seq ex_net (TlsSocket 3) [[1, 2, 3], [4]] ex_net_state = Some (Inr (), s')
     \<and> sent_bytes s' = [1, 2, 3, 4]"
proof -
  obtain s' where s': "socket.write_seq ex_net (TlsSocket 3) [[1, 2, 3], [4]] ex_net_state = Some (Inr (), s')"
    by (simp add: tls_do_write_def tls_write_loop.simps net_call_def ex_net_def
        ex_net_state_def)
  with writes_deliver [OF ex_net_ok s'] show ?thesis
    by (simp add: sent_bytes_def ex_net_state_def)
qed

text \<open>
  A read that returns gives at least one byte and no more than were asked for; any other end
  (a closed peer, a cancelled wait, a socket error) is a failure that poisons the connection.
\<close>

theorem reads_bounded:
  assumes "net_ok N" and "socket_read N sock len s = Some (r, s')"
  shows "case r of Inr bs \<Rightarrow> 0 < length bs \<and> length bs \<le> len
    | Inl e \<Rightarrow> ch_exception_poisons_connection e"
  using socket_read_ends [OF assms] by (simp add: read_ends_def)

theorem reads_bounded_witness:
  "\<exists>bs s'. socket_read ex_net (AsyncSocket 5) 10 ex_net_state = Some (Inr bs, s')
     \<and> 0 < length bs \<and> length bs \<le> 10"
proof -
  obtain bs s' where r: "socket_read ex_net (AsyncSocket 5) 10 ex_net_state = Some (Inr bs, s')"
    by (simp add: async_do_read.simps net_call_def ex_net_def ex_net_state_def)
  with reads_bounded [OF ex_net_ok r] show ?thesis by simp
qed

text \<open>
  C26. A transport failure ends the connection: when a read or a write of a socket fails and the
  library passes the exception on from a pull of a Result that has no row left in its block, the
  pull fails with a PHP exception pending, the connection is given back, and the pool destroys it;
  and when it passes it on from a call of an insert, the insert fails with an exception pending and
  the release that follows destroys the connection. (The pool does as \<open>before_release\<close> says.)
\<close>

theorem transport_failure_drops:
  assumes "net_ok N"
    and "socket_read N sock len n = Some (Inl e, n') \<or> socket_write N sock data n = Some (Inl e, n')"
    and "abi_honours_verdict A"
  shows "(next_block A r s = (Inl e, r1, s1) \<and> res_rows r \<le> res_row r \<and> live_ok r
        \<and> \<not> res_released r \<and> conns s (res_conn r) = Some cl
      \<longrightarrow> (\<exists>r' s'. ch_result_next A r s = Some (None, r', s') \<and> res_released r'
        \<and> conns s' (res_conn r) = None \<and> eg_exception s' \<noteq> None))
    \<and> (send_block_body A (cl_client cl') stmt names (hash_values rows) t = (Inl e, t1)
        \<and> ch_build_insert_statement A table columns = (stmt, names) \<and> conns t c = Some cl'
      \<longrightarrow> (\<exists>t'. ch_client_insert A c table columns rows t = (False, t') \<and> eg_exception t' \<noteq> None
        \<and> conns (pool_release A p c t') c = None))"
proof -
  have e: "ch_exception_poisons_connection e"
    using socket_read_ends [OF assms(1)] socket_write_sent [OF assms(1)] assms(2)
    by (fastforce simp: read_ends_def write_ends_def)
  show ?thesis
    using next_poisoned_drops [OF _ e _ _ _ _ assms(3)]
      insert_poisoned_drops [OF _ e _ _ refl assms(3)] by blast
qed

text \<open>A TLS peer that closed, and a library that passes the failure on.\<close>

definition ex_closed :: cxx_exn where
  "ex_closed = connection_error ''clickhouse: tls connection closed''"

definition ex_closed_net :: "nat net_api" where
  "ex_closed_net = ex_net\<lparr>stream_read := \<lambda>st len x. ((0, []), x)\<rparr>"

definition ex_closed_api :: "script ch_api" where
  "ex_closed_api = ex_api\<lparr>cli_begin_insert := \<lambda>h stmt x. (Inl ex_closed, x),
     cli_next_block := \<lambda>h x. (([], Inl ex_closed), x)\<rparr>"

theorem transport_failure_drops_witness:
  "(\<exists>r' s'. ch_result_next ex_closed_api (new_result ex_closed_api 0 7 1 (ex_vm [])) (ex_vm []) = Some (None, r', s')
      \<and> conns s' 0 = None)
   \<and> (\<exists>t'. ch_client_insert ex_closed_api 0 ''t'' [] [] (ex_vm []) = (False, t')
      \<and> conns (pool_release ex_closed_api 1 0 t') 0 = None)"
proof -
  let ?A = ex_closed_api and ?s = "ex_vm []"
  let ?r = "new_result ?A 0 7 1 ?s"
  obtain stmt names where b: "ch_build_insert_statement ?A ''t'' [] = (stmt, names)"
    by (metis surj_pair)
  have net: "net_ok ex_closed_net"
    using ex_net_ok by (auto simp: net_ok_def ex_closed_net_def)
  obtain n' where read: "socket_read ex_closed_net (TlsSocket 3) 10 ex_net_state = Some (Inl ex_closed, n')"
    by (simp add: tls_do_read_def net_call_def ex_closed_net_def ex_closed_def)
  obtain r1 s1 where nb: "next_block ?A ?r ?s = (Inl ex_closed, r1, s1)"
    by (simp add: next_block_def ext_call_def ex_closed_api_def)
  obtain t1 where body: "send_block_body ?A 7 stmt names (hash_values []) ?s = (Inl ex_closed, t1)"
    by (simp add: send_block_body_def ebind_def client_call_def ext_call_def ex_closed_api_def)
  have verdict: "abi_honours_verdict ?A"
    by (simp add: abi_honours_verdict_def ex_closed_api_def)
  have "conns ?s 0 = Some \<lparr>cl_client = 7, cl_broken = False\<rparr>" by (simp add: ex_vm_def)
  with nb body b
    transport_failure_drops [OF net disjI1 [OF read] verdict, where r = ?r and s = ?s and t = ?s
      and cl' = "\<lparr>cl_client = 7, cl_broken = False\<rparr>" and c = 0 and p = 1 and table = "''t''"
      and columns = "[]" and rows = "[]"]
  show ?thesis by (simp add: live_ok_def new_result_def) blast
qed

text \<open>
  C27. Waiting for a socket leaks nothing, with one exception: on every path the poll event that
  was created is released or handed to the coroutine's waker, and a waker that was armed is
  cleaned; only when the event was created although an exception is pending is it dropped without
  being released. A wait that reports readiness leaves no exception pending.
\<close>

theorem await_resources:
  assumes "ch_await_socket N fd ev t s = (ready, s')"
    and "abi_current_coroutine N (n_ext s) \<noteq> None"
  shows "\<exists>l. n_log s' = n_log s @ l \<and> sum_list (map waker_balance l) = 0
    \<and> sum_list (map event_balance l) = (if event_pending N fd ev s then 1 else 0)
    \<and> (ready \<longrightarrow> n_eg s' = None)"
  using ch_await_socket_balance [OF assms(1)] assms(2) by simp

theorem await_resources_witness:
  "\<exists>s'. ch_await_socket ex_net 5 ASYNC_READABLE 0 ex_net_state = (True, s') \<and> n_eg s' = None"
proof -
  obtain s' where a: "ch_await_socket ex_net 5 ASYNC_READABLE 0 ex_net_state = (True, s')"
    by (simp add: ch_await_socket_def net_call_def ex_net_def ex_net_state_def)
  with await_resources [OF a] show ?thesis
    by (auto simp: ex_net_def)
qed

text \<open>
  The length shim is exact on POSIX, and on Windows below 2 GiB. Above that it narrows: a read of
  4 GiB asks Winsock for 0 bytes, and takes the 0 it answers for a closed connection.
\<close>

theorem socket_length_exact: "p = Posix \<or> len < 2 ^ 31 \<Longrightarrow> CH_SOCK_IOLEN p len = int len"
  using CH_SOCK_IOLEN_exact [of len p] by auto

lemma read_of_nothing:
  assumes "CH_SOCK_IOLEN (os N) len = 0" and "sys_recv N fd 0 (n_eg s, n_ext s) = ((0, bs, err), x')"
  shows "\<exists>s'. async_do_read N fd len s
    = Some (Inl (connection_error ''clickhouse: connection closed by peer''), s')"
  using assms(2) by (subst async_do_read.simps) (simp add: assms(1) net_call_def split: prod.splits)

theorem win32_read_narrowed:
  assumes "os N = Win32" and "\<And>x. \<exists>bs err x'. sys_recv N fd 0 x = ((0, bs, err), x')"
  shows "\<exists>s'. async_do_read N fd (2 ^ 32) s
    = Some (Inl (connection_error ''clickhouse: connection closed by peer''), s')"
proof -
  have "CH_SOCK_IOLEN (os N) (2 ^ 32) = 0"
    by (simp add: assms(1))
  moreover obtain bs err x' where "sys_recv N fd 0 (n_eg s, n_ext s) = ((0, bs, err), x')"
    using assms(2) by blast
  ultimately show ?thesis by (rule read_of_nothing)
qed

text \<open>
  C25. Reads and writes return: if the outside answers \<open>send\<close> and \<open>recv\<close> with only finitely many
  transient errors (\<open>EINTR\<close>, or \<open>EAGAIN\<close> after a wait that reported readiness), every sequence of
  writes and every read on a plaintext or TLS socket ends, with success or with a failure.
\<close>

theorem io_returns:
  assumes "patient N \<mu>"
  shows "(\<exists>r s'. socket.write_seq N sock ds s = Some (r, s'))
    \<and> (\<exists>r s'. socket_read N sock len s = Some (r, s'))"
  using write_seq_returns [OF assms, of sock ds s] socket_read_returns [OF assms, of sock len s] by simp

text \<open>A network that stalls: as long as its state is positive \<open>send\<close> and \<open>recv\<close> answer
  \<open>EAGAIN\<close>, although every wait reports readiness.\<close>

definition ex_stalling :: "nat net_api" where
  "ex_stalling = ex_net
     \<lparr>abi_new_socket_event := (\<lambda>fd ev x. (Some 0, x)),
      sys_recv := (\<lambda>fd len (eg, w). if 0 < w then ((- 1, [], EAGAIN), (eg, w - 1))
        else if len < 0 then ((- 1, [], EOther 22), (eg, w))
        else ((min len 2, replicate (nat (min len 2)) 65, EAGAIN), (eg, w))),
      sys_send := (\<lambda>fd bs len (eg, w). if 0 < w then ((- 1, EAGAIN), (eg, w - 1))
        else if len \<le> 0 then ((- 1, EOther 22), (eg, w)) else ((min len 2, EAGAIN), (eg, w)))\<rparr>"

lemma ex_stalling_patient: "patient ex_stalling (\<lambda>w. w)"
  by (auto simp: patient_def quiet_def ex_stalling_def ex_net_def transient_def split: if_splits)

theorem io_returns_witness:
  "\<exists>r s'. socket.write_seq ex_stalling (AsyncSocket 5) [[1, 2, 3], []] (ex_net_state\<lparr>n_ext := 4\<rparr>)
     = Some (r, s')"
  using io_returns [OF ex_stalling_patient] by blast

end
