(* ===== verification/Spec2Isabelle.thy ===== *)
theory Spec2Isabelle
  imports Thm_World Thm_Protocol Thm_Coroutine Thm_Table Thm_Codec Thm_Insert Thm_Result Thm_Failure Thm_Client Thm_Module Thm_Transport
begin

text \<open>
  php-clickhouse is a PHP extension in C++: a native ClickHouse client whose waiting suspends
  the coroutine of the TrueAsync engine instead of the thread. This development models its
  own code, which is \<open>ch_client.cpp\<close>, \<open>clickhouse_async.cpp\<close>, \<open>ch_transport.cpp\<close>,
  \<open>ch_exceptions.cpp\<close> and the declarations of \<open>clickhouse_async_arginfo.h\<close>, and proves what
  makes it correct.

  \<^bold>\<open>The program.\<close> A \<open>Client\<close> object owns a hidden pool of connections, made lazily through
  the pool interface of TrueAsync with callbacks that open, check and close a connection. A
  connection is a \<open>ch_client\<close>: a \<open>clickhouse::Client\<close> and a flag \<open>broken\<close>.
  \<open>Client::query\<close> acquires a connection and gives it to a \<open>ch_result\<close>, which pulls one block
  at a time and gives the connection back when the stream ends, fails or is abandoned;
  \<open>Client::insert\<close> acquires one, sends one block and releases it; \<open>Client::insertBatch\<close> gives
  it to a \<open>ch_batch\<close>, which keeps it until it is freed. Both inserts go through
  \<open>ch_send_block\<close>, which builds typed columns from PHP values with \<open>ch_append_value\<close>; reading
  goes through \<open>ch_column_value_to_zval\<close>. Errors of the C++ library become PHP exceptions in
  \<open>ch_translate_and_throw\<close>, and \<open>ch_exception_poisons_connection\<close> decides whether the
  connection may be used again. Below all this, the streams of \<open>ch_transport.cpp\<close> move the bytes.

  \<^bold>\<open>The theories,\<close> in the order they build on each other:

  \<^item> \<open>Ch_Prelude\<close>: machine integers, C division, the error sum and its loops, \<open>const char *\<close>.
  \<^item> \<open>Ch_Exceptions\<close>: \<open>ch_exceptions.cpp\<close>, the class hierarchy of \<open>PHP_MINIT_FUNCTION\<close>
    (subclassing as an instance of \<open>order\<close>) and the poison decision.
  \<^item> \<open>Php_Values\<close>: \<open>zval\<close>, hash tables in insertion order, the engine's conversions as a
    parameter record \<open>php_api\<close>.
  \<^item> \<open>Ch_Text\<close>, \<open>Ch_Decimal\<close>: UUIDs, decimals, 128-bit integers, the INSERT statement.
  \<^item> \<open>Ch_Types\<close>, \<open>Ch_Datetime\<close>: column types and the leaf half of the two type switches, with
    the tick arithmetic of DateTime64 on 64-bit words.
  \<^item> \<open>Ch_Columns\<close>: columns and the composite half: \<open>append_value\<close> and
    \<open>column_value_to_zval\<close>, with the template cache of \<open>ch_send_block\<close>, which is keyed by the
    addresses of the columns' \<open>Type\<close> objects: every column object of an insert has a name
    (\<open>col_ref\<close>), and its address is a parameter.
  \<^item> \<open>Ch_Codec\<close>, \<open>Ch_Roundtrip\<close>: the abstract codec \<open>enc\<close>/\<open>dec\<close> on cells, the refinement of
    the two switches to it (with the condition under which a reused address does no harm,
    \<open>one_cloned_map\<close>), and the round trip.
  \<^item> \<open>Ch_Typed\<close>: the PHP type of what a column of a type is read as.
  \<^item> \<open>Ch_Engine\<close>: the state \<open>vm\<close> (pending exception, live connections, the log of foreign
    calls, the outside state), the parameter record \<open>ch_api\<close> of foreign operations.
  \<^item> \<open>Ch_Client\<close>, \<open>Ch_Session\<close>: connecting, \<open>ch_send_block\<close>; the protocol state of a
    connection as a function of the log, and what an insert leaves behind.
  \<^item> \<open>Ch_Handles\<close>: the pool callbacks, the release of a connection, and the locale
    \<open>pooled_handle\<close>: a handle that pins a connection and gives it back once. \<open>ch_result\<close>
    (\<open>Ch_Stream\<close>) and \<open>ch_batch\<close> (\<open>Ch_Batch\<close>) are its interpretations.
  \<^item> \<open>Ch_Result\<close>, \<open>Ch_Stream\<close>: the lazy result, and induction rules for its two loops.
  \<^item> \<open>Row_Source\<close>, \<open>Ch_Rows\<close>: the locale \<open>row_source\<close> (pulling rows until none is left) and
    its interpretation by \<open>ch_result_next\<close> over the blocks the library delivers.
  \<^item> \<open>Ch_Failure\<close>, \<open>Ch_Fetch\<close>: streams that fail after some blocks, a second interpretation of
    \<open>row_source\<close>, and what reaches a caller that fetches row by row (a method that returns with an
    exception pending has no value for its caller, \<open>php_return\<close>).
  \<^item> \<open>Ch_Batch\<close>, \<open>Ch_Equiv\<close>: the batch, the runs of appends and flushes, and the comparison of
    a batch with one insert.
  \<^item> \<open>Ch_Table\<close>: a block that an insert built, read back by a result.
  \<^item> \<open>Ch_Config\<close>, \<open>Ch_Pool\<close>: \<open>Client::__construct\<close>; endpoint selection, the factory,
    acquiring, tear-down.
  \<^item> \<open>Ch_Api\<close>: the methods of \<open>Result\<close>, \<open>Batch\<close> and \<open>Client\<close>.
  \<^item> \<open>Ch_Liveness\<close>: every query ends if the server sends finitely many blocks
    (\<open>finite_stream\<close>).
  \<^item> \<open>Ch_Ownership\<close>, \<open>Ch_World\<close>: the ledger of connections read off the log (\<open>held\<close>: taken from
    the pool and not given back), what every operation moves on it, and the whole application:
    \<open>world_step\<close> is one call of PHP code on the Client or on any of its live Results and
    Batches, or the end of one of them, and \<open>world_ok\<close> the invariant of every reachable world.
  \<^item> \<open>Ch_Wire\<close>, \<open>Ch_Protocol\<close>, \<open>Ch_Safety\<close>: the wire protocol over the whole application. A claim
    is a connection, its client and the protocol states the client may be in; \<open>Ch_Wire\<close> has the
    rules for calling, taking and giving back beside any other claims, \<open>Ch_Protocol\<close> the
    operations of inserts, batches and results by these rules, \<open>Ch_Safety\<close> the claims of all live
    objects as an invariant of every run that does not flush a broken batch again.
  \<^item> \<open>Ch_Coroutine\<close>, \<open>Ch_Scene\<close>, \<open>Ch_Steps\<close>, \<open>Ch_Interleave\<close>: concurrent use. \<open>Ch_Coroutine\<close> has
    every operation that waits as a machine that stops at each call of the library (\<open>send_step\<close>,
    \<open>pull_step\<close>, \<open>prime_step\<close>, \<open>flush_step\<close>, and \<open>co_step\<close> for a method in progress) and shows that
    it computes the function of the operation when it runs alone; \<open>scene_step\<close> of \<open>Ch_Scene\<close> is one
    step of an application with any number of suspended coroutines, of which \<open>world_step\<close> is the
    case without interruption; \<open>Ch_Steps\<close> and \<open>Ch_Interleave\<close> carry the claims and the ledger
    over to every interleaving.
  \<^item> \<open>Ch_Module\<close>: argument information, method tables, class registration and
    \<open>PHP_MINIT_FUNCTION\<close> as data, and the parameter parsing of the methods.
  \<^item> \<open>Ch_Transport\<close>: the platform shims of both branches, \<open>ch_await_socket\<close>, the plaintext and
    TLS sockets with their streams, the socket factory; the
    locale \<open>byte_sink\<close> and its interpretation by a socket of either kind.
  \<^item> \<open>Ch_Progress\<close>: when the loops of the plaintext streams return. \<open>Ch_Drop\<close>: the way of a
    poisoning failure from the library to the pool.
  \<^item> \<open>Ch_Example\<close>: a concrete engine, library, server and network at which the theorems are
    applied.
  \<^item> \<open>Thm_World\<close>, \<open>Thm_Protocol\<close>, \<open>Thm_Coroutine\<close>, \<open>Thm_Table\<close>, \<open>Thm_Codec\<close>, \<open>Thm_Insert\<close>, \<open>Thm_Result\<close>, \<open>Thm_Failure\<close>, \<open>Thm_Client\<close>,
    \<open>Thm_Module\<close>, \<open>Thm_Transport\<close>: the properties, each with its number.

  \<^bold>\<open>Conventions.\<close> Definitions have the names of the functions they model. A C++ exception is
  \<open>Inl\<close> of an error sum; the PHP exception that is pending is a field of the state. A loop
  that may not end (a server that sends empty blocks for ever, a socket that is interrupted for
  ever) is a \<open>partial_function\<close> into \<open>option\<close>: not returning is \<open>None\<close>, and there is no
  fuel; that it returns is proved where the environment lets it (\<open>query_fetchAll\<close>,
  \<open>query_foreach\<close>, \<open>query_broken\<close>, \<open>queries_end\<close>, \<open>next_failure_verdict\<close>, \<open>io_returns\<close>). Integers have the width of the code; where the
  code multiplies in 64 bits the theorems give the precisions for which nothing overflows.
  Undefined behaviour of the codec (a null \<open>As<T>()\<close>, a template of another Map type) is the marker
  \<open>CxxUndefined\<close>; \<open>append_value_defined\<close> shows when it is not reached, and \<open>stale_template_used\<close>
  that two clones of different Map types may reach it.

  \<^bold>\<open>Parameters.\<close> clickhouse-cpp, the PHP engine, the TrueAsync interface, the C library's
  sockets and the random generator are not code of the repository: they are the fields of
  \<open>php_api\<close>, \<open>ch_env\<close>, \<open>ch_api\<close> and \<open>net_api\<close>. What the code relies on is named:
  \<open>php_api_ok\<close> (conversions of a value of the right type), \<open>lib_stores\<close> (a column gives back
  what it was given), \<open>ch_lib_ok\<close> (the name of a type creates a column of that type, and a
  \<open>Type\<close> object that lives as long as the insert shares its address with no object of another type;
  nothing is assumed of the clones that come and go with a cell), \<open>lib_block_ok\<close> and \<open>lib_samples_ok\<close> (blocks of
  equally long columns are accepted, samples have no empty Tuple), \<open>abi_honours_verdict\<close> (the
  pool destroys what \<open>before_release\<close> turns down), \<open>rand_ok\<close>, \<open>net_ok\<close>, \<open>patient\<close> (only
  finitely many transient socket errors), \<open>finite_stream\<close> (only finitely many blocks), \<open>blocks_quiet\<close> (a \<open>NextBlock\<close> that delivers a
  block leaves no PHP exception of its own), \<open>idle_lives\<close> (an idle connection the pool hands out is
  one the factory made and nobody destroyed), \<open>acquires_free\<close> (the pool hands out no connection
  that was taken and not given back, and live clients have different addresses; \<open>hands_out_free\<close>
  says the same of a scene), \<open>lib_clean\<close> (a
  query fails with a server error or a poisoning one, and delivered rows can be read).

  \<^bold>\<open>Not modelled.\<close> Conversions of PHP values that throw (an object without \<open>__toString\<close>);
  what \<open>ColumnMap::Append\<close> does with a Map of another type; reference counts and memory, apart from
  the references that keep a Client alive and the addresses of \<open>Type\<close> objects; two
  coroutines that overlap in one call of the library (a call is one step, and no two coroutines are
  inside methods of the same Result or Batch, except in \<open>append_during_flush\<close> and
  \<open>concurrent_flush\<close>); the module entry, \<open>phpinfo\<close> output
  and shutdown, which keep no state.
\<close>

end
